(* ===== verification/Prelude.thy ===== *)
theory Prelude
  imports Complex_Main "HOL-Library.Word"
begin

section \<open>Prelude: results, transition systems and interfaces shared by the components\<close>

text \<open>
  What every other theory of the development uses:
  \<^item> \<open>ub\<close>, the ways in which the C++ code can leave the behaviour its language defines, and
    the result type \<open>ub + 'a\<close> with its bind;
  \<^item> \<open>reach\<close>, the reachable states of a step relation, with the locales
    \<open>invariant_system\<close> and \<open>forward_simulation\<close> through which the state machines of
    the development are proved;
  \<^item> the interface locales \<open>fifo\<close> and \<open>text_codec\<close>.
\<close>

named_theorems ub_simps \<open>equations that evaluate results that may be undefined behaviour\<close>

type_synonym u8 = "8 word"
type_synonym u16 = "16 word"
type_synonym u32 = "32 word"
type_synonym u64 = "64 word"

subsection \<open>Undefined behaviour as a value\<close>

text \<open>
  Each constructor is one way of stepping outside the C++ standard that the emulator's code
  can reach: reading an indeterminate variable, converting a value that the target type
  cannot hold (also what a scanf conversion leaves undefined), indexing outside an object,
  using an invalidated iterator, freeing or touching storage that is not allocated,
  following a null pointer, and dividing by zero.
\<close>

datatype ub =
    Indeterminate_Read
  | Unrepresentable
  | Out_Of_Bounds
  | Invalid_Iterator
  | Invalid_Storage
  | Null_Pointer
  | Division_By_Zero

fun bind_ub :: "'e + 'a \<Rightarrow> ('a \<Rightarrow> 'e + 'b) \<Rightarrow> 'e + 'b" where
  "bind_ub (Inl e) f = Inl e"
| "bind_ub (Inr x) f = f x"

lemma bind_ub_Inr_iff [ub_simps]:
  "bind_ub r f = Inr y \<longleftrightarrow> (\<exists>x. r = Inr x \<and> f x = Inr y)"
  by (cases r) auto

lemma bind_ub_Inl_iff [ub_simps]:
  "bind_ub r f = Inl e \<longleftrightarrow> r = Inl e \<or> (\<exists>x. r = Inr x \<and> f x = Inl e)"
  by (cases r) auto

lemma bind_ub_assoc: "bind_ub (bind_ub r f) g = bind_ub r (\<lambda>x. bind_ub (f x) g)"
  by (cases r) auto

definition is_defined :: "ub + 'a \<Rightarrow> bool" where
  "is_defined r \<longleftrightarrow> (case r of Inl _ \<Rightarrow> False | Inr _ \<Rightarrow> True)"

lemma is_defined_simps [simp, ub_simps]:
  "is_defined (Inr x)" "\<not> is_defined (Inl e)"
  by (simp_all add: is_defined_def)

lemma is_defined_bind:
  "is_defined (bind_ub r f) \<longleftrightarrow> (\<exists>x. r = Inr x \<and> is_defined (f x))"
  by (cases r) auto

lemma is_defined_bind_Inr [simp]:
  "is_defined (bind_ub r (\<lambda>x. Inr (f x))) \<longleftrightarrow> is_defined r"
  by (cases r) auto

text \<open>Following a pointer that may be null.\<close>

fun deref :: "'a option \<Rightarrow> ub + 'a" where
  "deref None = Inl Null_Pointer"
| "deref (Some x) = Inr x"

text \<open>The first branch of a chain of early returns that applies.\<close>

fun first_some :: "'a option list \<Rightarrow> 'a option" where
  "first_some [] = None"
| "first_some (Some x # rest) = Some x"
| "first_some (None # rest) = first_some rest"

lemma first_some_Some: "first_some gs = Some x \<Longrightarrow> Some x \<in> set gs"
  by (induction gs rule: first_some.induct) auto

subsection \<open>Reachable states\<close>

inductive reach :: "('s \<Rightarrow> bool) \<Rightarrow> ('s \<Rightarrow> 's \<Rightarrow> bool) \<Rightarrow> 's \<Rightarrow> bool"
  for init :: "'s \<Rightarrow> bool" and step :: "'s \<Rightarrow> 's \<Rightarrow> bool" where
  reach_init: "init s \<Longrightarrow> reach init step s"
| reach_step: "reach init step s \<Longrightarrow> step s t \<Longrightarrow> reach init step t"

lemma reach_steps: "step\<^sup>*\<^sup>* s t \<Longrightarrow> reach init step s \<Longrightarrow> reach init step t"
  by (induction rule: rtranclp_induct) (auto intro: reach_step)

locale invariant_system =
  fixes init :: "'s \<Rightarrow> bool" and step :: "'s \<Rightarrow> 's \<Rightarrow> bool" and inv :: "'s \<Rightarrow> bool"
  assumes inv_init: "init s \<Longrightarrow> inv s"
    and inv_step: "inv s \<Longrightarrow> step s t \<Longrightarrow> inv t"
begin

lemma reach_inv: "reach init step s \<Longrightarrow> inv s"
  by (induction rule: reach.induct) (auto intro: inv_init inv_step)

lemma steps_inv: "step\<^sup>*\<^sup>* s t \<Longrightarrow> inv s \<Longrightarrow> inv t"
  by (induction rule: rtranclp_induct) (auto intro: inv_step)

end

text \<open>
  A forward simulation, under an invariant of the concrete system: each concrete step is
  matched by abstract steps between the images of its two states.
\<close>

locale forward_simulation = invariant_system init step inv
  for init :: "'s \<Rightarrow> bool" and step :: "'s \<Rightarrow> 's \<Rightarrow> bool" and inv :: "'s \<Rightarrow> bool" +
  fixes ainit :: "'a \<Rightarrow> bool" and astep :: "'a \<Rightarrow> 'a \<Rightarrow> bool" and abs :: "'s \<Rightarrow> 'a"
  assumes abs_init: "init s \<Longrightarrow> ainit (abs s)"
    and abs_step: "inv s \<Longrightarrow> step s t \<Longrightarrow> astep\<^sup>*\<^sup>* (abs s) (abs t)"
begin

lemma reach_abs: "reach init step s \<Longrightarrow> reach ainit astep (abs s)"
proof (induction rule: reach.induct)
  case (reach_init s)
  then show ?case by (intro reach.reach_init abs_init)
next
  case (reach_step s t)
  from reach_inv [OF reach_step.hyps(1)] reach_step.hyps(2)
  have "astep\<^sup>*\<^sup>* (abs s) (abs t)" by (rule abs_step)
  then show ?case using reach_step.IH by (rule reach_steps)
qed

end

subsection \<open>First-in first-out queues\<close>

text \<open>
  The contract of \<open>std::queue\<close> that the thread pool and the UDP stream rely on:
  \<open>items\<close> reads a queue as a list, \<open>push\<close> adds at its end, \<open>pop\<close> takes from its
  front.
\<close>

locale fifo =
  fixes items :: "'q \<Rightarrow> 'a list" and push :: "'a \<Rightarrow> 'q \<Rightarrow> 'q" and pop :: "'q \<Rightarrow> ('a \<times> 'q) option"
  assumes items_push: "items (push x q) = items q @ [x]"
    and pop_None: "pop q = None \<longleftrightarrow> items q = []"
    and pop_Some: "pop q = Some (x, r) \<Longrightarrow> items q = x # items r"
begin

lemma pop_pushed_empty:
  assumes "items q = []" and "pop (push x q) = Some (y, r)"
  shows "y = x \<and> items r = []"
  using pop_Some [OF assms(2)] assms(1) by (simp add: items_push)

lemma length_pop: "pop q = Some (x, r) \<Longrightarrow> length (items q) = Suc (length (items r))"
  by (drule pop_Some) simp

lemma items_pushes: "items (fold push xs q) = items q @ xs"
  by (induction xs arbitrary: q) (simp_all add: items_push)

end

subsection \<open>Printers and parsers\<close>

text \<open>
  A printer and a parser that undo each other on the values in \<open>ok\<close>; printing is then
  injective there.
\<close>

locale text_codec =
  fixes ok :: "'v \<Rightarrow> bool" and pr :: "'v \<Rightarrow> string" and parse :: "string \<Rightarrow> 'v option"
  assumes parse_pr: "ok v \<Longrightarrow> parse (pr v) = Some v"
begin

lemma pr_inj: "ok v \<Longrightarrow> ok w \<Longrightarrow> pr v = pr w \<Longrightarrow> v = w"
  by (metis option.inject parse_pr)

end

subsection \<open>Integer division of C++\<close>

text \<open>Division truncates towards zero; \<open>None\<close> is division by zero.\<close>

definition trunc_div :: "int \<Rightarrow> int \<Rightarrow> int option" where
  "trunc_div a b = (if b = 0 then None else Some (sgn a * sgn b * (\<bar>a\<bar> div \<bar>b\<bar>)))"

lemma trunc_div_bounds:
  assumes "trunc_div a b = Some q" and "0 < b" and "lo * b \<le> a" and "a \<le> hi * b"
    and "lo \<le> 0" and "0 \<le> hi"
  shows "lo \<le> q \<and> q \<le> hi"
proof (cases "0 \<le> a")
  case True
  then have q: "q = a div b" using assms(1,2) by (auto simp: trunc_div_def sgn_if)
  have "a div b \<le> hi * b div b" using assms(2,4) by (intro zdiv_mono1) auto
  moreover have "0 \<le> a div b" using True assms(2) by (simp add: pos_imp_zdiv_nonneg_iff)
  ultimately show ?thesis using q assms by simp
next
  case False
  then have q: "q = - ((- a) div b)" using assms(1,2) by (auto simp: trunc_div_def sgn_if)
  have "(- a) div b \<le> (- lo) * b div b" using assms(2,3) by (intro zdiv_mono1) auto
  also have "\<dots> = - lo" using assms(2) by (intro nonzero_mult_div_cancel_right) simp
  finally have "(- a) div b \<le> - lo" .
  moreover have "0 \<le> (- a) div b" using False assms(2) by (simp add: pos_imp_zdiv_nonneg_iff)
  ultimately show ?thesis using q assms by simp
qed

subsection \<open>Text constants and lists\<close>

definition CR :: char where "CR = CHR 0x0D"
definition LF :: char where "LF = CHR 0x0A"
definition NUL :: char where "NUL = CHR 0x00"
definition BS :: char where "BS = CHR 0x08"
definition ESC :: char where "ESC = CHR 0x1B"

lemmas char_defs = CR_def LF_def NUL_def BS_def ESC_def

definition crlf :: string where "crlf = [CR, LF]"

text \<open>\<open>"\r\n>"\<close>, with which the device ends its answers.\<close>

definition prompt :: string where "prompt = [CR, LF, CHR ''>'']"

text \<open>\<open>s[0]\<close> of a \<open>std::string\<close>: the terminating null when the string is empty.\<close>

definition char0 :: "string \<Rightarrow> char" where
  "char0 s = (case s of [] \<Rightarrow> NUL | c # _ \<Rightarrow> c)"

text \<open>What a C function sees of \<open>s.c_str()\<close>: the characters before the first null.\<close>

definition c_str :: "string \<Rightarrow> string" where
  "c_str s = takeWhile (\<lambda>c. c \<noteq> NUL) s"

lemma c_str_id: "NUL \<notin> set s \<Longrightarrow> c_str s = s"
  by (auto simp: c_str_def takeWhile_eq_all_conv)

lemma takeWhile_app_all:
  "(\<And>x. x \<in> set xs \<Longrightarrow> P x) \<Longrightarrow> takeWhile P (xs @ ys) = xs @ takeWhile P ys"
  by (induction xs) auto

lemma dropWhile_app_all:
  "(\<And>x. x \<in> set xs \<Longrightarrow> P x) \<Longrightarrow> dropWhile P (xs @ ys) = dropWhile P ys"
  by (induction xs) auto

lemma dropWhile_id_hd: "xs = [] \<or> \<not> P (hd xs) \<Longrightarrow> dropWhile P xs = xs"
  by (cases xs) auto

end
