(* ===== verification/CxxFloat.thy ===== *)
theory CxxFloat
  imports Prelude
begin

section \<open>C++ floating point: IEEE 754 binary32 and binary64\<close>

text \<open>
  The emulator computes with \<open>float\<close> and \<open>double\<close>. A value is modelled as \<open>ieee\<close>: a
  signed magnitude that is an exact rational, an infinity, or a NaN. Every arithmetic
  operation computes the exact result and rounds it once, to nearest with ties to even, to
  the format of its operands; so the model keeps the rounding, the overflow to infinity, the
  gradual underflow and the sign of zero. The casts to integer types are undefined where the
  truncated value does not fit, as in the C++ standard. Everything here is executable.
\<close>

datatype ieee = Num bool rat | Infinity bool | NaN

text \<open>A binary format: precision in bits, exponent of the smallest step, largest exponent.\<close>

record fformat =
  prec :: nat
  qmin :: int
  emax :: int

definition binary32 :: fformat where
  "binary32 = \<lparr>prec = 24, qmin = -149, emax = 127\<rparr>"

definition binary64 :: fformat where
  "binary64 = \<lparr>prec = 53, qmin = -1074, emax = 1023\<rparr>"

subsection \<open>Integer logarithms\<close>

fun ndigits :: "nat \<Rightarrow> nat \<Rightarrow> nat" where
  "ndigits b n = (if 2 \<le> b \<and> b \<le> n then Suc (ndigits b (n div b)) else 1)"

declare ndigits.simps [simp del]

lemma ndigits_pos: "0 < ndigits b n"
  by (subst ndigits.simps) simp

lemma ndigits_bounds:
  "2 \<le> b \<Longrightarrow> 0 < n \<Longrightarrow> b ^ (ndigits b n - 1) \<le> n \<and> n < b ^ ndigits b n"
proof (induction b n rule: ndigits.induct)
  case (1 b n)
  show ?case
  proof (cases "b \<le> n")
    case True
    then have pos: "0 < n div b" using "1.prems" by (simp add: div_greater_zero_iff)
    let ?k = "ndigits b (n div b)"
    from "1.IH" "1.prems" True pos
    have lo: "b ^ (?k - 1) \<le> n div b" and hi: "n div b < b ^ ?k" by auto
    have "b ^ ?k = b * b ^ (?k - 1)"
      using ndigits_pos [of b "n div b"] by (metis Suc_diff_1 power_Suc)
    also have "\<dots> \<le> b * (n div b)" using lo by simp
    also have "\<dots> \<le> n" by simp
    finally have "b ^ ?k \<le> n" .
    moreover have "n < b ^ Suc ?k"
      using hi "1.prems"(1) by (simp add: div_less_iff_less_mult mult.commute)
    ultimately show ?thesis
      using True "1.prems" by (subst (1 2) ndigits.simps) simp
  next
    case False
    then show ?thesis using "1.prems" by (subst (1 2) ndigits.simps) simp
  qed
qed

text \<open>\<open>ilog b m\<close> is the floor of the base-\<open>b\<close> logarithm of a positive rational.\<close>

definition ilog :: "nat \<Rightarrow> rat \<Rightarrow> int" where
  "ilog b m = (if 1 \<le> m then int (ndigits b (nat \<lfloor>m\<rfloor>)) - 1
               else - int (ndigits b (nat (\<lceil>1 / m\<rceil> - 1))))"

lemma ilog_bounds:
  assumes b: "2 \<le> b" and m: "0 < m"
  shows "of_nat b powi ilog b m \<le> m" and "m < of_nat b powi (ilog b m + 1)"
proof -
  have "of_nat b powi ilog b m \<le> m \<and> m < of_nat b powi (ilog b m + 1)"
  proof (cases "1 \<le> m")
    case True
    let ?n = "nat \<lfloor>m\<rfloor>" and ?k = "ndigits b (nat \<lfloor>m\<rfloor>)"
    have n: "0 < ?n" using True by simp
    have "(of_nat ?n :: rat) = of_int \<lfloor>m\<rfloor>" using True by simp
    then have fl: "of_nat ?n \<le> m" "m < of_nat ?n + 1" by linarith+
    from ndigits_bounds [OF b n] have lo: "b ^ (?k - 1) \<le> ?n" and hi: "?n + 1 \<le> b ^ ?k" by auto
    have "(of_nat b :: rat) ^ (?k - 1) \<le> m"
      using lo fl(1) by (metis of_nat_le_iff of_nat_power order_trans)
    moreover have "m < (of_nat b :: rat) ^ ?k"
      using hi fl(2) by (metis of_nat_1 of_nat_add of_nat_le_iff of_nat_power order_less_le_trans)
    moreover have "ilog b m = int (?k - 1)" and "ilog b m + 1 = int ?k"
      using True ndigits_pos [of b ?n] by (simp_all add: ilog_def)
    ultimately show ?thesis by (metis power_int_of_nat)
  next
    case False
    let ?c = "\<lceil>1 / m\<rceil>" and ?k = "ndigits b (nat (\<lceil>1 / m\<rceil> - 1))"
    have inv1: "1 < 1 / m" using False m by simp
    then have c: "2 \<le> ?c" by linarith
    then have n: "0 < nat (?c - 1)" by simp
    from ndigits_bounds [OF b n]
    have lo: "b ^ (?k - 1) \<le> nat (?c - 1)" and hi: "nat (?c - 1) + 1 \<le> b ^ ?k" by auto
    have "0 \<le> ?c - 1" using c by linarith
    from of_nat_nat [OF this] have c1: "(of_nat (nat (?c - 1)) :: rat) = of_int ?c - 1"
      by (simp only: of_int_diff of_int_1)
    have "(of_nat b :: rat) ^ (?k - 1) \<le> of_nat (nat (?c - 1))"
      using lo by (metis of_nat_le_iff of_nat_power)
    also have "\<dots> = of_int (?c - 1)" by (simp only: c1 of_int_diff of_int_1)
    also have "\<dots> < 1 / m" by linarith
    finally have lo': "(of_nat b :: rat) ^ (?k - 1) < 1 / m" .
    have "1 / m \<le> of_int ?c" by linarith
    also have "\<dots> = of_nat (nat (?c - 1) + 1)" by (simp add: c1)
    also have "\<dots> \<le> (of_nat b :: rat) ^ ?k" using hi by (metis of_nat_le_iff of_nat_power)
    finally have hi': "1 / m \<le> (of_nat b :: rat) ^ ?k" .
    have bpos: "(0::rat) < of_nat b" using b by simp
    have e: "ilog b m = - int ?k" using False by (simp add: ilog_def)
    have "of_nat b powi ilog b m = 1 / (of_nat b :: rat) ^ ?k"
      by (simp add: e power_int_minus power_int_of_nat inverse_eq_divide)
    also have "\<dots> \<le> m" using hi' m bpos by (simp add: field_simps)
    finally have A: "of_nat b powi ilog b m \<le> m" .
    have "ilog b m + 1 = - int (?k - 1)" using e ndigits_pos [of b "nat (?c - 1)"] by linarith
    then have "of_nat b powi (ilog b m + 1) = 1 / (of_nat b :: rat) ^ (?k - 1)"
      by (simp add: power_int_minus power_int_of_nat inverse_eq_divide)
    moreover have "m < 1 / (of_nat b :: rat) ^ (?k - 1)" using lo' m bpos by (simp add: field_simps)
    ultimately show ?thesis using A by simp
  qed
  then show "of_nat b powi ilog b m \<le> m" and "m < of_nat b powi (ilog b m + 1)" by auto
qed

lemma ilog_unique:
  assumes b: "2 \<le> b" and lo: "of_nat b powi e \<le> m" and hi: "m < of_nat b powi (e + 1)"
  shows "ilog b m = e"
proof -
  have bgt: "(1::rat) < of_nat b" using b by simp
  have m: "0 < m" using lo bgt by (metis order_less_le_trans zero_less_power_int less_trans zero_less_one)
  note lg = ilog_bounds [OF b m]
  have "of_nat b powi ilog b m < (of_nat b :: rat) powi (e + 1)" using lg(1) hi by linarith
  then have "ilog b m < e + 1"
    using bgt by (metis power_int_increasing not_le order_less_imp_le)
  moreover have "(of_nat b :: rat) powi e < of_nat b powi (ilog b m + 1)" using lg(2) lo by linarith
  then have "e < ilog b m + 1"
    using bgt by (metis power_int_increasing not_le order_less_imp_le)
  ultimately show ?thesis by linarith
qed

subsection \<open>Rounding\<close>

text \<open>Round to the nearest integer, ties to even.\<close>

definition rne :: "rat \<Rightarrow> int" where
  "rne x = (let f = \<lfloor>x\<rfloor>; r = x - of_int f
            in if r < 1/2 then f else if 1/2 < r then f + 1 else if even f then f else f + 1)"

lemma rne_of_int [simp]: "rne (of_int k) = k"
  by (simp add: rne_def)

lemma rne_of_nat [simp]: "rne (of_nat k) = int k"
  using rne_of_int [of "int k"] by simp

lemma rne_0 [simp]: "rne 0 = 0"
  using rne_of_int [of 0] by simp

lemma rne_error: "\<bar>of_int (rne x) - x\<bar> \<le> 1/2"
proof -
  have "of_int \<lfloor>x\<rfloor> \<le> x" "x < of_int \<lfloor>x\<rfloor> + 1" by linarith+
  then show ?thesis by (auto simp: rne_def Let_def abs_le_iff)
qed

lemma rne_nonneg: "0 \<le> x \<Longrightarrow> 0 \<le> rne x"
  by (auto simp: rne_def Let_def)

lemma rne_mono:
  assumes "x \<le> y" shows "rne x \<le> rne y"
proof (cases "\<lfloor>x\<rfloor> = \<lfloor>y\<rfloor>")
  case True
  then show ?thesis using assms by (auto simp: rne_def Let_def)
next
  case False
  then have "\<lfloor>x\<rfloor> + 1 \<le> \<lfloor>y\<rfloor>" using floor_mono [OF assms] by linarith
  moreover have "rne x \<le> \<lfloor>x\<rfloor> + 1" and "\<lfloor>y\<rfloor> \<le> rne y" by (auto simp: rne_def Let_def)
  ultimately show ?thesis by linarith
qed

text \<open>The spacing of the format's numbers around a magnitude, and the rounded magnitude.\<close>

definition ulp_exp :: "fformat \<Rightarrow> rat \<Rightarrow> int" where
  "ulp_exp f m = max (ilog 2 m - (int (prec f) - 1)) (qmin f)"

definition rnd_mag :: "fformat \<Rightarrow> rat \<Rightarrow> rat" where
  "rnd_mag f m = (if m = 0 then 0
                  else let q = 2 powi ulp_exp f m in of_int (rne (m / q)) * q)"

definition fl :: "fformat \<Rightarrow> bool \<Rightarrow> rat \<Rightarrow> ieee" where
  "fl f s m = (let r = rnd_mag f m
               in if 2 powi (emax f + 1) \<le> r then Infinity s else Num s r)"

lemma rnd_mag_0 [simp]: "rnd_mag f 0 = 0"
  by (simp add: rnd_mag_def)

lemma rnd_mag_nonneg: "0 \<le> m \<Longrightarrow> 0 \<le> rnd_mag f m"
  by (auto simp: rnd_mag_def Let_def intro!: mult_nonneg_nonneg rne_nonneg divide_nonneg_nonneg)

text \<open>Rounding moves a magnitude by at most half a step of the format.\<close>

lemma rnd_mag_error: "\<bar>rnd_mag f m - m\<bar> \<le> 2 powi ulp_exp f m / 2"
proof (cases "m = 0")
  case False
  let ?q = "(2::rat) powi ulp_exp f m"
  have q: "0 < ?q" by simp
  have "rnd_mag f m - m = (of_int (rne (m / ?q)) - m / ?q) * ?q"
    using False q by (simp add: rnd_mag_def Let_def field_simps)
  then have "\<bar>rnd_mag f m - m\<bar> = \<bar>of_int (rne (m / ?q)) - m / ?q\<bar> * ?q"
    using q by (simp add: abs_mult)
  also have "\<dots> \<le> 1/2 * ?q" using rne_error [of "m / ?q"] q by (intro mult_right_mono) auto
  finally show ?thesis by simp
qed simp

text \<open>In the normal range the relative error is at most \<open>2 ^ - prec\<close>.\<close>

lemma rnd_mag_rel_error:
  assumes m: "0 < m" and normal: "qmin f + int (prec f) - 1 \<le> ilog 2 m"
  shows "\<bar>rnd_mag f m - m\<bar> \<le> m * 2 powi (- int (prec f))"
proof -
  have q: "ulp_exp f m = ilog 2 m + (1 - int (prec f))" using normal by (simp add: ulp_exp_def)
  have "(2::rat) powi ulp_exp f m / 2 = 2 powi ilog 2 m * 2 powi (- int (prec f))"
    unfolding q by (simp add: power_int_add power_int_diff power_int_minus field_simps)
  also have "\<dots> \<le> m * 2 powi (- int (prec f))"
    using ilog_bounds(1) [of 2 m] m by (intro mult_right_mono) auto
  finally show ?thesis using rnd_mag_error [of f m] by linarith
qed

text \<open>A magnitude of the format is its own rounding.\<close>

lemma rnd_mag_exact:
  assumes k: "k < 2 ^ prec f" and q: "qmin f \<le> e"
  shows "rnd_mag f (of_nat k * 2 powi e) = of_nat k * 2 powi e"
proof (cases "k = 0")
  case False
  let ?m = "of_nat k * 2 powi e :: rat"
  let ?u = "ulp_exp f ?m"
  have m: "0 < ?m" using False by simp
  have "?m < 2 ^ prec f * 2 powi e"
    using k by (metis mult_strict_right_mono of_nat_less_iff of_nat_numeral of_nat_power
        zero_less_numeral zero_less_power_int)
  also have "\<dots> = 2 powi (int (prec f) + e)" by (simp add: power_int_add power_int_of_nat)
  finally have "(2::rat) powi ilog 2 ?m < 2 powi (int (prec f) + e)"
    using ilog_bounds(1) [OF _ m, of 2] by simp
  then have "ilog 2 ?m < int (prec f) + e"
    by (metis not_le order_less_imp_le power_int_increasing one_le_numeral)
  then have u: "?u \<le> e" using q by (simp add: ulp_exp_def)
  have "?m / 2 powi ?u = of_nat k * 2 powi (e - ?u)" by (simp add: power_int_diff)
  also have "\<dots> = of_int (int k * 2 ^ nat (e - ?u))" using u by (simp add: power_int_def)
  finally have "?m / 2 powi ?u = of_int (int k * 2 ^ nat (e - ?u))" .
  then have r: "rne (?m / 2 powi ?u) = int k * 2 ^ nat (e - ?u)" by (simp only: rne_of_int)
  have "rnd_mag f ?m = of_int (rne (?m / 2 powi ?u)) * 2 powi ?u"
    using m by (simp add: rnd_mag_def Let_def)
  also have "\<dots> = of_int (int k * 2 ^ nat (e - ?u)) * 2 powi ?u" by (simp only: r)
  also have "\<dots> = of_nat k * 2 powi (e - ?u) * 2 powi ?u" using u by (simp add: power_int_def)
  also have "\<dots> = ?m" by (simp add: power_int_diff)
  finally show ?thesis .
qed simp

lemma rnd_mag_nat:
  "k < 2 ^ prec f \<Longrightarrow> qmin f \<le> 0 \<Longrightarrow> rnd_mag f (of_nat k) = of_nat k"
  using rnd_mag_exact [of k f 0] by simp

lemma powi_quot: "u \<le> t \<Longrightarrow> (2::rat) powi t / 2 powi u = of_int (2 ^ nat (t - u))"
proof -
  assume "u \<le> t"
  then have "(2::rat) powi (t - u) = of_int (2 ^ nat (t - u))" by (simp add: power_int_def)
  then show ?thesis by (simp add: power_int_diff)
qed

text \<open>Rounding is monotone: it never crosses a power of two that is a step of the format.\<close>

lemma rnd_mag_le_pow:
  assumes m: "0 \<le> m" "m \<le> 2 powi t" and u: "ulp_exp f m \<le> t"
  shows "rnd_mag f m \<le> 2 powi t"
proof (cases "m = 0")
  case False
  let ?u = "ulp_exp f m"
  have "m / 2 powi ?u \<le> 2 powi t / 2 powi ?u" using m by (intro divide_right_mono) auto
  also have "\<dots> = of_int (2 ^ nat (t - ?u))" using u by (simp only: powi_quot)
  finally have "rne (m / 2 powi ?u) \<le> 2 ^ nat (t - ?u)" using rne_mono rne_of_int by metis
  then have "rnd_mag f m \<le> of_int (2 ^ nat (t - ?u)) * 2 powi ?u"
    unfolding rnd_mag_def Let_def using False by (simp add: mult_right_mono del: of_int_power)
  also have "\<dots> = 2 powi (t - ?u) * 2 powi ?u" using u by (simp add: power_int_def)
  also have "\<dots> = 2 powi t" by (simp add: power_int_diff)
  finally show ?thesis .
qed simp

lemma rnd_mag_ge_pow:
  assumes m: "2 powi t \<le> m" and u: "ulp_exp f m \<le> t"
  shows "2 powi t \<le> rnd_mag f m"
proof -
  let ?u = "ulp_exp f m"
  have m0: "m \<noteq> 0" using m by (metis not_le zero_less_numeral zero_less_power_int)
  have "of_int (2 ^ nat (t - ?u)) = 2 powi t / (2::rat) powi ?u"
    using u by (simp only: powi_quot)
  also have "\<dots> \<le> m / 2 powi ?u" using m by (intro divide_right_mono) auto
  finally have "2 ^ nat (t - ?u) \<le> rne (m / 2 powi ?u)" using rne_mono rne_of_int by metis
  then have "of_int (2 ^ nat (t - ?u)) * 2 powi ?u \<le> rnd_mag f m"
    unfolding rnd_mag_def Let_def using m0 by (simp add: mult_right_mono del: of_int_power)
  moreover have "of_int (2 ^ nat (t - ?u)) * 2 powi ?u = 2 powi (t - ?u) * (2::rat) powi ?u"
    using u by (simp add: power_int_def)
  ultimately show ?thesis by (simp add: power_int_diff)
qed

lemma ilog_mono: "2 \<le> b \<Longrightarrow> 0 < m \<Longrightarrow> m \<le> n \<Longrightarrow> ilog b m \<le> ilog b n"
proof -
  assume b: "2 \<le> b" and m: "0 < m" and mn: "m \<le> n"
  have "(of_nat b :: rat) powi ilog b m < of_nat b powi (ilog b n + 1)"
    using ilog_bounds(1) [OF b m] ilog_bounds(2) [OF b, of n] m mn by linarith
  then have "ilog b m < ilog b n + 1"
    using b by (metis not_le order_less_imp_le power_int_increasing of_nat_1 of_nat_le_iff
        one_le_numeral order_trans)
  then show ?thesis by simp
qed

lemma rnd_mag_mono:
  assumes p: "1 \<le> prec f" and m: "0 \<le> m" and mn: "m \<le> n"
  shows "rnd_mag f m \<le> rnd_mag f n"
proof (cases "m = 0")
  case True
  then show ?thesis using rnd_mag_nonneg [of n f] m mn by simp
next
  case False
  then have mp: "0 < m" and np: "0 < n" using m mn by auto
  let ?e = "ilog 2 m" and ?e' = "ilog 2 n" and ?u = "ulp_exp f m" and ?u' = "ulp_exp f n"
  have ee: "?e \<le> ?e'" using ilog_mono mp mn by simp
  show ?thesis
  proof (cases "?u = ?u'")
    case True
    have "rne (m / 2 powi ?u) \<le> rne (n / 2 powi ?u)"
      using mn by (intro rne_mono divide_right_mono) auto
    then show ?thesis using mp np True by (simp add: rnd_mag_def Let_def mult_right_mono)
  next
    case neq: False
    define t where "t = max (?e + 1) ?u"
    have lt: "?e < ?e'" using neq ee by (auto simp: ulp_exp_def)
    have u': "?u' = ?e' - (int (prec f) - 1)" using neq ee by (auto simp: ulp_exp_def max_def split: if_splits)
    have ule: "?u \<le> ?e'" "?u' \<le> ?e'" using ee u' p lt neq by (auto simp: ulp_exp_def max_def split: if_splits)
    have "m \<le> 2 powi t"
      using ilog_bounds(2) [of 2 m] mp power_int_increasing [of "?e + 1" t "2::rat"]
      by (simp add: t_def)
    then have "rnd_mag f m \<le> 2 powi t" using mp by (intro rnd_mag_le_pow) (auto simp: t_def)
    also have "\<dots> \<le> 2 powi ?e'" using lt ule by (intro power_int_increasing) (auto simp: t_def)
    also have "\<dots> \<le> rnd_mag f n"
      using ilog_bounds(1) [of 2 n] np ule by (intro rnd_mag_ge_pow) auto
    finally show ?thesis .
  qed
qed

subsection \<open>Comparison\<close>

text \<open>
  The order of the library's \<open>ord\<close> class, so that \<open>x \<le> y\<close> and \<open>x < y\<close> are C++'s
  comparisons: every comparison with a NaN is false, and the two zeros are equal.
\<close>

fun signed :: "bool \<Rightarrow> rat \<Rightarrow> rat" where
  "signed s m = (if s then - m else m)"

instantiation ieee :: ord
begin

fun less_eq_ieee :: "ieee \<Rightarrow> ieee \<Rightarrow> bool" where
  "less_eq_ieee NaN y = False"
| "less_eq_ieee x NaN = False"
| "less_eq_ieee (Infinity s) (Infinity t) = (s \<or> \<not> t)"
| "less_eq_ieee (Infinity s) (Num t b) = s"
| "less_eq_ieee (Num s a) (Infinity t) = (\<not> t)"
| "less_eq_ieee (Num s a) (Num t b) = (signed s a \<le> signed t b)"

fun less_ieee :: "ieee \<Rightarrow> ieee \<Rightarrow> bool" where
  "less_ieee NaN y = False"
| "less_ieee x NaN = False"
| "less_ieee (Infinity s) (Infinity t) = (s \<and> \<not> t)"
| "less_ieee (Infinity s) (Num t b) = s"
| "less_ieee (Num s a) (Infinity t) = (\<not> t)"
| "less_ieee (Num s a) (Num t b) = (signed s a < signed t b)"

instance ..

end

lemma less_ieee_iff: "x < y \<longleftrightarrow> x \<le> y \<and> \<not> y \<le> (x :: ieee)"
  by (cases x; cases y) auto

subsection \<open>Arithmetic and conversions\<close>

fun fmul :: "fformat \<Rightarrow> ieee \<Rightarrow> ieee \<Rightarrow> ieee" where
  "fmul f (Num s a) (Num t b) = fl f (s \<noteq> t) (a * b)"
| "fmul f (Infinity s) (Num t b) = (if b = 0 then NaN else Infinity (s \<noteq> t))"
| "fmul f (Num s a) (Infinity t) = (if a = 0 then NaN else Infinity (s \<noteq> t))"
| "fmul f (Infinity s) (Infinity t) = Infinity (s \<noteq> t)"
| "fmul f _ _ = NaN"

fun fdiv :: "fformat \<Rightarrow> ieee \<Rightarrow> ieee \<Rightarrow> ieee" where
  "fdiv f (Num s a) (Num t b) =
     (if b = 0 then (if a = 0 then NaN else Infinity (s \<noteq> t)) else fl f (s \<noteq> t) (a / b))"
| "fdiv f (Infinity s) (Num t b) = Infinity (s \<noteq> t)"
| "fdiv f (Num s a) (Infinity t) = Num (s \<noteq> t) 0"
| "fdiv f _ _ = NaN"

fun fadd :: "fformat \<Rightarrow> ieee \<Rightarrow> ieee \<Rightarrow> ieee" where
  "fadd f (Num s a) (Num t b) =
     (let v = signed s a + signed t b
      in if v = 0 then Num (s \<and> t) 0 else fl f (v < 0) \<bar>v\<bar>)"
| "fadd f (Infinity s) (Num t b) = Infinity s"
| "fadd f (Num s a) (Infinity t) = Infinity t"
| "fadd f (Infinity s) (Infinity t) = (if s = t then Infinity s else NaN)"
| "fadd f _ _ = NaN"

text \<open>Integer to floating point, and between the formats.\<close>

definition of_int_fl :: "fformat \<Rightarrow> int \<Rightarrow> ieee" where
  "of_int_fl f i = fl f (i < 0) (of_int \<bar>i\<bar>)"

fun to_fformat :: "fformat \<Rightarrow> ieee \<Rightarrow> ieee" where
  "to_fformat f (Num s m) = fl f s m"
| "to_fformat f x = x"

text \<open>\<open>std::ceil\<close>; the ceiling of a number of the format is one too.\<close>

fun fceil :: "ieee \<Rightarrow> ieee" where
  "fceil (Num s m) = Num s (of_int (if s then \<lfloor>m\<rfloor> else \<lceil>m\<rceil>))"
| "fceil x = x"

text \<open>
  Casts to integer types truncate; a value whose truncation the type cannot hold is
  undefined behaviour.
\<close>

fun cast_int :: "int \<Rightarrow> int \<Rightarrow> ieee \<Rightarrow> ub + int" where
  "cast_int lo hi (Num s m) =
     (let v = (if s then - \<lfloor>m\<rfloor> else \<lfloor>m\<rfloor>)
      in if lo \<le> v \<and> v \<le> hi then Inr v else Inl Unrepresentable)"
| "cast_int lo hi _ = Inl Unrepresentable"

definition cast_i32 :: "ieee \<Rightarrow> ub + int" where
  "cast_i32 = cast_int (- (2 ^ 31)) (2 ^ 31 - 1)"

definition cast_u32 :: "ieee \<Rightarrow> ub + u32" where
  "cast_u32 x = bind_ub (cast_int 0 (2 ^ 32 - 1) x) (\<lambda>v. Inr (word_of_int v))"

text \<open>The magnitudes of a format below its overflow threshold.\<close>

lemma fl_nat:
  assumes "k < 2 ^ prec f" and "qmin f \<le> 0" and "int (prec f) \<le> emax f + 1"
  shows "fl f s (of_nat k) = Num s (of_nat k)"
proof -
  have "(of_nat k :: rat) < 2 ^ prec f" using assms(1) by (metis of_nat_less_iff of_nat_numeral of_nat_power)
  also have "\<dots> = 2 powi int (prec f)" by (simp add: power_int_of_nat)
  also have "\<dots> \<le> 2 powi (emax f + 1)" using assms(3) by (intro power_int_increasing) auto
  finally have "\<not> (2::rat) powi (emax f + 1) \<le> of_nat k" by simp
  then show ?thesis using assms by (simp add: fl_def rnd_mag_nat Let_def)
qed

lemma binary32_simps [simp]:
  "prec binary32 = 24" "qmin binary32 = -149" "emax binary32 = 127"
  by (simp_all add: binary32_def)

lemma binary64_simps [simp]:
  "prec binary64 = 53" "qmin binary64 = -1074" "emax binary64 = 1023"
  by (simp_all add: binary64_def)

lemma fl_nat32: "k < 2 ^ 24 \<Longrightarrow> fl binary32 s (of_nat k) = Num s (of_nat k)"
  by (rule fl_nat) auto

lemma fl_nat64: "k < 2 ^ 53 \<Longrightarrow> fl binary64 s (of_nat k) = Num s (of_nat k)"
  by (rule fl_nat) auto

lemma of_int_fl_nat32: "k < 2 ^ 24 \<Longrightarrow> of_int_fl binary32 (int k) = Num False (of_nat k)"
  by (simp add: of_int_fl_def fl_nat32)

subsection \<open>The bits of a \<open>float\<close>\<close>

definition sign_bit :: "bool \<Rightarrow> u32" where
  "sign_bit s = (if s then 0x80000000 else 0)"

text \<open>The binary32 encoding; a NaN is the default quiet one.\<close>

fun f32_bits :: "ieee \<Rightarrow> u32" where
  "f32_bits (Num s m) =
     sign_bit s +
     (if m = 0 then 0
      else let e = ilog 2 m
           in if e < -126 then word_of_int \<lfloor>m * 2 powi 149\<rfloor>
              else word_of_int ((e + 127) * 2 ^ 23 + (\<lfloor>m * 2 powi (23 - e)\<rfloor> - 2 ^ 23)))"
| "f32_bits (Infinity s) = sign_bit s + 0x7F800000"
| "f32_bits NaN = 0x7FC00000"

text \<open>Its bytes in the order of a little-endian machine's memory.\<close>

definition le_bytes32 :: "u32 \<Rightarrow> u8 list" where
  "le_bytes32 w = [ucast w, ucast (drop_bit 8 w), ucast (drop_bit 16 w), ucast (drop_bit 24 w)]"

lemma length_le_bytes32 [simp]: "length (le_bytes32 w) = 4"
  by (simp add: le_bytes32_def)

end
