(* ===== verification/CxxText.thy ===== *)
theory CxxText
  imports CxxFloat
begin

section \<open>C++ text conversions: scanf, strtoul, from_chars, and stream output\<close>

text \<open>
  The conversions between text and numbers of the C and C++ standard libraries that the
  emulator calls: \<open>sscanf\<close> with \<open>%d\<close>, \<open>%hd\<close> and \<open>%f\<close>, \<open>strtoul\<close> with base 0,
  \<open>std::from_chars\<close> on unsigned types, and \<open>operator<<\<close> on integers and \<open>float\<close>.
  Where the C standard leaves a scanf conversion undefined (a value the target cannot hold),
  the model returns \<open>Scan_Undefined\<close>.
\<close>

subsection \<open>Characters and digits\<close>

definition ord_of :: "char \<Rightarrow> nat" where
  "ord_of c = of_char c"

definition is_space :: "char \<Rightarrow> bool" where
  "is_space c \<longleftrightarrow> ord_of c = 32 \<or> (9 \<le> ord_of c \<and> ord_of c \<le> 13)"

definition to_lower :: "char \<Rightarrow> char" where
  "to_lower c = (if 65 \<le> ord_of c \<and> ord_of c \<le> 90 then char_of (ord_of c + 32) else c)"

definition digit_val :: "char \<Rightarrow> nat option" where
  "digit_val c = (let n = ord_of c in
     if 48 \<le> n \<and> n \<le> 57 then Some (n - 48)
     else if 97 \<le> n \<and> n \<le> 122 then Some (n - 87)
     else if 65 \<le> n \<and> n \<le> 90 then Some (n - 55) else None)"

definition is_digit :: "nat \<Rightarrow> char \<Rightarrow> bool" where
  "is_digit b c = (case digit_val c of None \<Rightarrow> False | Some d \<Rightarrow> d < b)"

definition base_val :: "nat \<Rightarrow> string \<Rightarrow> nat" where
  "base_val b ds = foldl (\<lambda>a c. a * b + (case digit_val c of None \<Rightarrow> 0 | Some d \<Rightarrow> d)) 0 ds"

definition digit_char :: "nat \<Rightarrow> char" where
  "digit_char d = char_of (48 + d)"

lemma ord_char [simp]: "n < 256 \<Longrightarrow> ord_of (char_of n) = n"
  by (simp add: ord_of_def)

lemma digit_val_char: "d < 10 \<Longrightarrow> digit_val (digit_char d) = Some d"
  by (simp add: digit_val_def digit_char_def Let_def)

lemma is_digit_char: "d < 10 \<Longrightarrow> is_digit 10 (digit_char d)"
  by (simp add: is_digit_def digit_val_char)

lemma base_val_Nil [simp]: "base_val b [] = 0"
  by (simp add: base_val_def)

lemma base_val_snoc:
  "base_val b (ds @ [c]) = base_val b ds * b + (case digit_val c of None \<Rightarrow> 0 | Some d \<Rightarrow> d)"
  by (simp add: base_val_def)

subsection \<open>Decimal output of integers\<close>

fun show_nat :: "nat \<Rightarrow> string" where
  "show_nat n = (if n < 10 then [digit_char n] else show_nat (n div 10) @ [digit_char (n mod 10)])"

declare show_nat.simps [simp del]

definition show_int :: "int \<Rightarrow> string" where
  "show_int i = (if i < 0 then CHR ''-'' # show_nat (nat (- i)) else show_nat (nat i))"

definition show_bool :: "bool \<Rightarrow> string" where
  "show_bool b = (if b then ''1'' else ''0'')"

lemma show_nat_digits: "c \<in> set (show_nat n) \<Longrightarrow> is_digit 10 c"
proof (induction n rule: show_nat.induct)
  case (1 n)
  then show ?case
    by (cases "n < 10") (auto simp: show_nat.simps [of n] is_digit_char)
qed

lemma show_nat_nonempty [simp]: "show_nat n \<noteq> []" "[] \<noteq> show_nat n"
  by (subst show_nat.simps, simp)+

lemma base_val_show_nat [simp]: "base_val 10 (show_nat n) = n"
proof (induction n rule: show_nat.induct)
  case (1 n)
  then show ?case
    by (cases "n < 10")
      (simp_all add: show_nat.simps [of n] base_val_snoc base_val_def digit_val_char)
qed

lemma length_show_nat: "length (show_nat n) = ndigits 10 n"
proof (induction n rule: show_nat.induct)
  case (1 n)
  then show ?case
    by (cases "n < 10") (simp_all add: show_nat.simps [of n] ndigits.simps [of 10 n])
qed

lemma digit_char_0: "digit_char 0 = CHR ''0''"
  by code_simp

lemma show_nat_times_10:
  "0 < n \<Longrightarrow> show_nat (n * 10 ^ k) = show_nat n @ replicate k (CHR ''0'')"
proof (induction k)
  case (Suc k)
  have ge: "\<not> n * 10 ^ Suc k < 10" using Suc.prems by simp
  have "show_nat (n * 10 ^ Suc k) = show_nat (n * 10 ^ k) @ [digit_char 0]"
    by (subst show_nat.simps) (use ge in simp)
  then show ?case using Suc by (simp add: digit_char_0 replicate_append_same)
qed simp

text \<open>The first character of a printed number is a digit, so none of the syntax around it.\<close>

lemma digit_chars:
  assumes "is_digit 10 c"
  shows "\<not> is_space c" and "c \<noteq> CHR ''-''" and "c \<noteq> CHR ''+''" and "c \<noteq> NUL"
    and "c \<noteq> CHR '' ''" and "c \<noteq> CR" and "c \<noteq> LF" and "to_lower c = c"
    and "c \<noteq> CHR ''i''" and "c \<noteq> CHR ''n''" and "c \<noteq> CHR ''.''" and "c \<noteq> CHR ''x''"
    and "c \<noteq> CHR ''X''" and "c \<noteq> CHR ''e''" and "c \<noteq> CHR ''E''"
proof -
  have "48 \<le> ord_of c \<and> ord_of c \<le> 57"
    using assms by (auto simp: is_digit_def digit_val_def Let_def split: if_splits)
  then show "\<not> is_space c" and "c \<noteq> CHR ''-''" and "c \<noteq> CHR ''+''" and "c \<noteq> NUL"
    and "c \<noteq> CHR '' ''" and "c \<noteq> CR" and "c \<noteq> LF" and "to_lower c = c"
    and "c \<noteq> CHR ''i''" and "c \<noteq> CHR ''n''" and "c \<noteq> CHR ''.''" and "c \<noteq> CHR ''x''"
    and "c \<noteq> CHR ''X''" and "c \<noteq> CHR ''e''" and "c \<noteq> CHR ''E''"
    by (auto simp: is_space_def to_lower_def char_defs ord_of_def)
qed

subsection \<open>scanf of integers\<close>

datatype 'a scan = Scan_Fail | Scan_Undefined | Scan_Ok 'a

definition take_sign :: "string \<Rightarrow> bool \<times> string" where
  "take_sign s = (case s of [] \<Rightarrow> (False, [])
     | c # r \<Rightarrow> if c = CHR ''-'' then (True, r) else if c = CHR ''+'' then (False, r) else (False, s))"

text \<open>
  \<open>sscanf (s, "%d", p)\<close> (width 32) and \<open>"%hd"\<close> (width 16): white space, a sign, decimal
  digits. \<open>Scan_Fail\<close>: no input item, the target keeps its value.
\<close>

definition sscanf_d :: "nat \<Rightarrow> string \<Rightarrow> int scan" where
  "sscanf_d w s =
     (let (neg, r) = take_sign (dropWhile is_space s);
          ds = takeWhile (is_digit 10) r;
          v = (if neg then - int (base_val 10 ds) else int (base_val 10 ds))
      in if ds = [] then Scan_Fail
         else if - (2 ^ (w - 1)) \<le> v \<and> v < 2 ^ (w - 1) then Scan_Ok v
         else Scan_Undefined)"

lemma take_sign_digit: "s = [] \<or> is_digit 10 (hd s) \<Longrightarrow> take_sign s = (False, s)"
  by (cases s) (auto simp: take_sign_def digit_chars)

lemma skip_space_digit: "s = [] \<or> is_digit 10 (hd s) \<Longrightarrow> dropWhile is_space s = s"
  by (cases s) (auto simp: digit_chars)

lemma hd_show_nat: "is_digit 10 (hd (show_nat n))"
  by (rule show_nat_digits, rule hd_in_set) simp

lemma takeWhile_digits_show_nat [simp]: "takeWhile (is_digit 10) (show_nat n) = show_nat n"
  by (simp add: takeWhile_eq_all_conv show_nat_digits)

lemma dropWhile_digits_show_nat [simp]: "dropWhile (is_digit 10) (show_nat n) = []"
  by (simp add: dropWhile_eq_Nil_conv show_nat_digits)

lemma sscanf_d_show_nat:
  "int n < 2 ^ (w - 1) \<Longrightarrow> sscanf_d w (show_nat n) = Scan_Ok (int n)"
proof -
  assume n: "int n < 2 ^ (w - 1)"
  have "- (2 ^ (w - 1)) \<le> (0 :: int)" by simp
  then have "- (2 ^ (w - 1)) \<le> int n" by linarith
  then show ?thesis using n
    by (simp add: sscanf_d_def skip_space_digit take_sign_digit hd_show_nat Let_def)
qed

lemma sscanf_d_show_nat_large:
  "2 ^ (w - 1) \<le> int n \<Longrightarrow> sscanf_d w (show_nat n) = Scan_Undefined"
  by (simp add: sscanf_d_def skip_space_digit take_sign_digit hd_show_nat)

subsection \<open>strtoul with base 0\<close>

text \<open>
  On the emulator's platform (Windows) \<open>unsigned long\<close> has 32 bits. The result is the
  value, the unread rest of the string (\<open>end\<close>), and whether \<open>errno\<close> was set to
  \<open>ERANGE\<close>. Without a conversion \<open>end\<close> is the start of the string.
\<close>

definition ULONG_MAX :: nat where "ULONG_MAX = 4294967295"

definition strtoul0 :: "string \<Rightarrow> nat \<times> string \<times> bool" where
  "strtoul0 s =
     (let (neg, r) = take_sign (dropWhile is_space s);
          hex = (case r of a # b # c # _ \<Rightarrow> a = CHR ''0'' \<and> to_lower b = CHR ''x'' \<and> is_digit 16 c
                         | _ \<Rightarrow> False);
          b = (if hex then 16 else if r \<noteq> [] \<and> hd r = CHR ''0'' then 8 else 10);
          body = (if hex then drop 2 r else r);
          ds = takeWhile (is_digit b) body;
          rest = dropWhile (is_digit b) body;
          v = base_val b ds
      in if ds = [] then (0, s, False)
         else if ULONG_MAX < v then (ULONG_MAX, rest, True)
         else (if neg then (ULONG_MAX + 1 - v) mod (ULONG_MAX + 1) else v, rest, False))"

subsection \<open>from_chars on an unsigned type of \<open>w\<close> bits\<close>

text \<open>
  \<open>Some (v, rest)\<close> is success with \<open>rest\<close> the text from \<open>ptr\<close> on; \<open>None\<close> stands for
  the two error codes. No white space and no sign is accepted.
\<close>

definition from_chars :: "nat \<Rightarrow> string \<Rightarrow> (nat \<times> string) option" where
  "from_chars w s =
     (let ds = takeWhile (is_digit 10) s
      in if ds = [] then None
         else if 2 ^ w \<le> base_val 10 ds then None
         else Some (base_val 10 ds, dropWhile (is_digit 10) s))"

lemma from_chars_show_nat: "n < 2 ^ w \<Longrightarrow> from_chars w (show_nat n) = Some (n, [])"
  by (simp add: from_chars_def Let_def)

lemma from_chars_Some_iff:
  "from_chars w s = Some (v, []) \<longleftrightarrow>
     s \<noteq> [] \<and> list_all (is_digit 10) s \<and> v = base_val 10 s \<and> v < 2 ^ w"
proof (cases "list_all (is_digit 10) s")
  case True
  then have "takeWhile (is_digit 10) s = s" and "dropWhile (is_digit 10) s = []"
    by (simp_all add: takeWhile_eq_all_conv dropWhile_eq_Nil_conv list_all_iff
        del: takeWhile_eq_filter)
  then show ?thesis using True unfolding from_chars_def Let_def by (simp only:) auto
next
  case False
  then have "dropWhile (is_digit 10) s \<noteq> []" by (simp add: dropWhile_eq_Nil_conv list_all_iff)
  then show ?thesis using False by (auto simp: from_chars_def Let_def)
qed

subsection \<open>scanf of \<open>float\<close>\<close>

text \<open>
  \<open>sscanf (s, "%f", p)\<close>. scanf reads the longest text that is a prefix of some literal,
  and then fails if that text is not itself a literal (\<open>"1e"\<close>, \<open>"0x"\<close>, \<open>"infi"\<close>).
\<close>

datatype flit = Lit_Num rat | Lit_Inf | Lit_NaN

definition scan_mant :: "nat \<Rightarrow> string \<Rightarrow> string \<times> nat \<times> string" where
  "scan_mant b s =
     (let ip = takeWhile (is_digit b) s; r = dropWhile (is_digit b) s;
          (fp, r') = (if r \<noteq> [] \<and> hd r = CHR ''.''
                      then (takeWhile (is_digit b) (tl r), dropWhile (is_digit b) (tl r))
                      else ([], r))
      in (ip @ fp, length fp, r'))"

definition scan_expo :: "char \<Rightarrow> string \<Rightarrow> int option" where
  "scan_expo ec s =
     (if s \<noteq> [] \<and> to_lower (hd s) = ec
      then (let (neg, r) = take_sign (tl s); ds = takeWhile (is_digit 10) r
            in if ds = [] then None
               else Some (if neg then - int (base_val 10 ds) else int (base_val 10 ds)))
      else Some 0)"

definition match_len :: "string \<Rightarrow> string \<Rightarrow> nat" where
  "match_len word s =
     length (takeWhile (\<lambda>(a, b). a = b) (zip word (map to_lower s)))"

definition scan_num :: "nat \<Rightarrow> nat \<Rightarrow> nat \<Rightarrow> char \<Rightarrow> string \<Rightarrow> flit option" where
  "scan_num b xb k ec s =
     (let (ds, fl, r) = scan_mant b s
      in if ds = [] then None
         else map_option (\<lambda>e. Lit_Num (of_nat (base_val b ds) * of_nat xb powi (e - int (k * fl))))
                (scan_expo ec r))"

definition nan_tail :: "string \<Rightarrow> flit option" where
  "nan_tail r =
     (if r \<noteq> [] \<and> hd r = CHR ''(''
      then (let t = dropWhile (\<lambda>c. is_digit 36 c \<or> c = CHR ''_'') (tl r)
            in if t \<noteq> [] \<and> hd t = CHR '')'' then Some Lit_NaN else None)
      else Some Lit_NaN)"

definition scan_flit :: "string \<Rightarrow> flit option" where
  "scan_flit s =
     (let i = match_len ''infinity'' s; n = match_len ''nan'' s
      in if 0 < i then (if i = 3 \<or> i = 8 then Some Lit_Inf else None)
         else if 0 < n then (if n = 3 then nan_tail (drop 3 s) else None)
         else if match_len ''0x'' s = 2 then scan_num 16 2 4 (CHR ''p'') (drop 2 s)
         else scan_num 10 10 1 (CHR ''e'') s)"

definition sscanf_f :: "string \<Rightarrow> ieee option" where
  "sscanf_f s =
     (let (neg, r) = take_sign (dropWhile is_space s)
      in case scan_flit r of
           None \<Rightarrow> None
         | Some (Lit_Num q) \<Rightarrow> Some (fl binary32 neg q)
         | Some Lit_Inf \<Rightarrow> Some (Infinity neg)
         | Some Lit_NaN \<Rightarrow> Some NaN)"

lemma match_len_Nil [simp]: "match_len w [] = 0"
  by (simp add: match_len_def)

lemma match_len_Cons:
  "match_len (w # ws) (c # s) = (if to_lower c = w then Suc (match_len ws s) else 0)"
  by (auto simp: match_len_def)

lemma match_len_digit:
  assumes "s = [] \<or> is_digit 10 (hd s)"
  shows "match_len ''infinity'' s = 0" and "match_len ''nan'' s = 0"
  using assms by (cases s; simp add: match_len_Cons digit_chars)+

lemma match_len_0x_digits:
  assumes "\<And>c. c \<in> set s \<Longrightarrow> is_digit 10 c"
  shows "match_len ''0x'' s \<noteq> 2"
proof (cases s)
  case (Cons a r)
  have "match_len ''x'' r = 0" using assms Cons by (cases r) (simp_all add: match_len_Cons digit_chars)
  then show ?thesis by (simp add: Cons match_len_Cons)
qed simp

lemma sscanf_f_show_nat: "sscanf_f (show_nat n) = Some (fl binary32 False (of_nat n))"
proof -
  have hd: "show_nat n = [] \<or> is_digit 10 (hd (show_nat n))" using hd_show_nat by simp
  have "scan_num 10 10 1 (CHR ''e'') (show_nat n) = Some (Lit_Num (of_nat n))"
    by (simp add: scan_num_def scan_mant_def scan_expo_def)
  then have "scan_flit (show_nat n) = Some (Lit_Num (of_nat n))"
    using match_len_digit [OF hd] match_len_0x_digits [OF show_nat_digits]
    by (simp add: scan_flit_def)
  then show ?thesis
    by (simp add: sscanf_f_def skip_space_digit [OF hd] take_sign_digit [OF hd])
qed

subsection \<open>Stream output of \<open>float\<close>\<close>

text \<open>
  \<open>out << x\<close> with the default settings prints as \<open>%g\<close> with six significant digits:
  the exact value is rounded to six digits (\<open>dec6\<close> gives the decimal exponent and the
  digits), printed without trailing zeros, in exponent form outside \<open>1e-4 .. 1e6\<close>.
\<close>

definition dec6 :: "rat \<Rightarrow> int \<times> nat" where
  "dec6 m = (let x = ilog 10 m; q = nat (rne (m * 10 powi (5 - x)))
             in if q = 10 ^ 6 then (x + 1, 10 ^ 5) else (x, q))"

definition strip0 :: "string \<Rightarrow> string" where
  "strip0 s = rev (dropWhile (\<lambda>c. c = CHR ''0'') (rev s))"

definition with_frac :: "string \<Rightarrow> string \<Rightarrow> string" where
  "with_frac ip fp = (if strip0 fp = [] then ip else ip @ ''.'' @ strip0 fp)"

definition show_mag :: "rat \<Rightarrow> string" where
  "show_mag m =
     (let (x, q) = dec6 m; ds = show_nat q
      in if 0 \<le> x \<and> x < 6 then with_frac (take (nat x + 1) ds) (drop (nat x + 1) ds)
         else if -4 \<le> x \<and> x < 0
         then with_frac ''0'' (replicate (nat (- x) - 1) (CHR ''0'') @ ds)
         else with_frac (take 1 ds) (drop 1 ds) @ ''e'' @ (if x < 0 then ''-'' else ''+'')
              @ (if \<bar>x\<bar> < 10 then ''0'' else []) @ show_nat (nat \<bar>x\<bar>))"

fun show_float :: "ieee \<Rightarrow> string" where
  "show_float (Num s m) = (if s then ''-'' else []) @ (if m = 0 then ''0'' else show_mag m)"
| "show_float (Infinity s) = (if s then ''-inf'' else ''inf'')"
| "show_float NaN = ''nan''"

lemma strip0_replicate [simp]: "strip0 (replicate k (CHR ''0'')) = []"
  by (simp add: strip0_def)

lemma ilog_nat: "0 < n \<Longrightarrow> ilog b (of_nat n) = int (ndigits b n) - 1"
  by (simp add: ilog_def)

text \<open>An integer below one million prints as its decimal digits.\<close>

lemma show_mag_nat:
  assumes n: "0 < n" "n < 10 ^ 6"
  shows "show_mag (of_nat n) = show_nat n"
proof -
  let ?d = "ndigits 10 n"
  have d0: "0 < ?d" by (rule ndigits_pos)
  have lo: "10 ^ (?d - 1) \<le> n" and hi: "n < 10 ^ ?d" using ndigits_bounds [of 10 n] n by auto
  have "(10::nat) ^ (?d - 1) < 10 ^ 6" using lo n by linarith
  then have "?d - 1 < 6" by (rule power_less_imp_less_exp [rotated]) simp
  then have d: "?d \<le> 6" using d0 by linarith
  have x: "ilog 10 (of_nat n) = int (?d - 1)" using n d0 by (simp add: ilog_nat)
  have "(of_nat n :: rat) * 10 powi (5 - int (?d - 1)) = of_nat (n * 10 ^ (6 - ?d))"
  proof -
    have "5 - int (?d - 1) = int (6 - ?d)" using d d0 by simp
    then show ?thesis by (simp only: power_int_of_nat) simp
  qed
  then have q: "rne ((of_nat n :: rat) * 10 powi (5 - int (?d - 1))) = int (n * 10 ^ (6 - ?d))"
    by (simp only: rne_of_nat)
  have "n * 10 ^ (6 - ?d) < 10 ^ ?d * 10 ^ (6 - ?d)" using hi by simp
  also have "\<dots> = 10 ^ 6" using d by (simp flip: power_add)
  finally have lt: "n * 10 ^ (6 - ?d) < 10 ^ 6" .
  have "dec6 (of_nat n) = (int (?d - 1), n * 10 ^ (6 - ?d))"
    unfolding dec6_def x q Let_def nat_int using lt by simp
  moreover have "show_nat (n * 10 ^ (6 - ?d)) = show_nat n @ replicate (6 - ?d) (CHR ''0'')"
    using n by (simp add: show_nat_times_10)
  moreover have "nat (int (?d - 1)) + 1 = length (show_nat n)" using d0 by (simp add: length_show_nat)
  moreover have "int (?d - 1) < 6" using d d0 by simp
  ultimately show ?thesis by (simp add: show_mag_def with_frac_def)
qed

lemma show_float_nat: "n < 10 ^ 6 \<Longrightarrow> show_float (Num False (of_nat n)) = show_nat n"
  by (cases "n = 0") (simp_all add: show_mag_nat show_nat.simps [of 0] digit_char_0)

end
