(* ===== verification/Protocol.thy ===== *)
theory Protocol
  imports CxxText
begin

section \<open>The Scanivalve protocol header, a parameter of the model\<close>

text \<open>
  \<open>scanivalve/mps-protocol.h\<close> is fetched by the build from another repository, so its
  enumerators, sizes, conversion functions and struct layouts are parameters: the fields of
  the record \<open>mps_protocol\<close>, under their C names, which every definition that uses them
  takes as its argument \<open>P\<close>. Enumeration values are integers. What the emulator relies on
  is stated by the predicates \<open>enums_ok\<close>, \<open>adc_ok\<close> and \<open>sizes_ok\<close>;
  \<open>sample_protocol\<close> satisfies all of them.
\<close>

subsection \<open>Binary packets\<close>

text \<open>
  The fields of the packet structs that \<open>Mps::ScanThreadFn\<close> assigns. The seven packet
  types share these; only \<open>MpsLegacyPacket\<close> has the header fields. How a struct lies in
  memory is the protocol header's \<open>packet_layout\<close>.
\<close>

datatype payload = Counts "int list" | Pressures "ieee list"

record legacy_header =
  lh_size :: int
  lh_serial_number :: u32
  lh_framerate :: ieee
  lh_valve_status :: int
  lh_unit_index :: u32
  lh_unit_conversion :: ieee
  lh_ptp_scan_start_time_s :: u32
  lh_ptp_scan_start_time_ns :: u32
  lh_external_trigger_time_us :: u32
  lh_external_trigger_time_s :: u32
  lh_external_trigger_time_ns :: u32

record packet =
  pkt_type :: int
  pkt_payload :: payload
  pkt_temperature :: "ieee list"
  pkt_frame :: u32
  pkt_frame_time_s :: u32
  pkt_frame_time_ns :: u32
  pkt_header :: "legacy_header option"

subsection \<open>The header's contents\<close>

record mps_protocol =
  MPS_4264 :: int
  MPS_4232 :: int
  MPS_4216 :: int
  MPS_FMT_ASCII :: int
  MPS_FMT_BINARY :: int
  MPS_FMT_LABVIEW :: int
  MPS_STATUS_READY :: int
  MPS_STATUS_SCAN :: int
  MPS_STATUS_CALZ :: int
  MPS_UNITS_PA :: int
  MPS_UNITS_RAW :: int
  MPS_SIM_SIMULATED_64CH :: int
  MPS_PKT_UNDEFINED :: int
  MPS_PKT_LEGACY_TYPE :: int
  MPS_PKT_16_TYPE :: int
  MPS_PKT_32_TYPE :: int
  MPS_PKT_64_TYPE :: int
  MPS_PKT_16_RAW_TYPE :: int
  MPS_PKT_32_RAW_TYPE :: int
  MPS_PKT_64_RAW_TYPE :: int
  MPS_MAX_PRESSURE_CH_COUNT :: nat
  MPS_MAX_TEMPERATURE_CH_COUNT :: nat
  MPS_MAX_LABVIEW_ELEMENTS :: nat
  MPS_MAX_BINARY_PACKET_SIZE :: nat
  MPS_PKT_64_LABVIEW_SIZE :: nat
  MPS_PKT_32_LABVIEW_SIZE :: nat
  MPS_PKT_16_LABVIEW_SIZE :: nat
  MPS_MAX_ADC_COUNTS :: int
  MPS_MIN_SIGNED_ADC_COUNTS :: int
  MPS_MAX_SIGNED_ADC_COUNTS :: int
  MPS_FIRMWARE_VERSION_STRING :: string
  MPS_PROTOCOL_VERSION_STRING :: string
  mps_status_to_string :: "int \<Rightarrow> string option"
  mps_format_to_char :: "int \<Rightarrow> char"
  mps_format_from_char :: "char \<Rightarrow> int \<Rightarrow> bool \<times> int"
  mps_units_to_string :: "int \<Rightarrow> string"
  mps_units_from_string :: "string \<Rightarrow> int \<Rightarrow> bool \<times> int"
  mps_units_conversion_factor :: "int \<Rightarrow> ieee"
  mps_packet_info_size :: "int \<Rightarrow> nat option"
  mps_packet_sizeof :: "int \<Rightarrow> nat"
  mps_packet_pressures :: "int \<Rightarrow> nat"
  mps_packet_temperatures :: "int \<Rightarrow> nat"
  mps_packet_layout :: "packet \<Rightarrow> u8 list"

text \<open>
  \<open>mps_packet_info_size\<close> is \<open>mps_get_binary_packet_info_by_type(t)\<close>, the null pointer or
  the \<open>size_bytes\<close> of its target; \<open>mps_packet_sizeof t\<close> is the \<open>sizeof\<close> of the struct
  of packet type \<open>t\<close>, and \<open>mps_packet_pressures t\<close> and \<open>mps_packet_temperatures t\<close> are
  the lengths of its arrays of channel values. The functions with an output parameter take its old value and
  return the success flag and the new value.
\<close>

definition packet_types :: "mps_protocol \<Rightarrow> int list" where
  "packet_types P =
     [MPS_PKT_UNDEFINED P, MPS_PKT_LEGACY_TYPE P, MPS_PKT_16_TYPE P, MPS_PKT_32_TYPE P,
      MPS_PKT_64_TYPE P, MPS_PKT_16_RAW_TYPE P, MPS_PKT_32_RAW_TYPE P, MPS_PKT_64_RAW_TYPE P]"

definition device_types :: "mps_protocol \<Rightarrow> int list" where
  "device_types P = [MPS_4264 P, MPS_4232 P, MPS_4216 P]"

text \<open>
  Enumerators that the code distinguishes are different (the \<open>switch\<close> statements over the
  device and packet types would not compile otherwise), and \<open>MPS_SIM_SIMULATED_64CH\<close> is
  bit 6, as the code's comments and the README say.
\<close>

definition enums_ok :: "mps_protocol \<Rightarrow> bool" where
  "enums_ok P \<longleftrightarrow>
     distinct (packet_types P) \<and> distinct (device_types P) \<and>
     distinct [MPS_FMT_ASCII P, MPS_FMT_BINARY P, MPS_FMT_LABVIEW P] \<and>
     distinct [MPS_STATUS_READY P, MPS_STATUS_SCAN P, MPS_STATUS_CALZ P] \<and>
     MPS_SIM_SIMULATED_64CH P = 64"

text \<open>The converter's range contains 0 and fits a signed 32-bit integer.\<close>

definition adc_ok :: "mps_protocol \<Rightarrow> bool" where
  "adc_ok P \<longleftrightarrow>
     MPS_MIN_SIGNED_ADC_COUNTS P \<le> 0 \<and> 0 < MPS_MAX_SIGNED_ADC_COUNTS P \<and>
     - (2 ^ 31) \<le> MPS_MIN_SIGNED_ADC_COUNTS P \<and> MPS_MAX_SIGNED_ADC_COUNTS P < 2 ^ 31"

text \<open>
  The channel arrays hold the largest device, the LabVIEW buffer its two leading elements
  and all channels, the LabVIEW sizes are those of two elements and the channels, each packet
  type's struct fits the packet buffer and is what the packet information says, and its
  arrays have the channels of its device (of the largest one for the legacy packet).
\<close>

definition sizes_ok :: "mps_protocol \<Rightarrow> bool" where
  "sizes_ok P \<longleftrightarrow>
     MPS_MAX_PRESSURE_CH_COUNT P = 64 \<and> MPS_MAX_TEMPERATURE_CH_COUNT P = 8 \<and>
     66 \<le> MPS_MAX_LABVIEW_ELEMENTS P \<and>
     MPS_PKT_64_LABVIEW_SIZE P = 4 * 66 \<and> MPS_PKT_32_LABVIEW_SIZE P = 4 * 34 \<and>
     MPS_PKT_16_LABVIEW_SIZE P = 4 * 18 \<and>
     (\<forall>t \<in> set (packet_types P).
        mps_packet_sizeof P t \<le> MPS_MAX_BINARY_PACKET_SIZE P \<and>
        mps_packet_info_size P t \<in> {None, Some (mps_packet_sizeof P t)}) \<and>
     (\<forall>p. length (mps_packet_layout P p) = mps_packet_sizeof P (pkt_type p)) \<and>
     map (\<lambda>t. (mps_packet_pressures P t, mps_packet_temperatures P t)) (tl (packet_types P)) =
       [(64, 8), (16, 4), (32, 4), (64, 8), (16, 4), (32, 4), (64, 8)]"

lemma sizes_ok_packet:
  assumes "sizes_ok P" and "t \<in> set (packet_types P)"
  shows "mps_packet_sizeof P t \<le> MPS_MAX_BINARY_PACKET_SIZE P"
    and "mps_packet_info_size P t \<in> {None, Some (mps_packet_sizeof P t)}"
  using assms by (simp_all only: sizes_ok_def)

lemma sizes_ok_layout: "sizes_ok P \<Longrightarrow> length (mps_packet_layout P p) = mps_packet_sizeof P (pkt_type p)"
  by (simp only: sizes_ok_def)

lemma sizes_ok_arrays:
  "sizes_ok P \<Longrightarrow> map (\<lambda>t. (mps_packet_pressures P t, mps_packet_temperatures P t)) (tl (packet_types P)) =
     [(64, 8), (16, 4), (32, 4), (64, 8), (16, 4), (32, 4), (64, 8)]"
  by (simp only: sizes_ok_def)

lemma tl_packet_types: "t \<in> set (tl (packet_types P)) \<Longrightarrow> t \<in> set (packet_types P)"
  by (simp add: packet_types_def)

lemma tl_packet_types_defined:
  "enums_ok P \<Longrightarrow> t \<in> set (tl (packet_types P)) \<Longrightarrow> t \<noteq> MPS_PKT_UNDEFINED P"
  by (auto simp: enums_ok_def packet_types_def)

subsection \<open>A protocol that satisfies the hypotheses\<close>

text \<open>
  Used only to show that the hypotheses can hold and to evaluate examples; nothing is proved
  for it alone.
\<close>

fun sample_format_to_char :: "int \<Rightarrow> char" where
  "sample_format_to_char f =
     (if f = 0 then CHR ''A'' else if f = 1 then CHR ''B'' else if f = 2 then CHR ''L''
      else if f = 3 then CHR ''F'' else CHR ''C'')"

fun sample_format_from_char :: "char \<Rightarrow> int \<Rightarrow> bool \<times> int" where
  "sample_format_from_char c old =
     (if c = CHR ''A'' \<or> c = CHR ''a'' then (True, 0)
      else if c = CHR ''B'' \<or> c = CHR ''b'' then (True, 1)
      else if c = CHR ''L'' \<or> c = CHR ''l'' then (True, 2)
      else if c = CHR ''F'' \<or> c = CHR ''f'' then (True, 3)
      else if c = CHR ''C'' \<or> c = CHR ''c'' then (True, 4) else (False, old))"

definition sample_sizeof :: "int \<Rightarrow> nat" where
  "sample_sizeof t = (if t = 0 then 0 else if t = 1 then 348 else if t = 2 \<or> t = 5 then 96
     else if t = 3 \<or> t = 6 then 160 else 304)"

definition sample_protocol :: mps_protocol where
  "sample_protocol = \<lparr>
     MPS_4264 = 4264, MPS_4232 = 4232, MPS_4216 = 4216,
     MPS_FMT_ASCII = 0, MPS_FMT_BINARY = 1, MPS_FMT_LABVIEW = 2,
     MPS_STATUS_READY = 0, MPS_STATUS_SCAN = 1, MPS_STATUS_CALZ = 2,
     MPS_UNITS_PA = 1, MPS_UNITS_RAW = 2, MPS_SIM_SIMULATED_64CH = 64,
     MPS_PKT_UNDEFINED = 0, MPS_PKT_LEGACY_TYPE = 1, MPS_PKT_16_TYPE = 2, MPS_PKT_32_TYPE = 3,
     MPS_PKT_64_TYPE = 4, MPS_PKT_16_RAW_TYPE = 5, MPS_PKT_32_RAW_TYPE = 6,
     MPS_PKT_64_RAW_TYPE = 7,
     MPS_MAX_PRESSURE_CH_COUNT = 64, MPS_MAX_TEMPERATURE_CH_COUNT = 8,
     MPS_MAX_LABVIEW_ELEMENTS = 66, MPS_MAX_BINARY_PACKET_SIZE = 348,
     MPS_PKT_64_LABVIEW_SIZE = 264, MPS_PKT_32_LABVIEW_SIZE = 136,
     MPS_PKT_16_LABVIEW_SIZE = 72,
     MPS_MAX_ADC_COUNTS = 16777215, MPS_MIN_SIGNED_ADC_COUNTS = -8388608,
     MPS_MAX_SIGNED_ADC_COUNTS = 8388607,
     MPS_FIRMWARE_VERSION_STRING = ''4.01'', MPS_PROTOCOL_VERSION_STRING = ''0.1.4'',
     mps_status_to_string =
       (\<lambda>s. if s = 0 then Some ''READY'' else if s = 1 then Some ''SCAN''
            else if s = 2 then Some ''CALZ'' else None),
     mps_format_to_char = sample_format_to_char,
     mps_format_from_char = sample_format_from_char,
     mps_units_to_string = (\<lambda>u. if u = 1 then ''PA'' else if u = 2 then ''RAW'' else ''PSI''),
     mps_units_from_string =
       (\<lambda>s old. if s = ''PA'' then (True, 1) else if s = ''RAW'' then (True, 2)
                else if s = ''PSI'' then (True, 0) else (False, old)),
     mps_units_conversion_factor =
       (\<lambda>u. if u = 1 then fl binary32 False (689476 / 100) else Num False 1),
     mps_packet_info_size = (\<lambda>t. if 1 \<le> t \<and> t \<le> 7 then Some (sample_sizeof t) else None),
     mps_packet_sizeof = sample_sizeof,
     mps_packet_pressures = (\<lambda>t. if t = 2 \<or> t = 5 then 16 else if t = 3 \<or> t = 6 then 32 else 64),
     mps_packet_temperatures = (\<lambda>t. if t \<in> {2, 5, 3, 6} then 4 else 8),
     mps_packet_layout = (\<lambda>p. replicate (sample_sizeof (pkt_type p)) 0)\<rparr>"

lemma sample_enums_ok: "enums_ok sample_protocol"
  by (simp add: enums_ok_def packet_types_def device_types_def sample_protocol_def)

lemma sample_adc_ok: "adc_ok sample_protocol"
  by (simp add: adc_ok_def sample_protocol_def)

lemma sample_sizes_ok: "sizes_ok sample_protocol"
  by (simp add: sizes_ok_def packet_types_def sample_protocol_def sample_sizeof_def)

end
