(* ===== verification/MpsDevice.thy ===== *)
theory MpsDevice
  imports Protocol
begin

section \<open>application/src/scanivalve/mps.h, mps.cpp: the virtual scanner\<close>

text \<open>
  The state of class \<open>mps::Mps\<close> and its operations other than the command parser
  (\<open>MpsCommands\<close>) and the scanning thread's frames (\<open>MpsScan\<close>). The field names are the
  code's. A call of one of the three callbacks is an event in the operation's result, in the
  order of the calls; \<open>m_OnStatusChanged\<close> and its siblings say whether a callback is set.
  Log output is not modelled.
\<close>

record mps_config =
  device_id :: int
  serial_number :: u32
  telnet_format :: int
  ftp_udp_format :: int
  binary_format :: int
  scan_rate_hz :: ieee
  frames_per_scan :: u32
  units :: int
  udp_enabled :: bool
  udp_target_ip :: string
  udp_target_port :: u16
  ftp_enabled :: bool
  sim :: int

text \<open>
  \<open>'g\<close> is the state of \<open>std::mt19937\<close> and \<open>'d\<close> that of the normal distribution
  object. \<open>m_PacketInfo\<close> is the null pointer or the packet size it points to; the PTP times
  are \<open>None\<close> while they are indeterminate (the class does not initialise them). The start
  time is the steady clock's, in nanoseconds.
\<close>

record ('g, 'd) mps =
  m_Name :: string
  m_cfg :: mps_config
  m_Status :: int
  m_PacketType :: int
  m_PacketInfo :: "nat option"
  m_PhysicalPressureChannelCount :: nat
  m_PhysicalTemperatureChannelCount :: nat
  m_PacketPressureChannelCount :: nat
  m_PacketTemperatureChannelCount :: nat
  m_Running :: bool
  m_Scanning :: bool
  m_Calibrating :: bool
  m_UseLabview :: bool
  m_UseBinary :: bool
  m_UseRaw :: bool
  m_ZeroPad :: bool
  m_nSubFrameAverages :: u32
  m_RandomGenerator :: 'g
  m_NormalDistribution :: 'd
  m_ScanStartTime :: int
  m_ScanStartTimePTPSeconds :: "u32 option"
  m_ScanStartTimePTPNanoseconds :: "u32 option"
  m_OnFrame :: bool
  m_OnLabviewFrame :: bool
  m_OnStatusChanged :: bool

datatype device_event =
    Status_Changed
  | Frame_Ready "u8 list"
  | Labview_Ready "u8 list"

text \<open>
  What the scanner takes from \<open><random>\<close> and \<open><functional>\<close> that the standard leaves
  to the implementation: the string hash, and the numbers a normal distribution makes from
  the generator's output. \<open>normal_draw\<close> returns the drawn value and the new states.
\<close>

record ('g, 'd) random_lib =
  hash_string :: "string \<Rightarrow> u64"
  mt19937 :: "u32 \<Rightarrow> 'g"
  normal_distribution :: "ieee \<Rightarrow> ieee \<Rightarrow> 'd"
  normal_draw :: "'d \<Rightarrow> 'g \<Rightarrow> rat \<times> 'd \<times> 'g"

subsection \<open>Construction\<close>

definition default_seed :: u32 where "default_seed = 5489"

definition device_name :: "int \<Rightarrow> u32 \<Rightarrow> string" where
  "device_name dev sn =
     ''Virtual-MPS-'' @ show_nat (unat (word_of_int dev :: u32)) @ ''-SN'' @ show_nat (unat sn)"

definition noise_stddev :: "mps_protocol \<Rightarrow> ieee" where
  "noise_stddev P =
     fmul binary64 (fl binary64 False (5 / 10000)) (of_int_fl binary64 (MPS_MAX_ADC_COUNTS P))"

definition Mps :: "mps_protocol \<Rightarrow> ('g, 'd) random_lib \<Rightarrow> mps_config \<Rightarrow> bool \<Rightarrow> bool \<Rightarrow> bool
    \<Rightarrow> ('g, 'd) mps" where
  "Mps P R cfg on_frame on_labview on_status_changed = \<lparr>
     m_Name = device_name (device_id cfg) (serial_number cfg),
     m_cfg = cfg,
     m_Status = MPS_STATUS_READY P,
     m_PacketType = MPS_PKT_LEGACY_TYPE P,
     m_PacketInfo = None,
     m_PhysicalPressureChannelCount = 64,
     m_PhysicalTemperatureChannelCount = 8,
     m_PacketPressureChannelCount = 64,
     m_PacketTemperatureChannelCount = 8,
     m_Running = False, m_Scanning = False, m_Calibrating = False,
     m_UseLabview = False, m_UseBinary = False, m_UseRaw = False, m_ZeroPad = True,
     m_nSubFrameAverages = 1,
     m_RandomGenerator = mt19937 R default_seed,
     m_NormalDistribution = normal_distribution R (Num False 0) (noise_stddev P),
     m_ScanStartTime = 0,
     m_ScanStartTimePTPSeconds = None,
     m_ScanStartTimePTPNanoseconds = None,
     m_OnFrame = on_frame, m_OnLabviewFrame = on_labview,
     m_OnStatusChanged = on_status_changed\<rparr>"

subsection \<open>Configuration of a scan\<close>

text \<open>\<open>m_nSubFrameAverages\<close>: the frames are averages of samples taken at 500 Hz or more.\<close>

definition UpdateScanAverages :: "('g, 'd) mps \<Rightarrow> ub + ('g, 'd) mps" where
  "UpdateScanAverages m =
     (let rate = scan_rate_hz (m_cfg m)
      in if of_int_fl binary32 500 \<le> rate then Inr (m\<lparr>m_nSubFrameAverages := 1\<rparr>)
         else bind_ub (cast_u32 (fceil (fdiv binary32 (of_int_fl binary32 500) rate)))
                (\<lambda>n. Inr (m\<lparr>m_nSubFrameAverages := n\<rparr>)))"

definition physical_channels :: "mps_protocol \<Rightarrow> int \<Rightarrow> nat \<times> nat \<Rightarrow> nat \<times> nat" where
  "physical_channels P dev old =
     (if dev = MPS_4264 P then (64, 8)
      else if dev = MPS_4232 P then (32, 4)
      else if dev = MPS_4216 P then (16, 4)
      else old)"

definition binary_packet_type :: "mps_protocol \<Rightarrow> bool \<Rightarrow> bool \<Rightarrow> int \<Rightarrow> int" where
  "binary_packet_type P zero_pad raw dev =
     (if zero_pad then MPS_PKT_LEGACY_TYPE P
      else if dev = MPS_4264 P then (if raw then MPS_PKT_64_RAW_TYPE P else MPS_PKT_64_TYPE P)
      else if dev = MPS_4232 P then (if raw then MPS_PKT_32_RAW_TYPE P else MPS_PKT_32_TYPE P)
      else if dev = MPS_4216 P then (if raw then MPS_PKT_16_RAW_TYPE P else MPS_PKT_16_TYPE P)
      else MPS_PKT_UNDEFINED P)"

definition ConfigureScanLayout :: "mps_protocol \<Rightarrow> ('g, 'd) mps \<Rightarrow> ('g, 'd) mps" where
  "ConfigureScanLayout P m =
     (let cfg = m_cfg m;
          labview = (binary_format cfg = MPS_FMT_LABVIEW P);
          binary = (binary_format cfg = MPS_FMT_BINARY P \<or>
                    ftp_udp_format cfg = MPS_FMT_BINARY P \<and> (udp_enabled cfg \<or> ftp_enabled cfg));
          raw = (units cfg = MPS_UNITS_RAW P);
          pad = (and (sim cfg) (MPS_SIM_SIMULATED_64CH P) \<noteq> 0);
          (pc, tc) = physical_channels P (device_id cfg)
             (m_PhysicalPressureChannelCount m, m_PhysicalTemperatureChannelCount m);
          ty = (if binary then binary_packet_type P pad raw (device_id cfg)
                else MPS_PKT_UNDEFINED P)
      in m\<lparr>m_UseLabview := labview, m_UseBinary := binary, m_UseRaw := raw, m_ZeroPad := pad,
           m_PhysicalPressureChannelCount := pc, m_PhysicalTemperatureChannelCount := tc,
           m_PacketPressureChannelCount := (if pad then 64 else pc),
           m_PacketTemperatureChannelCount := (if pad then 8 else tc),
           m_PacketType := ty,
           m_PacketInfo := (if binary then mps_packet_info_size P ty else None)\<rparr>)"

subsection \<open>Status\<close>

definition notify :: "('g, 'd) mps \<Rightarrow> device_event list" where
  "notify m = (if m_OnStatusChanged m then [Status_Changed] else [])"

definition CalZ :: "mps_protocol \<Rightarrow> ('g, 'd) mps \<Rightarrow> ('g, 'd) mps \<times> device_event list" where
  "CalZ P m = (m\<lparr>m_Calibrating := True, m_Status := MPS_STATUS_CALZ P\<rparr>, notify m)"

definition GetStatusStr :: "mps_protocol \<Rightarrow> ('g, 'd) mps \<Rightarrow> string" where
  "GetStatusStr P m = (case mps_status_to_string P (m_Status m) of None \<Rightarrow> [] | Some s \<Rightarrow> s)"

definition GetValveStatus :: "('g, 'd) mps \<Rightarrow> int" where
  "GetValveStatus m = 0"

subsection \<open>Starting and stopping a scan\<close>

text \<open>
  \<open>now_sys\<close> and \<open>now_steady\<close> are the readings of the two clocks, in nanoseconds since
  their epochs. The parts of the PTP time are converted to \<open>uint32_t\<close>, so they wrap.
\<close>

definition ptp_seconds :: "int \<Rightarrow> int" where
  "ptp_seconds now = sgn now * (\<bar>now\<bar> div 10 ^ 9)"

definition StartScan :: "mps_protocol \<Rightarrow> ('g, 'd) random_lib \<Rightarrow> int \<Rightarrow> int \<Rightarrow> ('g, 'd) mps
    \<Rightarrow> ub + ('g, 'd) mps \<times> device_event list" where
  "StartScan P R now_sys now_steady m =
     (if m_Scanning m then Inr (m, [])
      else
        let seed = hash_string R (m_Name m);
            secs = ptp_seconds now_sys;
            m1 = m\<lparr>m_RandomGenerator := mt19937 R (ucast seed),
                   m_ScanStartTime := now_steady,
                   m_ScanStartTimePTPSeconds := Some (word_of_int secs),
                   m_ScanStartTimePTPNanoseconds := Some (word_of_int (now_sys - secs * 10 ^ 9))\<rparr>
        in bind_ub (UpdateScanAverages (ConfigureScanLayout P m1))
             (\<lambda>m2. let m3 = m2\<lparr>m_Scanning := True, m_Status := MPS_STATUS_SCAN P\<rparr>
                   in Inr (m3, notify m3)))"

definition StopScan :: "mps_protocol \<Rightarrow> ('g, 'd) mps \<Rightarrow> ('g, 'd) mps \<times> device_event list" where
  "StopScan P m =
     (if \<not> m_Scanning m then (m, [])
      else let m1 = m\<lparr>m_Scanning := False\<rparr>
           in if m_Status m1 \<noteq> MPS_STATUS_READY P
              then let m2 = m1\<lparr>m_Status := MPS_STATUS_READY P\<rparr> in (m2, notify m2)
              else (m1, []))"

text \<open>
  \<open>Start\<close> also hands \<open>ScanThreadFn\<close> to the device's thread pool, and \<open>Shutdown\<close> then
  stops that pool: \<open>ScanThread\<close> and \<open>ThreadPool\<close> model these.
\<close>

definition Start :: "('g, 'd) mps \<Rightarrow> ('g, 'd) mps" where
  "Start m = m\<lparr>m_Running := True\<rparr>"

definition Shutdown :: "mps_protocol \<Rightarrow> ('g, 'd) mps \<Rightarrow> ('g, 'd) mps \<times> device_event list" where
  "Shutdown P m = (let (m1, ev) = StopScan P m in (m1\<lparr>m_Running := False\<rparr>, ev))"

subsection \<open>Data formats\<close>

definition SetDataFormat :: "mps_protocol \<Rightarrow> char \<Rightarrow> char \<Rightarrow> mps_config \<Rightarrow> bool \<times> mps_config" where
  "SetDataFormat P ty fmt cfg =
     (if ty \<in> {CHR ''T'', CHR ''t''}
      then (if fmt \<in> {CHR ''A'', CHR ''a'', CHR ''F'', CHR ''f'', CHR ''C'', CHR ''c''}
            then let (ok, v) = mps_format_from_char P fmt (telnet_format cfg)
                 in (ok, cfg\<lparr>telnet_format := v\<rparr>)
            else (False, cfg))
      else if ty \<in> {CHR ''F'', CHR ''f''}
      then (if fmt \<in> {CHR ''A'', CHR ''a'', CHR ''B'', CHR ''b'', CHR ''C'', CHR ''c''}
            then let (ok, v) = mps_format_from_char P fmt (ftp_udp_format cfg)
                 in (ok, cfg\<lparr>ftp_udp_format := v\<rparr>)
            else (False, cfg))
      else if ty \<in> {CHR ''B'', CHR ''b''}
      then (if fmt \<in> {CHR ''B'', CHR ''b'', CHR ''L'', CHR ''l''}
            then let (ok, v) = mps_format_from_char P fmt (binary_format cfg)
                 in (ok, cfg\<lparr>binary_format := v\<rparr>)
            else (False, cfg))
      else (False, cfg))"

definition BuildDataFormatResponse :: "mps_protocol \<Rightarrow> mps_config \<Rightarrow> string" where
  "BuildDataFormatResponse P cfg =
     '' T '' @ [mps_format_to_char P (telnet_format cfg)] @ '','' @
     '' F '' @ [mps_format_to_char P (ftp_udp_format cfg)] @ '','' @
     '' B '' @ [mps_format_to_char P (binary_format cfg)]"

subsection \<open>A device for examples\<close>

text \<open>A device over \<open>sample_protocol\<close> and a simple random library, for evaluated examples.\<close>

definition sample_random :: "(nat, bool) random_lib" where
  "sample_random = \<lparr>hash_string = (\<lambda>s. of_nat (length s)), mt19937 = unat,
     normal_distribution = (\<lambda>_ _. False),
     normal_draw = (\<lambda>saved g. (of_nat (g mod 7) - 3, \<not> saved, Suc g))\<rparr>"

definition sample_config :: "ieee \<Rightarrow> mps_config" where
  "sample_config rate = \<lparr>device_id = 4264, serial_number = 12, telnet_format = 0,
     ftp_udp_format = 1, binary_format = 1, scan_rate_hz = rate, frames_per_scan = 0, units = 1,
     udp_enabled = True, udp_target_ip = ''127.0.0.1'', udp_target_port = 23,
     ftp_enabled = False, sim = 64\<rparr>"

definition sample_device :: "ieee \<Rightarrow> (nat, bool) mps" where
  "sample_device rate = Mps sample_protocol sample_random (sample_config rate) True True True"

lemma sample_device_rate [simp]: "scan_rate_hz (m_cfg (sample_device rate)) = rate"
  by (simp add: sample_device_def Mps_def sample_config_def)

subsection \<open>The averages\<close>

lemma of_int_500 [simp]: "of_int_fl binary32 500 = Num False 500"
  using of_int_fl_nat32 [of 500] by simp

lemma ge_500_iff [simp]: "Num False 500 \<le> Num False r \<longleftrightarrow> 500 \<le> r"
  by simp

lemma cast_u32_nat: "k < 2 ^ 32 \<Longrightarrow> cast_u32 (Num False (of_nat k)) = Inr (of_nat k)"
  by (simp add: cast_u32_def Let_def)

lemma int_unat_word32: "0 \<le> c \<Longrightarrow> c < 2 ^ 32 \<Longrightarrow> int (unat (word_of_int c :: u32)) = c"
  by (simp add: uint_word_of_int)

text \<open>
  The float quotient \<open>500 / r\<close>: within a relative error of \<open>2 ^ -24\<close> of the exact one.
\<close>

lemma quotient_error:
  assumes r: "0 < r" "r < 500"
  shows "\<bar>rnd_mag binary32 (500 / r) - 500 / r\<bar> \<le> 500 / r * (1 / 2 ^ 24)"
proof -
  have ge: "1 \<le> 500 / r" using r by simp
  then have "0 \<le> ilog 2 (500 / r)"
    by (simp add: ilog_def) (metis One_nat_def Suc_leI ndigits_pos of_nat_1 of_nat_mono)
  then have "\<bar>rnd_mag binary32 (500 / r) - 500 / r\<bar> \<le> 500 / r * 2 powi (- int 24)"
    using rnd_mag_rel_error [of "500 / r" binary32] r by simp
  then show ?thesis by (simp only: power_int_minus power_int_of_nat inverse_eq_divide)
qed

text \<open>What \<open>UpdateScanAverages\<close> computes for a positive finite rate below 500.\<close>

lemma UpdateScanAverages_pos:
  assumes rate: "scan_rate_hz (m_cfg m) = Num False r" and r: "0 < r" "r < 500"
    and res: "UpdateScanAverages m = Inr m'"
  shows "m' = m\<lparr>m_nSubFrameAverages := m_nSubFrameAverages m'\<rparr>"
    and "int (unat (m_nSubFrameAverages m')) = \<lceil>rnd_mag binary32 (500 / r)\<rceil>"
proof -
  let ?q = "rnd_mag binary32 (500 / r)"
  have q0: "0 \<le> ?q" using r by (intro rnd_mag_nonneg) simp
  from res rate r obtain n where n: "cast_u32 (fceil (fl binary32 False (500 / r))) = Inr n"
    and m': "m' = m\<lparr>m_nSubFrameAverages := n\<rparr>"
    by (auto simp: UpdateScanAverages_def Let_def bind_ub_Inr_iff)
  from n have "n = word_of_int \<lceil>?q\<rceil>" and "\<lceil>?q\<rceil> < 2 ^ 32"
    by (auto simp: fl_def cast_u32_def Let_def bind_ub_Inr_iff split: if_splits)
  moreover have "0 \<le> \<lceil>?q\<rceil>" using q0 by linarith
  ultimately have "int (unat n) = \<lceil>?q\<rceil>" using int_unat_word32 by metis
  with m' show "m' = m\<lparr>m_nSubFrameAverages := m_nSubFrameAverages m'\<rparr>"
    and "int (unat (m_nSubFrameAverages m')) = \<lceil>?q\<rceil>" by simp_all
qed

text \<open>
  Property C30: the internal sample rate, the frame rate times the number of averaged
  subframes, is at least 500 Hz up to one float rounding, and no more subframes are used
  than that takes; for every positive rate below 500 on which the code is defined.
\<close>

theorem sample_rate_at_least_500:
  assumes "scan_rate_hz (m_cfg m) = Num False r" and "0 < r" and "r < 500"
    and "UpdateScanAverages m = Inr m'"
  shows "500 * (1 - 1 / 2 ^ 24) \<le> of_nat (unat (m_nSubFrameAverages m')) * r \<and>
         (of_nat (unat (m_nSubFrameAverages m')) - 1) * r < 500 * (1 + 1 / 2 ^ 24)"
proof -
  let ?q = "rnd_mag binary32 (500 / r)" and ?n = "unat (m_nSubFrameAverages m')"
  have "of_nat ?n = (of_int \<lceil>?q\<rceil> :: rat)"
    using UpdateScanAverages_pos(2) [OF assms] by (metis of_int_of_nat_eq)
  then have n: "?q \<le> of_nat ?n" "of_nat ?n - 1 < ?q" by linarith+
  from quotient_error [OF assms(2,3)]
  have q: "500 / r * (1 - 1 / 2 ^ 24) \<le> ?q" "?q \<le> 500 / r * (1 + 1 / 2 ^ 24)"
    by (auto simp: abs_le_iff algebra_simps)
  from q n have "500 / r * (1 - 1 / 2 ^ 24) \<le> of_nat ?n" "of_nat ?n - 1 < 500 / r * (1 + 1 / 2 ^ 24)"
    by linarith+
  then show ?thesis using assms(2) by (simp add: field_simps)
qed

text \<open>For a whole number of hertz the result is exactly the rounded-up quotient.\<close>

lemma ceil_quotient_nat:
  assumes n: "0 < n" "n < 500"
  shows "\<lceil>rnd_mag binary32 (500 / of_nat n)\<rceil> = int ((500 + n - 1) div n)"
proof -
  let ?k = "(500 + n - 1) div n" and ?x = "500 / of_nat n :: rat"
  let ?q = "rnd_mag binary32 ?x"
  have kn: "500 \<le> ?k * n" and kn': "(?k - 1) * n + 1 \<le> 500" and k1: "1 \<le> ?k"
  proof -
    have eq: "500 + n - 1 = ?k * n + (500 + n - 1) mod n" by (rule div_mult_mod_eq [symmetric])
    have md: "(500 + n - 1) mod n < n" using n by simp
    show "500 \<le> ?k * n" using eq md n by linarith
    show k1: "1 \<le> ?k" using n by (simp add: div_greater_zero_iff Suc_leI)
    have "?k * n \<le> 500 + n - 1" by simp
    then show "(?k - 1) * n + 1 \<le> 500" using k1 n by (simp add: diff_mult_distrib)
  qed
  have npos: "(0::rat) < of_nat n" using n by simp
  have "(500::rat) \<le> of_nat ?k * of_nat n" using kn by (metis of_nat_le_iff of_nat_mult of_nat_numeral)
  then have xk: "?x \<le> of_nat ?k" using npos by (simp add: field_simps)
  have "(of_nat ((?k - 1) * n + 1) :: rat) \<le> of_nat 500" using kn' by (simp only: of_nat_le_iff)
  then have "(of_nat ?k - 1) * of_nat n + 1 \<le> (500::rat)" using k1 by (simp add: of_nat_diff)
  then have xl: "of_nat ?k - 1 + 1 / of_nat n \<le> ?x" using npos by (simp add: field_simps)
  have "(?k - 1) * 1 \<le> (?k - 1) * n" using n by (intro mult_le_mono) auto
  then have k500: "?k \<le> 500" using kn' k1 by linarith
  have err: "\<bar>?q - ?x\<bar> \<le> ?x * (1 / 2 ^ 24)" using quotient_error [of "of_nat n"] n by simp
  have "?x * (1 / 2 ^ 24) < 1 / of_nat n" using npos by (simp add: field_simps)
  then have lo: "of_nat ?k - 1 < ?q" using err xl by linarith
  have "rnd_mag binary32 (of_nat ?k) = of_nat ?k" using k500 by (intro rnd_mag_nat) auto
  then have "?q \<le> of_nat ?k" using rnd_mag_mono [of binary32 ?x "of_nat ?k"] xk npos by simp
  with lo show ?thesis by (intro ceiling_unique) auto
qed

lemma UpdateScanAverages_whole:
  assumes "scan_rate_hz (m_cfg m) = Num False (of_nat n)" and "0 < n"
  shows "UpdateScanAverages m =
           Inr (m\<lparr>m_nSubFrameAverages := of_nat (if 500 \<le> n then 1 else (500 + n - 1) div n)\<rparr>)"
proof (cases "500 \<le> n")
  case True
  then have "(500::rat) \<le> of_nat n" by (metis of_nat_le_iff of_nat_numeral)
  then show ?thesis using assms True by (simp add: UpdateScanAverages_def Let_def)
next
  case False
  let ?q = "rnd_mag binary32 (500 / of_nat n)" and ?k = "(500 + n - 1) div n"
  have lt: "\<not> (500::rat) \<le> of_nat n" using False by (metis of_nat_le_iff of_nat_numeral)
  have c: "\<lceil>?q\<rceil> = int ?k" using ceil_quotient_nat [of n] assms(2) False by simp
  have k: "?k < 2 ^ 32" using False by (simp add: order.strict_trans1 [OF div_le_dividend])
  have "?q \<le> of_int \<lceil>?q\<rceil>" by (rule le_of_int_ceiling)
  also have "\<dots> \<le> 2 ^ 32" unfolding c using k by (metis less_imp_le of_int_of_nat_eq of_nat_le_iff
        of_nat_numeral of_nat_power)
  also have "\<dots> < 2 powi 128" by (simp add: power_int_def)
  finally have "fl binary32 False (500 / of_nat n) = Num False ?q" by (simp add: fl_def Let_def)
  moreover have "cast_u32 (Num False (of_int \<lceil>?q\<rceil>)) = Inr (of_nat ?k)"
    unfolding c using cast_u32_nat [OF k] by simp
  ultimately show ?thesis using assms lt False
    by (simp add: UpdateScanAverages_def Let_def)
qed

text \<open>
  For a whole number \<open>n\<close> of hertz the number of averaged subframes is exactly
  1 from 500 on and the rounded-up quotient \<open>500 / n\<close> below: the float division and
  \<open>std::ceil\<close> lose nothing there.
\<close>

theorem averages_of_whole_rate:
  assumes "scan_rate_hz (m_cfg m) = Num False (of_nat n)" and "0 < n"
  shows "UpdateScanAverages m =
           Inr (m\<lparr>m_nSubFrameAverages := of_nat (if 500 \<le> n then 1 else (500 + n - 1) div n)\<rparr>)"
  using assms by (rule UpdateScanAverages_whole)

theorem averages_of_whole_rate_witness:
  "UpdateScanAverages (sample_device (Num False 333)) =
     Inr (sample_device (Num False 333)\<lparr>m_nSubFrameAverages := 2\<rparr>)"
  using averages_of_whole_rate [of "sample_device (Num False 333)" 333]
  by (simp add: sample_device_rate)

theorem sample_rate_at_least_500_witness:
  "\<exists>m'. UpdateScanAverages (sample_device (Num False 333)) = Inr m' \<and> m_nSubFrameAverages m' = 2 \<and>
     500 * (1 - 1 / 2 ^ 24) \<le> of_nat (unat (m_nSubFrameAverages m')) * (333 :: rat) \<and>
     (of_nat (unat (m_nSubFrameAverages m')) - 1) * 333 < (500 :: rat) * (1 + 1 / 2 ^ 24)"
proof -
  let ?m = "sample_device (Num False 333)" and ?m' = "sample_device (Num False 333)\<lparr>m_nSubFrameAverages := 2\<rparr>"
  have u: "UpdateScanAverages ?m = Inr ?m'"
    using UpdateScanAverages_whole [of ?m 333] by (simp add: sample_device_rate)
  have "0 < (333 :: rat)" "(333 :: rat) < 500" by simp_all
  from sample_rate_at_least_500 [OF sample_device_rate this u] u show ?thesis
    by (intro exI [of _ ?m'] conjI) simp_all
qed

text \<open>
  Rates that \<open>SET RATE\<close> accepts but the averaging cannot handle: for zero, NaN and the
  negative rates down to -500 the cast to \<open>uint32_t\<close> is undefined, and a rate below -501
  gives zero subframes, by which the scanning thread then divides.
\<close>

lemma UpdateScanAverages_undefined:
  assumes "scan_rate_hz (m_cfg m) \<in> {NaN, Num s 0} \<or>
           (\<exists>r. scan_rate_hz (m_cfg m) = Num True r \<and> 0 < r \<and> r \<le> 500)"
  shows "UpdateScanAverages m = Inl Unrepresentable"
proof -
  consider "scan_rate_hz (m_cfg m) = NaN" | "scan_rate_hz (m_cfg m) = Num s 0"
    | r where "scan_rate_hz (m_cfg m) = Num True r" "0 < r" "r \<le> 500"
    using assms by auto
  then show ?thesis
  proof cases
    case (3 r)
    have "rnd_mag binary32 (of_nat 1) \<le> rnd_mag binary32 (500 / r)"
      using 3 by (intro rnd_mag_mono) auto
    then have q: "1 \<le> rnd_mag binary32 (500 / r)" using rnd_mag_nat [of 1 binary32] by simp
    then have "1 \<le> \<lfloor>rnd_mag binary32 (500 / r)\<rfloor>" by simp
    then show ?thesis using 3 by (auto simp: UpdateScanAverages_def fl_def cast_u32_def Let_def)
  qed (auto simp: UpdateScanAverages_def cast_u32_def Let_def)
qed

lemma UpdateScanAverages_negative:
  assumes "scan_rate_hz (m_cfg m) = Num True r" and r: "501 \<le> r"
  shows "UpdateScanAverages m = Inr (m\<lparr>m_nSubFrameAverages := 0\<rparr>)"
proof -
  let ?q = "rnd_mag binary32 (500 / r)"
  have q0: "0 \<le> ?q" using r by (intro rnd_mag_nonneg) simp
  have "(of_nat 16777215 :: rat) * 2 powi (-24) = 16777215 / 2 ^ 24"
    by (simp add: power_int_minus power_int_def field_simps)
  then have e: "rnd_mag binary32 (16777215 / 2 ^ 24) = 16777215 / 2 ^ 24"
    using rnd_mag_exact [of 16777215 binary32 "-24"] by simp
  have "500 / r \<le> 16777215 / 2 ^ 24" using r by (simp add: field_simps)
  then have "?q \<le> rnd_mag binary32 (16777215 / 2 ^ 24)" using r by (intro rnd_mag_mono) auto
  then have q: "?q < 1" using e by simp
  then have f: "\<lfloor>?q\<rfloor> = 0" using q0 by (simp add: floor_eq_iff)
  have "\<not> (2::rat) powi 128 \<le> ?q" using q by (simp add: power_int_def)
  then show ?thesis using assms f
    by (simp add: UpdateScanAverages_def fl_def cast_u32_def Let_def)
qed

subsection \<open>The layout of a scan\<close>

lemma ConfigureScanLayout_cfg [simp]:
  "m_cfg (ConfigureScanLayout P m) = m_cfg m" "m_Name (ConfigureScanLayout P m) = m_Name m"
  "m_Scanning (ConfigureScanLayout P m) = m_Scanning m"
  "m_Status (ConfigureScanLayout P m) = m_Status m"
  "m_Running (ConfigureScanLayout P m) = m_Running m"
  "m_Calibrating (ConfigureScanLayout P m) = m_Calibrating m"
  "m_OnStatusChanged (ConfigureScanLayout P m) = m_OnStatusChanged m"
  "m_RandomGenerator (ConfigureScanLayout P m) = m_RandomGenerator m"
  "m_NormalDistribution (ConfigureScanLayout P m) = m_NormalDistribution m"
  "m_ScanStartTime (ConfigureScanLayout P m) = m_ScanStartTime m"
  "m_ScanStartTimePTPSeconds (ConfigureScanLayout P m) = m_ScanStartTimePTPSeconds m"
  "m_ScanStartTimePTPNanoseconds (ConfigureScanLayout P m) = m_ScanStartTimePTPNanoseconds m"
  by (simp_all add: ConfigureScanLayout_def Let_def split: prod.splits)

lemma ConfigureScanLayout_fields:
  defines "old m \<equiv> (m_PhysicalPressureChannelCount m, m_PhysicalTemperatureChannelCount m)"
  shows "m_UseLabview (ConfigureScanLayout P m) = (binary_format (m_cfg m) = MPS_FMT_LABVIEW P)"
    and "m_UseBinary (ConfigureScanLayout P m) =
           (binary_format (m_cfg m) = MPS_FMT_BINARY P \<or>
            ftp_udp_format (m_cfg m) = MPS_FMT_BINARY P \<and>
            (udp_enabled (m_cfg m) \<or> ftp_enabled (m_cfg m)))"
    and "m_UseRaw (ConfigureScanLayout P m) = (units (m_cfg m) = MPS_UNITS_RAW P)"
    and "m_ZeroPad (ConfigureScanLayout P m) = (and (sim (m_cfg m)) (MPS_SIM_SIMULATED_64CH P) \<noteq> 0)"
    and "m_PhysicalPressureChannelCount (ConfigureScanLayout P m) =
           fst (physical_channels P (device_id (m_cfg m)) (old m))"
    and "m_PhysicalTemperatureChannelCount (ConfigureScanLayout P m) =
           snd (physical_channels P (device_id (m_cfg m)) (old m))"
    and "m_PacketPressureChannelCount (ConfigureScanLayout P m) =
           (if and (sim (m_cfg m)) (MPS_SIM_SIMULATED_64CH P) \<noteq> 0 then 64
            else fst (physical_channels P (device_id (m_cfg m)) (old m)))"
    and "m_PacketTemperatureChannelCount (ConfigureScanLayout P m) =
           (if and (sim (m_cfg m)) (MPS_SIM_SIMULATED_64CH P) \<noteq> 0 then 8
            else snd (physical_channels P (device_id (m_cfg m)) (old m)))"
    and "m_PacketType (ConfigureScanLayout P m) =
           (if m_UseBinary (ConfigureScanLayout P m)
            then binary_packet_type P (and (sim (m_cfg m)) (MPS_SIM_SIMULATED_64CH P) \<noteq> 0)
                   (units (m_cfg m) = MPS_UNITS_RAW P) (device_id (m_cfg m))
            else MPS_PKT_UNDEFINED P)"
    and "m_PacketInfo (ConfigureScanLayout P m) =
           (if m_UseBinary (ConfigureScanLayout P m)
            then mps_packet_info_size P (m_PacketType (ConfigureScanLayout P m)) else None)"
  by (auto simp: ConfigureScanLayout_def Let_def old_def split: prod.splits)

definition supported :: "mps_protocol \<Rightarrow> int \<Rightarrow> bool" where
  "supported P dev \<longleftrightarrow> dev \<in> set (device_types P)"

text \<open>
  The well-formedness of a layout that the frame builders rely on: the channel counts are
  those of a device, the packet has room for them, and where binary packets are sent their
  type is one of the seven.
\<close>

definition layout_ok :: "mps_protocol \<Rightarrow> ('g, 'd) mps \<Rightarrow> bool" where
  "layout_ok P m \<longleftrightarrow>
     (m_PhysicalPressureChannelCount m, m_PhysicalTemperatureChannelCount m)
        \<in> {(64, 8), (32, 4), (16, 4)} \<and>
     (m_PacketPressureChannelCount m, m_PacketTemperatureChannelCount m)
        = (if m_ZeroPad m then (64, 8)
           else (m_PhysicalPressureChannelCount m, m_PhysicalTemperatureChannelCount m))"

lemma ConfigureScanLayout_ok:
  assumes "supported P (device_id (m_cfg m)) \<or> layout_ok P m"
  shows "layout_ok P (ConfigureScanLayout P m)"
  using assms
  by (auto simp: layout_ok_def ConfigureScanLayout_def Let_def physical_channels_def
      supported_def device_types_def split: if_splits)

lemma Mps_layout_ok: "layout_ok P (Mps P R cfg a b c)"
  by (simp add: layout_ok_def Mps_def)

lemma binary_packet_type_known:
  assumes "dev \<in> {MPS_4264 P, MPS_4232 P, MPS_4216 P}"
  shows "binary_packet_type P pad raw dev =
           (if pad then MPS_PKT_LEGACY_TYPE P
            else if dev = MPS_4264 P then (if raw then MPS_PKT_64_RAW_TYPE P else MPS_PKT_64_TYPE P)
            else if dev = MPS_4232 P then (if raw then MPS_PKT_32_RAW_TYPE P else MPS_PKT_32_TYPE P)
            else (if raw then MPS_PKT_16_RAW_TYPE P else MPS_PKT_16_TYPE P))"
  using assms by (auto simp: binary_packet_type_def)

lemma known_packet_type_defined:
  assumes "distinct (packet_types P)" and "dev \<in> {MPS_4264 P, MPS_4232 P, MPS_4216 P}"
  shows "binary_packet_type P pad raw dev \<noteq> MPS_PKT_UNDEFINED P"
  using assms(1) unfolding binary_packet_type_known [OF assms(2)] packet_types_def
  by (auto split: if_splits)

text \<open>
  Property C24: on a supported device the packets of a scan match it. The scanner has the
  channels of its device type, 64 pressures and 8 temperatures, 32 and 4, or 16 and 4. Without
  SIM bit 6 a packet has exactly these, with it 64 and 8, whatever the device. Where binary
  packets are sent, the arrays of their struct have exactly the channels of the packet, so
  nothing is written beyond them and none is left over; the packet is a legacy one if SIM bit 6
  is set, and one of raw counts if it is not and the units are raw. Where none are sent the
  type is undefined.
\<close>

theorem layout_of_scan:
  assumes "enums_ok P" and "sizes_ok P" and "supported P (device_id (m_cfg m))"
  defines "c \<equiv> ConfigureScanLayout P m"
  shows "(device_id (m_cfg m), m_PhysicalPressureChannelCount c, m_PhysicalTemperatureChannelCount c)
           \<in> {(MPS_4264 P, 64, 8), (MPS_4232 P, 32, 4), (MPS_4216 P, 16, 4)} \<and>
         (m_PacketPressureChannelCount c, m_PacketTemperatureChannelCount c) =
           (if bit (sim (m_cfg m)) 6 then (64, 8)
            else (m_PhysicalPressureChannelCount c, m_PhysicalTemperatureChannelCount c)) \<and>
         (m_UseBinary c \<longleftrightarrow> m_PacketType c \<noteq> MPS_PKT_UNDEFINED P) \<and>
         (m_UseBinary c \<longrightarrow>
            mps_packet_pressures P (m_PacketType c) = m_PacketPressureChannelCount c \<and>
            mps_packet_temperatures P (m_PacketType c) = m_PacketTemperatureChannelCount c \<and>
            (m_PacketType c = MPS_PKT_LEGACY_TYPE P \<longleftrightarrow> bit (sim (m_cfg m)) 6) \<and>
            (m_PacketType c \<in> {MPS_PKT_16_RAW_TYPE P, MPS_PKT_32_RAW_TYPE P, MPS_PKT_64_RAW_TYPE P} \<longleftrightarrow>
               \<not> bit (sim (m_cfg m)) 6 \<and> units (m_cfg m) = MPS_UNITS_RAW P))"
proof -
  have "MPS_SIM_SIMULATED_64CH P = 2 ^ 6" using assms(1) by (simp add: enums_ok_def)
  then have pad: "(and (sim (m_cfg m)) (MPS_SIM_SIMULATED_64CH P) = 0) = (\<not> bit (sim (m_cfg m)) 6)"
    by (simp only: and_exp_eq_0_iff_not_bit)
  have dev: "device_id (m_cfg m) \<in> {MPS_4264 P, MPS_4232 P, MPS_4216 P}"
    using assms(3) by (simp add: supported_def device_types_def)
  have dist: "distinct (packet_types P)" "distinct (device_types P)" using assms(1) by (simp_all add: enums_ok_def)
  note ar = sizes_ok_arrays [OF assms(2), unfolded packet_types_def list.sel list.map list.inject prod.inject]
  note f = ConfigureScanLayout_fields [of _ m]
  let ?ty = "binary_packet_type P (bit (sim (m_cfg m)) 6) (units (m_cfg m) = MPS_UNITS_RAW P) (device_id (m_cfg m))"
  have ty: "m_PacketType c = (if m_UseBinary c then ?ty else MPS_PKT_UNDEFINED P)"
    unfolding c_def f(9) pad by simp
  have phys: "(device_id (m_cfg m), m_PhysicalPressureChannelCount c, m_PhysicalTemperatureChannelCount c)
      \<in> {(MPS_4264 P, 64, 8), (MPS_4232 P, 32, 4), (MPS_4216 P, 16, 4)}"
    using dev dist(2) unfolding c_def f(5,6) by (auto simp: physical_channels_def device_types_def)
  have pkt: "(m_PacketPressureChannelCount c, m_PacketTemperatureChannelCount c) =
      (if bit (sim (m_cfg m)) 6 then (64, 8)
       else (m_PhysicalPressureChannelCount c, m_PhysicalTemperatureChannelCount c))"
    unfolding c_def f(5-8) pad by simp
  have arrays: "(mps_packet_pressures P ?ty, mps_packet_temperatures P ?ty) =
      (m_PacketPressureChannelCount c, m_PacketTemperatureChannelCount c)"
    unfolding pkt binary_packet_type_known [OF dev]
    using phys ar dist(2) by (auto simp: device_types_def)
  have kind: "(?ty = MPS_PKT_LEGACY_TYPE P \<longleftrightarrow> bit (sim (m_cfg m)) 6) \<and>
      (?ty \<in> {MPS_PKT_16_RAW_TYPE P, MPS_PKT_32_RAW_TYPE P, MPS_PKT_64_RAW_TYPE P} \<longleftrightarrow>
         \<not> bit (sim (m_cfg m)) 6 \<and> units (m_cfg m) = MPS_UNITS_RAW P)"
    unfolding binary_packet_type_known [OF dev] using dist(1) by (auto simp: packet_types_def)
  have bin: "m_UseBinary c \<longleftrightarrow> m_PacketType c \<noteq> MPS_PKT_UNDEFINED P"
    using ty known_packet_type_defined [OF dist(1) dev] by simp
  have "mps_packet_pressures P ?ty = m_PacketPressureChannelCount c"
    "mps_packet_temperatures P ?ty = m_PacketTemperatureChannelCount c"
    using arrays by (simp_all only: prod.inject)
  note len = this
  have eq: "m_UseBinary c \<Longrightarrow> ?ty = m_PacketType c" using ty by simp
  note packet = conjI [OF len(1) conjI [OF len(2) kind]]
  show ?thesis
    by (intro conjI impI phys pkt bin) (use packet eq in \<open>simp_all only:\<close>)
qed

theorem layout_of_scan_witness:
  "\<exists>c. c = ConfigureScanLayout sample_protocol
         (sample_device (Num False 10)\<lparr>m_cfg := sample_config (Num False 10)\<lparr>device_id := 4232, sim := 0\<rparr>\<rparr>) \<and>
       m_PhysicalPressureChannelCount c = 32 \<and> m_PhysicalTemperatureChannelCount c = 4 \<and>
       mps_packet_pressures sample_protocol (m_PacketType c) = 32"
proof -
  let ?m = "sample_device (Num False 10)\<lparr>m_cfg := sample_config (Num False 10)\<lparr>device_id := 4232, sim := 0\<rparr>\<rparr>"
  let ?c = "ConfigureScanLayout sample_protocol ?m"
  have m: "device_id (m_cfg ?m) = 4232" "sim (m_cfg ?m) = 0" "binary_format (m_cfg ?m) = 1"
    by (simp_all add: sample_config_def)
  have P: "MPS_4264 sample_protocol = 4264" "MPS_4232 sample_protocol = 4232" "MPS_4216 sample_protocol = 4216"
    "MPS_FMT_BINARY sample_protocol = 1"
    by (simp_all add: sample_protocol_def)
  have "supported sample_protocol (device_id (m_cfg ?m))" by (simp add: m P supported_def device_types_def)
  note t = layout_of_scan [OF sample_enums_ok sample_sizes_ok this]
  have "m_UseBinary ?c" by (simp only: ConfigureScanLayout_fields m P) simp
  moreover have "m_PhysicalPressureChannelCount ?c = 32 \<and> m_PhysicalTemperatureChannelCount ?c = 4"
    using t [THEN conjunct1] unfolding m P by simp
  moreover have "\<not> bit (sim (m_cfg ?m)) 6" by (simp add: m)
  ultimately show ?thesis using t [THEN conjunct2] by (intro exI [of _ ?c]) simp
qed

subsection \<open>Starting and stopping\<close>

lemma UpdateScanAverages_frame:
  "UpdateScanAverages m = Inr m' \<Longrightarrow> m' = m\<lparr>m_nSubFrameAverages := m_nSubFrameAverages m'\<rparr>"
  by (auto simp: UpdateScanAverages_def Let_def bind_ub_Inr_iff split: if_splits)

lemma UpdateScanAverages_Inr:
  "UpdateScanAverages m = Inr m' \<Longrightarrow> \<exists>n. m' = m\<lparr>m_nSubFrameAverages := n\<rparr>"
  using UpdateScanAverages_frame by blast

text \<open>Whether the averages are defined, and their value, depend on the rate alone.\<close>

lemma UpdateScanAverages_cong:
  "scan_rate_hz (m_cfg m) = scan_rate_hz (m_cfg k) \<Longrightarrow>
   is_defined (UpdateScanAverages m) = is_defined (UpdateScanAverages k)"
  by (auto simp: UpdateScanAverages_def Let_def is_defined_bind)

lemma ptp_seconds_split:
  assumes "0 \<le> now"
  shows "0 \<le> ptp_seconds now" and "0 \<le> now - ptp_seconds now * 10 ^ 9"
    and "now - ptp_seconds now * 10 ^ 9 < 10 ^ 9"
proof -
  have s: "ptp_seconds now = now div 10 ^ 9" using assms by (auto simp: ptp_seconds_def sgn_if)
  show "0 \<le> ptp_seconds now" using assms s by simp
  have "now - ptp_seconds now * 10 ^ 9 = now mod 10 ^ 9" by (simp add: s minus_div_mult_eq_mod)
  then show "0 \<le> now - ptp_seconds now * 10 ^ 9" and "now - ptp_seconds now * 10 ^ 9 < 10 ^ 9"
    by simp_all
qed

text \<open>The result of a scan start, when there is one.\<close>

lemma StartScan_Inr:
  assumes "\<not> m_Scanning m" and "StartScan P R now_sys now_steady m = Inr (m', ev)"
  shows "m_Scanning m' \<and> m_Status m' = MPS_STATUS_SCAN P \<and> ev = notify m \<and>
         m_cfg m' = m_cfg m \<and> m_Name m' = m_Name m \<and> m_Running m' = m_Running m \<and>
         m_Calibrating m' = m_Calibrating m \<and> m_OnStatusChanged m' = m_OnStatusChanged m \<and>
         m_RandomGenerator m' = mt19937 R (ucast (hash_string R (m_Name m))) \<and>
         m_NormalDistribution m' = m_NormalDistribution m \<and>
         m_ScanStartTime m' = now_steady \<and>
         m_ScanStartTimePTPSeconds m' = Some (word_of_int (ptp_seconds now_sys)) \<and>
         m_ScanStartTimePTPNanoseconds m' =
           Some (word_of_int (now_sys - ptp_seconds now_sys * 10 ^ 9))"
  using assms
  by (auto simp: StartScan_def Let_def bind_ub_Inr_iff notify_def dest!: UpdateScanAverages_Inr)

lemma StartScan_defined_iff:
  "is_defined (StartScan P R now_sys now_steady m) \<longleftrightarrow>
     m_Scanning m \<or> is_defined (UpdateScanAverages m)"
proof -
  have "is_defined (UpdateScanAverages (ConfigureScanLayout P (m\<lparr>m_RandomGenerator := g,
          m_ScanStartTime := t, m_ScanStartTimePTPSeconds := a,
          m_ScanStartTimePTPNanoseconds := b\<rparr>))) = is_defined (UpdateScanAverages m)" for g t a b
    by (rule UpdateScanAverages_cong) simp
  then show ?thesis
    by (cases "m_Scanning m") (simp_all add: StartScan_def Let_def)
qed

text \<open>
  A scan that starts always starts from the same generator state, a function of
  the device's name alone, and records the wall-clock time: the two PTP fields hold the
  seconds and the nanoseconds within the second, and give the clock's reading back as long
  as the seconds fit 32 bits (until the year 2106).
\<close>

theorem scan_start_seed_and_time:
  assumes "\<not> m_Scanning m" and "StartScan P R now_sys now_steady m = Inr (m', ev)"
    and "0 \<le> now_sys"
  shows "m_RandomGenerator m' = mt19937 R (ucast (hash_string R (m_Name m))) \<and>
         (\<exists>s ns. m_ScanStartTimePTPSeconds m' = Some s \<and> m_ScanStartTimePTPNanoseconds m' = Some ns \<and>
            unat ns < 10 ^ 9 \<and>
            (now_sys < 2 ^ 32 * 10 ^ 9 \<longrightarrow> int (unat s) * 10 ^ 9 + int (unat ns) = now_sys))"
proof -
  note m' = StartScan_Inr [OF assms(1,2)] and split = ptp_seconds_split [OF assms(3)]
  let ?s = "ptp_seconds now_sys" and ?ns = "now_sys - ptp_seconds now_sys * 10 ^ 9"
  have ns: "int (unat (word_of_int ?ns :: u32)) = ?ns"
    using split by (intro int_unat_word32) auto
  have s: "int (unat (word_of_int ?s :: u32)) = ?s" if "now_sys < 2 ^ 32 * 10 ^ 9"
    using split that by (intro int_unat_word32) auto
  have "int (unat (word_of_int ?ns :: u32)) < 10 ^ 9" using split(3) ns by simp
  then have "unat (word_of_int ?ns :: u32) < 10 ^ 9"
    by (metis of_nat_less_iff of_nat_numeral of_nat_power)
  moreover have "int (unat (word_of_int ?s :: u32)) * 10 ^ 9 + int (unat (word_of_int ?ns :: u32)) = now_sys"
    if "now_sys < 2 ^ 32 * 10 ^ 9"
    unfolding ns s [OF that] by simp
  ultimately show ?thesis using m' by blast
qed

theorem scan_start_seed_and_time_witness:
  "\<exists>m' ev s ns.
     StartScan sample_protocol sample_random (1700000000 * 10 ^ 9 + 5) 0
       (sample_device (Num False 10)) = Inr (m', ev) \<and>
     m_ScanStartTimePTPSeconds m' = Some s \<and> m_ScanStartTimePTPNanoseconds m' = Some ns \<and>
     int (unat s) * 10 ^ 9 + int (unat ns) = 1700000000 * 10 ^ 9 + 5"
proof -
  let ?m = "sample_device (Num False 10)" and ?now = "1700000000 * 10 ^ 9 + 5 :: int"
  have idle: "\<not> m_Scanning ?m" by (simp add: sample_device_def Mps_def)
  have "is_defined (UpdateScanAverages ?m)"
    using UpdateScanAverages_whole [of ?m 10] by simp
  then have "is_defined (StartScan sample_protocol sample_random ?now 0 ?m)"
    by (simp add: StartScan_defined_iff)
  then obtain m' ev where r: "StartScan sample_protocol sample_random ?now 0 ?m = Inr (m', ev)"
    by (auto simp: is_defined_def split: sum.splits)
  from scan_start_seed_and_time [OF idle r] r show ?thesis by auto
qed

lemma StopScan_idle: "\<not> m_Scanning m \<Longrightarrow> StopScan P m = (m, [])"
  by (simp add: StopScan_def)

lemma StopScan_scanning:
  "m_Scanning m \<Longrightarrow>
   StopScan P m = (m\<lparr>m_Scanning := False, m_Status := MPS_STATUS_READY P\<rparr>,
                   if m_Status m = MPS_STATUS_READY P then [] else notify m)"
  by (auto simp: StopScan_def Let_def notify_def)

lemma StopScan_idempotent: "StopScan P (fst (StopScan P m)) = (fst (StopScan P m), [])"
  by (simp add: StopScan_def Let_def)

lemma StartScan_cfg: "StartScan P R t1 t2 m = Inr (m', ev) \<Longrightarrow> m_cfg m' = m_cfg m"
  using StartScan_Inr [of m P R t1 t2 m' ev] by (cases "m_Scanning m") (auto simp: StartScan_def)

lemma StopScan_cfg [simp]: "m_cfg (fst (StopScan P m)) = m_cfg m"
  by (simp add: StopScan_def Let_def)

lemma CalZ_cfg [simp]: "m_cfg (fst (CalZ P m)) = m_cfg m"
  by (simp add: CalZ_def)

end
