(* ===== verification/StringUtils.thy ===== *)
theory StringUtils
  imports Prelude
begin

section \<open>application/src/utils/string-utils.cpp\<close>

text \<open>
  \<open>SplitString\<close>, with its index arithmetic as in the code: a loop over \<open>first\<close> that looks
  for the next delimiter, keeps the text before it unless it is empty, and keeps the last
  piece even when it is empty. \<open>kept_pieces\<close> is the reference: cut at every delimiter,
  drop the empty pieces except the last one.
\<close>

text \<open>\<open>std::string_view::find_first_of (delimiters, pos)\<close>; \<open>None\<close> is \<open>npos\<close>.\<close>

definition find_first_of :: "string \<Rightarrow> string \<Rightarrow> nat \<Rightarrow> nat option" where
  "find_first_of s ds pos =
     (let i = pos + length (takeWhile (\<lambda>c. c \<notin> set ds) (drop pos s))
      in if i < length s then Some i else None)"

lemma find_first_of_Some:
  "find_first_of s ds pos = Some i \<Longrightarrow> pos \<le> i \<and> i < length s"
  by (auto simp: find_first_of_def Let_def split: if_splits)

function SplitString_loop :: "string \<Rightarrow> string \<Rightarrow> nat \<Rightarrow> string list \<Rightarrow> string list" where
  "SplitString_loop s ds first result =
     (if first \<le> length s
      then (case find_first_of s ds first of
              None \<Rightarrow> result @ [drop first s]
            | Some second \<Rightarrow>
                SplitString_loop s ds (second + 1)
                  (if first \<noteq> second then result @ [take (second - first) (drop first s)]
                   else result))
      else result)"
  by pat_completeness auto
termination
  by (relation "measure (\<lambda>(s, ds, first, result). Suc (length s) - first)")
    (auto dest: find_first_of_Some)

declare SplitString_loop.simps [simp del]

definition SplitString :: "string \<Rightarrow> string \<Rightarrow> string list" where
  "SplitString s ds = SplitString_loop s ds 0 []"

text \<open>The overload with one delimiter character.\<close>

definition SplitString_char :: "string \<Rightarrow> char \<Rightarrow> string list" where
  "SplitString_char s d = SplitString s [d]"

subsection \<open>The reference\<close>

fun pieces :: "string \<Rightarrow> string \<Rightarrow> string list" where
  "pieces ds [] = [[]]"
| "pieces ds (c # s) =
     (if c \<in> set ds then [] # pieces ds s
      else (c # hd (pieces ds s)) # tl (pieces ds s))"

definition keep :: "string list \<Rightarrow> string list" where
  "keep ps = filter (\<lambda>p. p \<noteq> []) (butlast ps) @ [last ps]"

definition kept_pieces :: "string \<Rightarrow> string \<Rightarrow> string list" where
  "kept_pieces s ds = keep (pieces ds s)"

lemma pieces_nonempty [simp]: "pieces ds s \<noteq> []"
  by (cases s) auto

lemma pieces_no_delim: "(\<And>c. c \<in> set s \<Longrightarrow> c \<notin> set ds) \<Longrightarrow> pieces ds s = [s]"
  by (induction s) auto

lemma pieces_delim:
  "(\<And>c. c \<in> set p \<Longrightarrow> c \<notin> set ds) \<Longrightarrow> d \<in> set ds \<Longrightarrow>
   pieces ds (p @ d # s) = p # pieces ds s"
  by (induction p) auto

lemma keep_single [simp]: "keep [p] = [p]"
  by (simp add: keep_def)

lemma keep_Cons: "ps \<noteq> [] \<Longrightarrow> keep (p # ps) = (if p = [] then keep ps else p # keep ps)"
  by (simp add: keep_def)

lemma pieces_delim_free: "p \<in> set (pieces ds s) \<Longrightarrow> c \<in> set p \<Longrightarrow> c \<notin> set ds"
proof (induction s arbitrary: p)
  case (Cons a s)
  have "hd (pieces ds s) \<in> set (pieces ds s)" by simp
  moreover have "q \<in> set (tl (pieces ds s)) \<Longrightarrow> q \<in> set (pieces ds s)" for q
    by (rule list.set_sel(2)) simp_all
  ultimately show ?case
    using Cons.prems Cons.IH [of p] Cons.IH [of "hd (pieces ds s)"]
    by (cases "a \<in> set ds") auto
qed simp

lemma SplitString_loop_eq:
  "first \<le> length s \<Longrightarrow>
   SplitString_loop s ds first result = result @ keep (pieces ds (drop first s))"
proof (induction s ds first result rule: SplitString_loop.induct)
  case (1 s ds first result)
  let ?t = "drop first s"
  let ?p = "takeWhile (\<lambda>c. c \<notin> set ds) ?t"
  have p: "\<And>c. c \<in> set ?p \<Longrightarrow> c \<notin> set ds" by (auto dest: set_takeWhileD)
  show ?case
  proof (cases "find_first_of s ds first")
    case None
    then have "length ?t \<le> length ?p" using "1.prems" by (auto simp: find_first_of_def Let_def split: if_splits)
    then have "?p = ?t" by (metis append_take_drop_id le_antisym length_takeWhile_le takeWhile_eq_take take_all)
    then have "pieces ds ?t = [?t]" using p by (metis pieces_no_delim)
    then show ?thesis using "1.prems" None by (subst SplitString_loop.simps) simp
  next
    case (Some second)
    then have sec: "second = first + length ?p" and lt: "second < length s"
      by (auto simp: find_first_of_def Let_def split: if_splits)
    have "?p = take (second - first) ?t" unfolding sec by (subst takeWhile_eq_take) simp
    moreover have "length ?p < length ?t" using sec lt by simp
    from nth_length_takeWhile [OF this] have d: "s ! second \<in> set ds"
      unfolding sec using "1.prems" by simp
    have "?t = ?p @ s ! second # drop (second + 1) s"
    proof -
      have "?t = take (length ?p) ?t @ drop second s"
        using append_take_drop_id [of "length ?p" ?t] by (simp add: sec add.commute)
      then have "?t = ?p @ drop second s" by (metis takeWhile_eq_take)
      moreover have "drop second s = s ! second # drop (second + 1) s"
        using Cons_nth_drop_Suc [OF lt] by simp
      ultimately show ?thesis by simp
    qed
    then have "pieces ds ?t = ?p # pieces ds (drop (second + 1) s)"
      using pieces_delim [OF p d] by metis
    moreover have "?p = [] \<longleftrightarrow> first = second" using sec by auto
    ultimately show ?thesis
      using "1.IH" [OF "1.prems" Some] "1.prems" Some lt
      by (subst SplitString_loop.simps) (simp add: keep_Cons)
  qed
qed

lemma SplitString_kept_pieces: "SplitString s ds = kept_pieces s ds"
  by (simp add: SplitString_def kept_pieces_def SplitString_loop_eq)

subsection \<open>What callers rely on\<close>

text \<open>There is always a first token, so the unchecked \<open>tokens[0]\<close> of the callers is safe.\<close>

lemma SplitString_nonempty [simp]: "SplitString s ds \<noteq> []"
  by (simp add: SplitString_kept_pieces kept_pieces_def keep_def)

lemma SplitString_delim_free:
  "t \<in> set (SplitString s ds) \<Longrightarrow> c \<in> set t \<Longrightarrow> c \<notin> set ds"
proof -
  assume t: "t \<in> set (SplitString s ds)" and c: "c \<in> set t"
  have "t \<in> set (pieces ds s)"
    using t by (auto simp: SplitString_kept_pieces kept_pieces_def keep_def dest: in_set_butlastD)
  then show "c \<notin> set ds" using c by (rule pieces_delim_free)
qed

lemma SplitString_inner_nonempty:
  "t \<in> set (butlast (SplitString s ds)) \<Longrightarrow> t \<noteq> []"
  by (auto simp: SplitString_kept_pieces kept_pieces_def keep_def)

text \<open>Words joined by one delimiter split into the same words.\<close>

fun join :: "char \<Rightarrow> string list \<Rightarrow> string" where
  "join d [] = []"
| "join d [w] = w"
| "join d (w # v # ws) = w @ d # join d (v # ws)"

definition is_word :: "string \<Rightarrow> string \<Rightarrow> bool" where
  "is_word ds w \<longleftrightarrow> w \<noteq> [] \<and> (\<forall>c \<in> set w. c \<notin> set ds)"

lemma pieces_join:
  "d \<in> set ds \<Longrightarrow> \<forall>w \<in> set ws. is_word ds w \<Longrightarrow> ws \<noteq> [] \<Longrightarrow> pieces ds (join d ws) = ws"
  by (induction d ws rule: join.induct) (auto simp: is_word_def pieces_no_delim pieces_delim)

lemma SplitString_join:
  assumes "d \<in> set ds" and "\<forall>w \<in> set ws. is_word ds w" and "ws \<noteq> []"
  shows "SplitString (join d ws) ds = ws"
proof -
  have "filter (\<lambda>p. p \<noteq> []) (butlast ws) = butlast ws"
    using assms(2) by (auto simp: filter_id_conv is_word_def dest: in_set_butlastD)
  then show ?thesis
    using assms by (simp add: SplitString_kept_pieces kept_pieces_def keep_def pieces_join)
qed

lemma SplitString_no_delim: "(\<And>c. c \<in> set s \<Longrightarrow> c \<notin> set ds) \<Longrightarrow> SplitString s ds = [s]"
  by (simp add: SplitString_kept_pieces kept_pieces_def pieces_no_delim)

end
