(* ===== verification/MpsCommands.thy ===== *)
theory MpsCommands
  imports MpsDevice StringUtils
begin

section \<open>Mps::ParseCommands: the scanner's command language\<close>

text \<open>
  One definition per command of \<open>mps::Mps::ParseCommands\<close>, in the code's order, and
  \<open>ParseCommands\<close> itself, which splits the line into tokens and tries the commands one
  after the other. The result is the answer text, the new device, the thread's \<open>errno\<close>
  (\<open>True\<close> for \<open>ERANGE\<close>; only \<open>strtoul\<close> in \<open>SET SIM\<close> changes it here) and the
  callback events; or undefined behaviour. A group of commands returns \<open>None\<close> when no
  command of the group matches and the code falls through to the next group.
\<close>

text \<open>From the file VERSION, through cmake/version.h.in.\<close>

definition MPS_EMULATOR_VERSION_STRING :: string where
  "MPS_EMULATOR_VERSION_STRING = ''0.2.1-dev''"

type_synonym ('g, 'd) answer = "ub + string \<times> ('g, 'd) mps \<times> bool \<times> device_event list"

definition reply :: "string \<Rightarrow> ('g, 'd) mps \<Rightarrow> bool \<Rightarrow> ('g, 'd) answer" where
  "reply s m errno = Inr (s @ prompt, m, errno, [])"

definition set_cfg :: "(mps_config \<Rightarrow> mps_config) \<Rightarrow> ('g, 'd) mps \<Rightarrow> ('g, 'd) mps" where
  "set_cfg f m = m\<lparr>m_cfg := f (m_cfg m)\<rparr>"

subsection \<open>SET\<close>

definition set_rate :: "string \<Rightarrow> string list \<Rightarrow> bool \<Rightarrow> ('g, 'd) mps \<Rightarrow> ('g, 'd) answer" where
  "set_rate cmd tokens errno m =
     (if length tokens < 3
      then reply ''Invalid Command: `SET RATE` requires at least 1 arguments: SET RATE <rate>'' m errno
      else
        let m1 = (case sscanf_f (c_str (tokens ! 2)) of
                    None \<Rightarrow> m
                  | Some x \<Rightarrow> set_cfg (\<lambda>c. c\<lparr>scan_rate_hz := x\<rparr>) m)
        in bind_ub (UpdateScanAverages m1) (\<lambda>m2. reply cmd m2 errno))"

definition set_fps :: "string \<Rightarrow> string list \<Rightarrow> bool \<Rightarrow> ('g, 'd) mps \<Rightarrow> ('g, 'd) answer" where
  "set_fps cmd tokens errno m =
     (if length tokens < 3
      then reply ''Invalid Command: `SET FPS` requires 1 argument: SET FPS <fps>'' m errno
      else case sscanf_d 32 (c_str (tokens ! 2)) of
             Scan_Fail \<Rightarrow> reply cmd m errno
           | Scan_Undefined \<Rightarrow> Inl Unrepresentable
           | Scan_Ok v \<Rightarrow> reply cmd (set_cfg (\<lambda>c. c\<lparr>frames_per_scan := word_of_int v\<rparr>) m) errno)"

text \<open>
  \<open>SET ENUDP\<close> and \<open>SET ENFTP\<close> scan into an uninitialised local variable and then read it,
  whether or not the scan succeeded.
\<close>

definition set_enudp :: "string \<Rightarrow> string list \<Rightarrow> bool \<Rightarrow> ('g, 'd) mps \<Rightarrow> ('g, 'd) answer" where
  "set_enudp cmd tokens errno m =
     (if length tokens < 3
      then reply ''Invalid Command: `SET ENUDP` requires 1 argument: SET ENUDP <0 or 1>'' m errno
      else case sscanf_d 32 (c_str (tokens ! 2)) of
             Scan_Fail \<Rightarrow> Inl Indeterminate_Read
           | Scan_Undefined \<Rightarrow> Inl Unrepresentable
           | Scan_Ok v \<Rightarrow> reply cmd (set_cfg (\<lambda>c. c\<lparr>udp_enabled := (v \<noteq> 0)\<rparr>) m) errno)"

definition set_enftp :: "string \<Rightarrow> string list \<Rightarrow> bool \<Rightarrow> ('g, 'd) mps \<Rightarrow> ('g, 'd) answer" where
  "set_enftp cmd tokens errno m =
     (if length tokens < 3
      then reply ''Invalid Command: `SET FTP` requires 1 argument: SET ENUDP <0 or 1>'' m errno
      else case sscanf_d 32 (c_str (tokens ! 2)) of
             Scan_Fail \<Rightarrow> Inl Indeterminate_Read
           | Scan_Undefined \<Rightarrow> Inl Unrepresentable
           | Scan_Ok v \<Rightarrow> reply cmd (set_cfg (\<lambda>c. c\<lparr>ftp_enabled := (v \<noteq> 0)\<rparr>) m) errno)"

text \<open>The port is scanned with \<open>%hd\<close>, a signed 16-bit conversion.\<close>

definition set_ipudp :: "string \<Rightarrow> string list \<Rightarrow> bool \<Rightarrow> ('g, 'd) mps \<Rightarrow> ('g, 'd) answer" where
  "set_ipudp cmd tokens errno m =
     (if length tokens < 4
      then reply ''Invalid Command: `SET IPUDP` requires 2 argument: SET IPUDP <ip> <port>'' m errno
      else
        let m1 = set_cfg (\<lambda>c. c\<lparr>udp_target_ip := tokens ! 2\<rparr>) m
        in case sscanf_d 16 (c_str (tokens ! 3)) of
             Scan_Fail \<Rightarrow> reply cmd m1 errno
           | Scan_Undefined \<Rightarrow> Inl Unrepresentable
           | Scan_Ok v \<Rightarrow> reply cmd (set_cfg (\<lambda>c. c\<lparr>udp_target_port := word_of_int v\<rparr>) m1) errno)"

text \<open>
  The loop of \<open>SET FORMAT\<close> over the pairs after the first two tokens: an error message, if
  any, and the configuration as the pairs before the error left it.
\<close>

fun set_format_loop :: "mps_protocol \<Rightarrow> string list \<Rightarrow> mps_config \<Rightarrow> string option \<times> mps_config" where
  "set_format_loop P [] cfg = (None, cfg)"
| "set_format_loop P [x] cfg =
     (Some ''Invalid Command: `SET FORMAT` requires argument pairs: e.g. SET FORMAT F <format>'', cfg)"
| "set_format_loop P (x # y # rest) cfg =
     (let (ok, cfg1) = SetDataFormat P (char0 x) (char0 y) cfg
      in if ok then set_format_loop P rest cfg1
         else (Some (''Invalid Command: SET FORMAT '' @ x @ '' '' @ y), cfg1))"

definition set_format :: "mps_protocol \<Rightarrow> string list \<Rightarrow> bool \<Rightarrow> ('g, 'd) mps \<Rightarrow> ('g, 'd) answer" where
  "set_format P tokens errno m =
     (let (err, cfg) = set_format_loop P (drop 2 tokens) (m_cfg m); m1 = set_cfg (\<lambda>_. cfg) m
      in case err of
           Some e \<Rightarrow> reply e m1 errno
         | None \<Rightarrow> reply (''SET FORMAT'' @ BuildDataFormatResponse P cfg) m1 errno)"

definition set_units :: "mps_protocol \<Rightarrow> string \<Rightarrow> string list \<Rightarrow> bool \<Rightarrow> ('g, 'd) mps
    \<Rightarrow> ('g, 'd) answer" where
  "set_units P cmd tokens errno m =
     (if length tokens < 3
      then reply ''Invalid Command: `SET UNITS` requires 1 argument: SET UNITS <UNIT>'' m errno
      else
        let (ok, u) = mps_units_from_string P (c_str (tokens ! 2)) (units (m_cfg m));
            m1 = set_cfg (\<lambda>c. c\<lparr>units := u\<rparr>) m
        in if ok then reply cmd m1 errno
           else reply (''Invalid Command: SET UNITS '' @ tokens ! 2 @ '' (case sensitive)'') m1 errno)"

text \<open>
  \<open>SET SIM\<close> reads \<open>errno\<close> after \<open>strtoul\<close> without having cleared it before: a value left
  by an earlier call is taken for this call's.
\<close>

definition set_sim :: "string \<Rightarrow> string list \<Rightarrow> bool \<Rightarrow> ('g, 'd) mps \<Rightarrow> ('g, 'd) answer" where
  "set_sim cmd tokens errno m =
     (if length tokens < 3
      then reply ''Invalid Command: `SET SIM` requires 1 argument: SET SIM <SIM>'' m errno
      else
        let s = c_str (tokens ! 2); (value, rest, range) = strtoul0 s; errno1 = (errno \<or> range)
        in if rest = s
           then reply ''Invalid Command: `SET SIM` requires 1 argument: SET SIM <SIM>'' m errno1
           else if rest \<noteq> [] then reply (''Invalid Command: `SET SIM`'' @ cmd) m errno1
           else if errno1 \<or> 65535 < value
           then reply (''Invalid Command: '' @ cmd @ '' Value out of range [0-65535]'') m errno1
           else reply cmd (set_cfg (\<lambda>c. c\<lparr>sim := uint (of_nat value :: u16)\<rparr>) m) errno1)"

definition parse_set :: "mps_protocol \<Rightarrow> string \<Rightarrow> string list \<Rightarrow> bool \<Rightarrow> ('g, 'd) mps
    \<Rightarrow> ('g, 'd) answer option" where
  "parse_set P cmd tokens errno m =
     (if length tokens < 2
      then Some (reply ''Invalid Command: `SET` requires arguments'' m errno)
      else
        let t = tokens ! 1
        in if t \<in> {''RATE'', ''rate''} then Some (set_rate cmd tokens errno m)
           else if t \<in> {''FPS'', ''fps''} then Some (set_fps cmd tokens errno m)
           else if t \<in> {''ENUDP'', ''enudp''} then Some (set_enudp cmd tokens errno m)
           else if t \<in> {''ENFTP'', ''ENFTP''} then Some (set_enftp cmd tokens errno m)
           else if t \<in> {''IPUDP'', ''ipudp''} then Some (set_ipudp cmd tokens errno m)
           else if t \<in> {''FORMAT'', ''format''} then Some (set_format P tokens errno m)
           else if t \<in> {''UNITS'', ''units''} then Some (set_units P cmd tokens errno m)
           else if t \<in> {''SIM'', ''sim''} then Some (set_sim cmd tokens errno m)
           else None)"

subsection \<open>GET\<close>

definition units_text :: "mps_protocol \<Rightarrow> mps_config \<Rightarrow> string" where
  "units_text P cfg =
     ''SET UNITS '' @ mps_units_to_string P (units cfg) @ '' '' @
     show_float (mps_units_conversion_factor P (units cfg))"

definition parse_get :: "mps_protocol \<Rightarrow> string list \<Rightarrow> bool \<Rightarrow> ('g, 'd) mps
    \<Rightarrow> ('g, 'd) answer option" where
  "parse_get P tokens errno m =
     (if length tokens < 2
      then Some (reply ''Invalid Command: `GET` requires arguments'' m errno)
      else
        let t = tokens ! 1; cfg = m_cfg m
        in if t \<in> {''SN'', ''sn''}
           then Some (reply (''SET SN '' @ show_nat (unat (serial_number cfg))) m errno)
           else if t \<in> {''RATE'', ''rate''}
           then Some (reply (''SET RATE '' @ show_float (scan_rate_hz cfg)) m errno)
           else if t \<in> {''UNITS'', ''units''} then Some (reply (units_text P cfg) m errno)
           else if t \<in> {''FPS'', ''fps''}
           then Some (reply (''SET FPS '' @ show_nat (unat (frames_per_scan cfg))) m errno)
           else None)"

subsection \<open>LIST\<close>

definition list_s :: "mps_protocol \<Rightarrow> mps_config \<Rightarrow> string" where
  "list_s P cfg =
     ''SET RATE '' @ show_float (scan_rate_hz cfg) @ crlf @
     ''SET FPS '' @ show_nat (unat (frames_per_scan cfg)) @ crlf @
     units_text P cfg @ crlf @
     ''SET FORMAT'' @ BuildDataFormatResponse P cfg @ crlf @
     ''SET TRIG 0 '' @ crlf @
     ''SET ENFTP '' @ show_bool (ftp_enabled cfg) @ '' '' @ crlf @ ''>''"

definition list_udp :: "mps_config \<Rightarrow> string" where
  "list_udp cfg =
     ''SET ENUDP '' @ show_bool (udp_enabled cfg) @ crlf @
     ''SET IPUDP '' @ udp_target_ip cfg @ '' '' @ show_nat (unat (udp_target_port cfg)) @ crlf @ ''>''"

definition list_m :: "mps_config \<Rightarrow> string" where
  "list_m cfg =
     ''SET SIM '' @ show_nat (unat (word_of_int (sim cfg) :: u16)) @ crlf @
     ''SET ECHO 1'' @ crlf @ ''SET XITE 2'' @ crlf @ ''SET ETOL 0'' @ crlf @ ''>''"

definition parse_list :: "mps_protocol \<Rightarrow> string list \<Rightarrow> bool \<Rightarrow> ('g, 'd) mps
    \<Rightarrow> ('g, 'd) answer option" where
  "parse_list P tokens errno m =
     (if length tokens < 2
      then Some (reply ''Invalid Command: `LIST` requires arguments'' m errno)
      else
        let t = tokens ! 1; cfg = m_cfg m
        in if t \<in> {''S'', ''s''} then Some (Inr (list_s P cfg, m, errno, []))
           else if t \<in> {''UDP'', ''udp''} then Some (Inr (list_udp cfg, m, errno, []))
           else if t \<in> {''M'', ''m''} then Some (Inr (list_m cfg, m, errno, []))
           else None)"

subsection \<open>The dispatcher\<close>

definition invalid_command :: "string \<Rightarrow> ('g, 'd) mps \<Rightarrow> bool \<Rightarrow> ('g, 'd) answer" where
  "invalid_command cmd m errno = reply (''Invalid Command: `'' @ cmd @ ''`'') m errno"

definition command_delims :: string where
  "command_delims = [CHR '' '', CR, LF]"

definition parse_action :: "mps_protocol \<Rightarrow> ('g, 'd) random_lib \<Rightarrow> int \<Rightarrow> int \<Rightarrow> string
    \<Rightarrow> bool \<Rightarrow> ('g, 'd) mps \<Rightarrow> ('g, 'd) answer option" where
  "parse_action P R now_sys now_steady t errno m =
     (if t \<in> {''VER'', ''ver'', ''VERSION'', ''version''}
      then Some (reply (''Aiolos (c) MPS Emulator v'' @ MPS_EMULATOR_VERSION_STRING @
                        '': Emulating Scanivalve Firmware v'' @ MPS_FIRMWARE_VERSION_STRING P) m errno)
      else if t \<in> {''STATUS'', ''status''}
      then Some (reply (''STATUS: '' @ GetStatusStr P m) m errno)
      else if t \<in> {''CALZ'', ''calz''}
      then Some (let (m1, ev) = CalZ P m in Inr ([], m1, errno, ev))
      else if t \<in> {''SCAN'', ''scan''}
      then Some (bind_ub (StartScan P R now_sys now_steady m)
             (\<lambda>(m1, ev). Inr (''Scan started ..'', m1, errno, ev)))
      else if t \<in> {''STOP'', ''stop''} \<or> char0 t = ESC
      then Some (let (m1, ev) = StopScan P m in Inr ([], m1, errno, ev))
      else None)"

definition parse_tokens :: "mps_protocol \<Rightarrow> ('g, 'd) random_lib \<Rightarrow> int \<Rightarrow> int \<Rightarrow> string
    \<Rightarrow> string list \<Rightarrow> bool \<Rightarrow> ('g, 'd) mps \<Rightarrow> ('g, 'd) answer" where
  "parse_tokens P R now_sys now_steady cmd tokens errno m =
     (let t = tokens ! 0
      in case first_some
           [parse_action P R now_sys now_steady t errno m,
            if t \<in> {''SET'', ''set''} then parse_set P cmd tokens errno m else None,
            if t \<in> {''GET'', ''get''} then parse_get P tokens errno m else None,
            if t \<in> {''LIST'', ''list''} then parse_list P tokens errno m else None]
         of Some r \<Rightarrow> r
          | None \<Rightarrow> invalid_command cmd m errno)"

definition ParseCommands :: "mps_protocol \<Rightarrow> ('g, 'd) random_lib \<Rightarrow> int \<Rightarrow> int \<Rightarrow> string
    \<Rightarrow> bool \<Rightarrow> ('g, 'd) mps \<Rightarrow> ('g, 'd) answer" where
  "ParseCommands P R now_sys now_steady cmd errno m =
     parse_tokens P R now_sys now_steady cmd (SplitString cmd command_delims) errno m"

subsection \<open>Commands as lists of words\<close>

text \<open>A command line is its words with single spaces between them.\<close>

abbreviation words :: "string list \<Rightarrow> string" where
  "words ws \<equiv> join (CHR '' '') ws"

lemma command_delims_set: "set command_delims = {CHR '' '', CR, LF}"
  by (simp add: command_delims_def)

lemma ParseCommands_words:
  assumes "ws \<noteq> []" and "\<forall>w \<in> set ws. is_word command_delims w"
  shows "ParseCommands P R now_sys now_steady (words ws) errno m =
         parse_tokens P R now_sys now_steady (words ws) ws errno m"
  using assms by (simp add: ParseCommands_def SplitString_join command_delims_set)

lemma is_word_show_nat: "is_word command_delims (show_nat n)"
  by (auto simp: is_word_def command_delims_set dest!: show_nat_digits dest: digit_chars)

lemma c_str_show_nat [simp]: "c_str (show_nat n) = show_nat n"
  by (rule c_str_id) (auto dest!: show_nat_digits dest: digit_chars)

lemma literal_words [simp]:
  "is_word command_delims ''SET''" "is_word command_delims ''GET''" "is_word command_delims ''LIST''"
  "is_word command_delims ''RATE''" "is_word command_delims ''FPS''" "is_word command_delims ''SIM''"
  "is_word command_delims ''IPUDP''" "is_word command_delims ''UDP''" "is_word command_delims ''M''"
  "is_word command_delims ''ENUDP''" "is_word command_delims ''ENFTP''"
  "is_word command_delims ''enftp''" "is_word command_delims ''set''"
  "is_word command_delims ''FORMAT''"
  by (simp_all add: is_word_def command_delims_set char_defs)

lemmas dispatch = parse_tokens_def parse_action_def parse_set_def parse_get_def parse_list_def
  Let_def char0_def char_defs

lemma set_cfg_simps [simp]:
  "m_cfg (set_cfg f m) = f (m_cfg m)" "m_Name (set_cfg f m) = m_Name m"
  "m_Status (set_cfg f m) = m_Status m" "m_Scanning (set_cfg f m) = m_Scanning m"
  "m_Running (set_cfg f m) = m_Running m" "m_Calibrating (set_cfg f m) = m_Calibrating m"
  by (simp_all add: set_cfg_def)

subsection \<open>Round trips: what SET stores, GET and LIST print\<close>

lemma set_rate_nat:
  assumes n: "0 < n" "n < 2 ^ 24"
  shows "\<exists>k. ParseCommands P R t1 t2 (words [''SET'', ''RATE'', show_nat n]) errno m =
           Inr (words [''SET'', ''RATE'', show_nat n] @ prompt,
                set_cfg (\<lambda>c. c\<lparr>scan_rate_hz := Num False (of_nat n)\<rparr>) m\<lparr>m_nSubFrameAverages := k\<rparr>,
                errno, [])"
proof -
  let ?m = "set_cfg (\<lambda>c. c\<lparr>scan_rate_hz := Num False (of_nat n)\<rparr>) m"
  obtain k where "UpdateScanAverages ?m = Inr (?m\<lparr>m_nSubFrameAverages := k\<rparr>)"
    using UpdateScanAverages_whole [of ?m n] n by simp
  then have "set_rate (words [''SET'', ''RATE'', show_nat n]) [''SET'', ''RATE'', show_nat n] errno m =
      reply (words [''SET'', ''RATE'', show_nat n]) (?m\<lparr>m_nSubFrameAverages := k\<rparr>) errno"
    using n by (simp add: set_rate_def sscanf_f_show_nat fl_nat32)
  then show ?thesis
    by (subst ParseCommands_words)
      (auto simp: is_word_show_nat dispatch reply_def simp del: join.simps)
qed

lemma set_rate_zero:
  "ParseCommands P R t1 t2 (words [''SET'', ''RATE'', show_nat 0]) e m = Inl Unrepresentable"
proof -
  let ?m = "set_cfg (\<lambda>c. c\<lparr>scan_rate_hz := Num False 0\<rparr>) m"
  have "fl binary32 False 0 = Num False 0" using fl_nat32 [of 0 False] by simp
  moreover have "UpdateScanAverages ?m = Inl Unrepresentable"
    by (rule UpdateScanAverages_undefined [of _ False]) simp
  ultimately have "set_rate c [''SET'', ''RATE'', show_nat 0] e m = Inl Unrepresentable" for c
    by (simp add: set_rate_def sscanf_f_show_nat)
  then show ?thesis
    by (subst ParseCommands_words)
      (auto simp: is_word_show_nat dispatch simp del: join.simps)
qed

lemma set_fps_nat:
  assumes "n < 2 ^ 31"
  shows "ParseCommands P R t1 t2 (words [''SET'', ''FPS'', show_nat n]) errno m =
           Inr (words [''SET'', ''FPS'', show_nat n] @ prompt,
                set_cfg (\<lambda>c. c\<lparr>frames_per_scan := of_nat n\<rparr>) m, errno, [])"
  using assms sscanf_d_show_nat [of n 32]
  by (subst ParseCommands_words)
    (auto simp: is_word_show_nat dispatch reply_def set_fps_def simp del: join.simps)

lemma set_ipudp_nat:
  assumes "is_word command_delims ip" and "n < 2 ^ 15"
  shows "ParseCommands P R t1 t2 (words [''SET'', ''IPUDP'', ip, show_nat n]) errno m =
           Inr (words [''SET'', ''IPUDP'', ip, show_nat n] @ prompt,
                set_cfg (\<lambda>c. c\<lparr>udp_target_ip := ip, udp_target_port := of_nat n\<rparr>) m, errno, [])"
  using assms sscanf_d_show_nat [of n 16]
  by (subst ParseCommands_words)
    (auto simp: is_word_show_nat dispatch reply_def set_ipudp_def set_cfg_def simp del: join.simps)

lemma hd_show_nat_nonzero: "0 < n \<Longrightarrow> hd (show_nat n) \<noteq> CHR ''0''"
proof (induction n rule: show_nat.induct)
  case (1 n)
  show ?case
  proof (cases "n < 10")
    case True
    have "digit_val (digit_char n) \<noteq> digit_val (digit_char 0)"
      using "1.prems" True by (simp add: digit_val_char)
    then show ?thesis using True by (auto simp: show_nat.simps [of n] digit_char_0)
  next
    case False
    then show ?thesis using "1.IH" by (simp add: show_nat.simps [of n])
  qed
qed

lemma strtoul0_show_nat:
  assumes "n \<le> ULONG_MAX" shows "strtoul0 (show_nat n) = (n, [], False)"
proof (cases "n = 0")
  case True
  then show ?thesis
    by (simp add: show_nat.simps [of 0] digit_char_0 strtoul0_def is_space_def take_sign_def
        is_digit_def digit_val_def ord_of_def base_val_def ULONG_MAX_def)
next
  case False
  then have "hd (show_nat n) \<noteq> CHR ''0''" by (simp add: hd_show_nat_nonzero)
  moreover have "(case show_nat n of a # b # c # _ \<Rightarrow>
      a = CHR ''0'' \<and> to_lower b = CHR ''x'' \<and> is_digit 16 c | _ \<Rightarrow> False) = False"
    using calculation by (auto split: list.splits)
  ultimately show ?thesis using assms
    by (simp add: strtoul0_def skip_space_digit take_sign_digit hd_show_nat Let_def)
qed

lemma strtoul0_show_nat_large:
  assumes "ULONG_MAX < n" shows "strtoul0 (show_nat n) = (ULONG_MAX, [], True)"
proof -
  have "hd (show_nat n) \<noteq> CHR ''0''" using assms by (simp add: hd_show_nat_nonzero)
  moreover have "(case show_nat n of a # b # c # _ \<Rightarrow>
      a = CHR ''0'' \<and> to_lower b = CHR ''x'' \<and> is_digit 16 c | _ \<Rightarrow> False) = False"
    using calculation by (auto split: list.splits)
  ultimately show ?thesis using assms
    by (simp add: strtoul0_def skip_space_digit take_sign_digit hd_show_nat Let_def)
qed

lemma set_sim_nat:
  assumes "n < 2 ^ 16"
  shows "ParseCommands P R t1 t2 (words [''SET'', ''SIM'', show_nat n]) False m =
           Inr (words [''SET'', ''SIM'', show_nat n] @ prompt,
                set_cfg (\<lambda>c. c\<lparr>sim := int n\<rparr>) m, False, [])"
proof -
  have "strtoul0 (show_nat n) = (n, [], False)"
    using assms by (intro strtoul0_show_nat) (simp add: ULONG_MAX_def)
  moreover have "uint (of_nat n :: u16) = int n"
    using assms by (simp add: unsigned_of_nat take_bit_nat_eq_self_iff)
  ultimately show ?thesis using assms
    by (subst ParseCommands_words)
      (auto simp: is_word_show_nat dispatch reply_def set_sim_def simp del: join.simps)
qed

text \<open>
  Property C27: \<open>SET RATE\<close> and \<open>GET RATE\<close> agree: after setting a whole number of hertz
  below one million the device answers with the same number, although the value went
  through decimal input, a binary float and decimal output.
\<close>

theorem set_get_rate:
  assumes "0 < n" and "n < 10 ^ 6"
  shows "\<exists>m'. ParseCommands P R t1 t2 (words [''SET'', ''RATE'', show_nat n]) errno m =
                Inr (words [''SET'', ''RATE'', show_nat n] @ prompt, m', errno, []) \<and>
              ParseCommands P R t3 t4 (words [''GET'', ''RATE'']) errno m' =
                Inr (words [''SET'', ''RATE'', show_nat n] @ prompt, m', errno, [])"
proof -
  from set_rate_nat [of n P R t1 t2 errno m] assms obtain k where
    "ParseCommands P R t1 t2 (words [''SET'', ''RATE'', show_nat n]) errno m =
       Inr (words [''SET'', ''RATE'', show_nat n] @ prompt,
            set_cfg (\<lambda>c. c\<lparr>scan_rate_hz := Num False (of_nat n)\<rparr>) m\<lparr>m_nSubFrameAverages := k\<rparr>,
            errno, [])" by auto
  moreover have "ParseCommands P R t3 t4 (words [''GET'', ''RATE'']) errno
      (set_cfg (\<lambda>c. c\<lparr>scan_rate_hz := Num False (of_nat n)\<rparr>) m\<lparr>m_nSubFrameAverages := k\<rparr>) =
      Inr (words [''SET'', ''RATE'', show_nat n] @ prompt,
           set_cfg (\<lambda>c. c\<lparr>scan_rate_hz := Num False (of_nat n)\<rparr>) m\<lparr>m_nSubFrameAverages := k\<rparr>,
           errno, [])"
    using assms show_float_nat [of n]
    by (subst ParseCommands_words)
      (auto simp: dispatch reply_def simp del: show_float.simps)
  ultimately show ?thesis by blast
qed

theorem set_get_rate_witness:
  "\<exists>m'. ParseCommands sample_protocol sample_random 0 0 (words [''GET'', ''RATE'']) False m' =
     Inr (words [''SET'', ''RATE'', show_nat 850] @ prompt, m', False, [])"
  using set_get_rate [of 850 sample_protocol sample_random 0 0 False
      "sample_device (Num False 10)" 0 0] by auto

text \<open>
  The other numeric settings read back what was set: frames per scan below
  \<open>2 ^ 31\<close> through \<open>GET FPS\<close>, the UDP target with a port below \<open>2 ^ 15\<close> through
  \<open>LIST UDP\<close>, and the 16 SIM bits (with \<open>errno\<close> clear) through \<open>LIST M\<close>.
\<close>

theorem settings_read_back:
  assumes "fps < 2 ^ 31" and "is_word command_delims ip" and "port < 2 ^ 15" and "bits < 2 ^ 16"
  shows "\<exists>m1 m2 m3.
     ParseCommands P R t t (words [''SET'', ''FPS'', show_nat fps]) False m =
       Inr (words [''SET'', ''FPS'', show_nat fps] @ prompt, m1, False, []) \<and>
     ParseCommands P R t t (words [''GET'', ''FPS'']) False m1 =
       Inr (words [''SET'', ''FPS'', show_nat fps] @ prompt, m1, False, []) \<and>
     ParseCommands P R t t (words [''SET'', ''IPUDP'', ip, show_nat port]) False m1 =
       Inr (words [''SET'', ''IPUDP'', ip, show_nat port] @ prompt, m2, False, []) \<and>
     ParseCommands P R t t (words [''LIST'', ''UDP'']) False m2 =
       Inr (''SET ENUDP '' @ show_bool (udp_enabled (m_cfg m)) @ crlf @
            words [''SET'', ''IPUDP'', ip, show_nat port] @ prompt, m2, False, []) \<and>
     ParseCommands P R t t (words [''SET'', ''SIM'', show_nat bits]) False m2 =
       Inr (words [''SET'', ''SIM'', show_nat bits] @ prompt, m3, False, []) \<and>
     ParseCommands P R t t (words [''LIST'', ''M'']) False m3 =
       Inr (words [''SET'', ''SIM'', show_nat bits] @ crlf @ ''SET ECHO 1'' @ crlf @
            ''SET XITE 2'' @ crlf @ ''SET ETOL 0'' @ prompt, m3, False, [])"
proof -
  let ?m1 = "set_cfg (\<lambda>c. c\<lparr>frames_per_scan := of_nat fps\<rparr>) m"
  let ?m2 = "set_cfg (\<lambda>c. c\<lparr>udp_target_ip := ip, udp_target_port := of_nat port\<rparr>) ?m1"
  let ?m3 = "set_cfg (\<lambda>c. c\<lparr>sim := int bits\<rparr>) ?m2"
  have num: "unat (of_nat fps :: u32) = fps" "unat (of_nat port :: u16) = port"
    "unat (of_nat bits :: u16) = bits"
    using assms by (simp_all add: unsigned_of_nat take_bit_nat_eq_self_iff)
  have a: "ParseCommands P R t t (words [''GET'', ''FPS'']) False ?m1 =
      Inr (words [''SET'', ''FPS'', show_nat fps] @ prompt, ?m1, False, [])"
    by (subst ParseCommands_words) (auto simp: dispatch reply_def num)
  have b: "ParseCommands P R t t (words [''LIST'', ''UDP'']) False ?m2 =
      Inr (''SET ENUDP '' @ show_bool (udp_enabled (m_cfg m)) @ crlf @
           words [''SET'', ''IPUDP'', ip, show_nat port] @ prompt, ?m2, False, [])"
    by (subst ParseCommands_words) (auto simp: dispatch list_udp_def num prompt_def crlf_def)
  have c: "ParseCommands P R t t (words [''LIST'', ''M'']) False ?m3 =
      Inr (words [''SET'', ''SIM'', show_nat bits] @ crlf @ ''SET ECHO 1'' @ crlf @
           ''SET XITE 2'' @ crlf @ ''SET ETOL 0'' @ prompt, ?m3, False, [])"
    by (subst ParseCommands_words) (auto simp: dispatch list_m_def num prompt_def crlf_def)
  show ?thesis
    using set_fps_nat [OF assms(1), of P R t t False m]
      set_ipudp_nat [OF assms(2,3), of P R t t False ?m1]
      set_sim_nat [OF assms(4), of P R t t ?m2] a b c by blast
qed

theorem settings_read_back_witness:
  "\<exists>m2. ParseCommands sample_protocol sample_random 0 0 (words [''LIST'', ''UDP'']) False m2 =
     Inr (''SET ENUDP '' @ show_bool (udp_enabled (m_cfg (sample_device (Num False 10)))) @ crlf @
          words [''SET'', ''IPUDP'', ''10.0.0.7'', show_nat 5005] @ prompt, m2, False, [])"
proof -
  have "is_word command_delims ''10.0.0.7''" by (simp add: is_word_def command_delims_set char_defs)
  from settings_read_back [of 300 "''10.0.0.7''" 5005 64 sample_protocol sample_random 0
      "sample_device (Num False 10)", OF _ this] show ?thesis by auto
qed

subsection \<open>What the commands may change\<close>

text \<open>
  A predicate on configurations that every single setting keeps is kept by every command:
  the locale collects the settings \<open>ParseCommands\<close> makes, and its lemmas go through the
  commands once.
\<close>

locale config_invariant =
  fixes P :: mps_protocol and Q :: "mps_config \<Rightarrow> bool"
  assumes Q_rate: "Q c \<Longrightarrow> Q (c\<lparr>scan_rate_hz := x\<rparr>)"
    and Q_fps: "Q c \<Longrightarrow> Q (c\<lparr>frames_per_scan := n\<rparr>)"
    and Q_udp: "Q c \<Longrightarrow> Q (c\<lparr>udp_enabled := b\<rparr>)"
    and Q_ftp: "Q c \<Longrightarrow> Q (c\<lparr>ftp_enabled := b\<rparr>)"
    and Q_ip: "Q c \<Longrightarrow> Q (c\<lparr>udp_target_ip := ip\<rparr>)"
    and Q_port: "Q c \<Longrightarrow> Q (c\<lparr>udp_target_port := port\<rparr>)"
    and Q_units: "Q c \<Longrightarrow> Q (c\<lparr>units := u\<rparr>)"
    and Q_sim: "Q c \<Longrightarrow> Q (c\<lparr>sim := v\<rparr>)"
    and Q_format: "Q c \<Longrightarrow> Q (snd (SetDataFormat P ty fmt c))"
begin

lemma set_format_loop_keeps: "Q c \<Longrightarrow> Q (snd (set_format_loop P ts c))"
proof (induction ts arbitrary: c rule: induct_list012)
  case (3 x y rest)
  then show ?case
    using Q_format [of c "char0 x" "char0 y"]
    by (cases "SetDataFormat P (char0 x) (char0 y) c") (auto simp: Let_def)
qed simp_all

lemma Q_ipudp: "Q c \<Longrightarrow> Q (c\<lparr>udp_target_ip := ip, udp_target_port := port\<rparr>)"
  by (intro Q_ip Q_port)

lemma set_commands_keep:
  assumes "Q (m_cfg m)"
  shows "set_rate cmd ts e m = Inr (s, m', e', ev) \<Longrightarrow> Q (m_cfg m')"
    and "set_fps cmd ts e m = Inr (s, m', e', ev) \<Longrightarrow> Q (m_cfg m')"
    and "set_enudp cmd ts e m = Inr (s, m', e', ev) \<Longrightarrow> Q (m_cfg m')"
    and "set_enftp cmd ts e m = Inr (s, m', e', ev) \<Longrightarrow> Q (m_cfg m')"
    and "set_ipudp cmd ts e m = Inr (s, m', e', ev) \<Longrightarrow> Q (m_cfg m')"
    and "set_format P ts e m = Inr (s, m', e', ev) \<Longrightarrow> Q (m_cfg m')"
    and "set_units P cmd ts e m = Inr (s, m', e', ev) \<Longrightarrow> Q (m_cfg m')"
    and "set_sim cmd ts e m = Inr (s, m', e', ev) \<Longrightarrow> Q (m_cfg m')"
  using assms set_format_loop_keeps [of "m_cfg m" "drop 2 ts"]
  by (auto simp: set_rate_def set_fps_def set_enudp_def set_enftp_def set_ipudp_def
      set_format_def set_units_def set_sim_def reply_def Let_def bind_ub_Inr_iff
      intro: Q_rate Q_fps Q_udp Q_ftp Q_ip Q_ipudp Q_units Q_sim
      dest!: UpdateScanAverages_Inr split: if_splits option.splits scan.splits prod.splits)

end

text \<open>Which group of commands answered.\<close>

lemma parse_tokens_cases:
  fixes P R t1 t2 cmd ts e m
  defines "r \<equiv> parse_tokens P R t1 t2 cmd ts e m"
  obtains (action) "parse_action P R t1 t2 (ts ! 0) e m = Some r"
  | (set) "ts ! 0 \<in> {''SET'', ''set''}" "parse_set P cmd ts e m = Some r"
  | (get) "ts ! 0 \<in> {''GET'', ''get''}" "parse_get P ts e m = Some r"
  | (list) "ts ! 0 \<in> {''LIST'', ''list''}" "parse_list P ts e m = Some r"
  | (invalid) "r = invalid_command cmd m e"
proof -
  define a where "a = parse_action P R t1 t2 (ts ! 0) e m"
  define b where "b = (if ts ! 0 \<in> {''SET'', ''set''} then parse_set P cmd ts e m else None)"
  define c where "c = (if ts ! 0 \<in> {''GET'', ''get''} then parse_get P ts e m else None)"
  define d where "d = (if ts ! 0 \<in> {''LIST'', ''list''} then parse_list P ts e m else None)"
  have r: "r = (case first_some [a, b, c, d] of Some r \<Rightarrow> r | None \<Rightarrow> invalid_command cmd m e)"
    unfolding r_def parse_tokens_def Let_def a_def b_def c_def d_def by (rule refl)
  have "a = Some r \<or> b = Some r \<or> c = Some r \<or> d = Some r \<or> r = invalid_command cmd m e"
  proof (cases "first_some [a, b, c, d]")
    case None
    then show ?thesis by (simp only: r option.case simp_thms)
  next
    case (Some y)
    have "r = y" by (simp only: r Some option.case)
    then show ?thesis using first_some_Some [OF Some] by auto
  qed
  then consider "a = Some r" | "b = Some r" | "c = Some r" | "d = Some r"
    | "r = invalid_command cmd m e" by blast
  then show ?thesis
  proof cases
    case 1 then show ?thesis unfolding a_def by (rule action)
  next
    case 2 then show ?thesis unfolding b_def by (metis set option.distinct(1))
  next
    case 3 then show ?thesis unfolding c_def by (metis get option.distinct(1))
  next
    case 4 then show ?thesis unfolding d_def by (metis list option.distinct(1))
  qed (rule invalid)
qed

lemma parse_action_result:
  assumes "parse_action P R t1 t2 t e m = Some r"
  shows "(\<exists>x. r = reply x m e) \<or>
         r = Inr ([], fst (CalZ P m), e, snd (CalZ P m)) \<or>
         r = bind_ub (StartScan P R t1 t2 m) (\<lambda>x. Inr (''Scan started ..'', fst x, e, snd x)) \<or>
         r = Inr ([], fst (StopScan P m), e, snd (StopScan P m))"
  using assms unfolding parse_action_def Let_def case_prod_beta
  by (simp only: option.inject option.distinct split: if_split_asm)
    ((rule disjI1, rule exI, erule sym) | simp only: simp_thms)+

lemma parse_action_cases:
  assumes "parse_action P R t1 t2 t e m = Some r"
  obtains (told) x where "r = reply x m e"
  | (calz) "r = Inr ([], fst (CalZ P m), e, snd (CalZ P m))"
  | (scan) "r = bind_ub (StartScan P R t1 t2 m) (\<lambda>x. Inr (''Scan started ..'', fst x, e, snd x))"
  | (stop) "r = Inr ([], fst (StopScan P m), e, snd (StopScan P m))"
  using parse_action_result [OF assms] by blast

lemma parse_action_cfg:
  assumes "parse_action P R t1 t2 t e m = Some (Inr (s, m', e', ev))"
  shows "m_cfg m' = m_cfg m \<and> e' = e"
  using assms
proof (cases rule: parse_action_cases)
  case scan
  then obtain m1 ev1 where "StartScan P R t1 t2 m = Inr (m1, ev1)" and "m' = m1" and "e' = e"
    by (cases "StartScan P R t1 t2 m") auto
  then show ?thesis by (simp add: StartScan_cfg)
qed (simp_all add: reply_def)

lemma parse_get_frame:
  "parse_get P ts e m = Some (Inr (s, m', e', ev)) \<Longrightarrow> m' = m \<and> e' = e \<and> ev = []"
  by (auto simp: parse_get_def reply_def Let_def split: if_splits)

lemma parse_list_frame:
  "parse_list P ts e m = Some (Inr (s, m', e', ev)) \<Longrightarrow> m' = m \<and> e' = e \<and> ev = []"
  by (auto simp: parse_list_def reply_def Let_def split: if_splits)

text \<open>The part of the device that the commands of the control group (scan, stop, calz) own.\<close>

definition control :: "('g, 'd) mps \<Rightarrow> int \<times> bool \<times> bool \<times> bool \<times> 'g \<times> 'd \<times> int" where
  "control m = (m_Status m, m_Scanning m, m_Calibrating m, m_Running m, m_RandomGenerator m,
                m_NormalDistribution m, m_ScanStartTime m)"

lemma control_updates [simp]:
  "control (set_cfg f m) = control m" "control (m\<lparr>m_nSubFrameAverages := n\<rparr>) = control m"
  by (simp_all add: control_def set_cfg_def)

lemma set_commands_control:
  "set_rate cmd ts e m = Inr (s, m', e', ev) \<Longrightarrow> control m' = control m \<and> ev = []"
  "set_fps cmd ts e m = Inr (s, m', e', ev) \<Longrightarrow> control m' = control m \<and> ev = []"
  "set_enudp cmd ts e m = Inr (s, m', e', ev) \<Longrightarrow> control m' = control m \<and> ev = []"
  "set_enftp cmd ts e m = Inr (s, m', e', ev) \<Longrightarrow> control m' = control m \<and> ev = []"
  "set_ipudp cmd ts e m = Inr (s, m', e', ev) \<Longrightarrow> control m' = control m \<and> ev = []"
  "set_format P ts e m = Inr (s, m', e', ev) \<Longrightarrow> control m' = control m \<and> ev = []"
  "set_units P cmd ts e m = Inr (s, m', e', ev) \<Longrightarrow> control m' = control m \<and> ev = []"
  "set_sim cmd ts e m = Inr (s, m', e', ev) \<Longrightarrow> control m' = control m \<and> ev = []"
  by (auto simp: set_rate_def set_fps_def set_enudp_def set_enftp_def set_ipudp_def
      set_format_def set_units_def set_sim_def reply_def Let_def bind_ub_Inr_iff
      dest!: UpdateScanAverages_Inr split: if_splits option.splits scan.splits prod.splits)

lemma parse_set_cases:
  assumes "parse_set P cmd ts e m = Some r"
  obtains (short) "r = reply ''Invalid Command: `SET` requires arguments'' m e"
  | (rate) "r = set_rate cmd ts e m" | (fps) "r = set_fps cmd ts e m"
  | (enudp) "r = set_enudp cmd ts e m" | (enftp) "r = set_enftp cmd ts e m"
  | (ipudp) "r = set_ipudp cmd ts e m" | (format) "r = set_format P ts e m"
  | (units) "r = set_units P cmd ts e m" | (sim) "r = set_sim cmd ts e m"
  using assms unfolding parse_set_def Let_def by (auto split: if_splits)

lemma parse_set_control:
  assumes "parse_set P cmd ts e m = Some (Inr (s, m', e', ev))"
  shows "control m' = control m \<and> ev = []"
  using assms
  by (cases rule: parse_set_cases) (simp add: reply_def, (metis set_commands_control)+)

text \<open>
  Property C28: control and configuration are separate. Every command either leaves the whole
  configuration as it was, or leaves the scan state, the status, the calibration flag, the
  random generator and the clock alone and calls no callback.
\<close>

theorem control_or_configuration:
  assumes "ParseCommands P R t1 t2 cmd e m = Inr (s, m', e', ev)"
  shows "m_cfg m' = m_cfg m \<or> (control m' = control m \<and> ev = [])"
  using assms unfolding ParseCommands_def
  by (cases rule: parse_tokens_cases [of P R t1 t2 "SplitString cmd command_delims" e m cmd])
    (auto simp: invalid_command_def reply_def dest: parse_action_cfg parse_set_control
      parse_get_frame parse_list_frame)

theorem control_or_configuration_witness:
  "\<exists>s m' ev.
     ParseCommands sample_protocol sample_random 0 0 (words [''SET'', ''RATE'', show_nat 850]) False
       (sample_device (Num False 10)) = Inr (s, m', False, ev) \<and>
     m_cfg m' \<noteq> m_cfg (sample_device (Num False 10)) \<and>
     control m' = control (sample_device (Num False 10)) \<and> ev = []"
proof -
  let ?m = "sample_device (Num False 10)"
  obtain k where p: "ParseCommands sample_protocol sample_random 0 0
      (words [''SET'', ''RATE'', show_nat 850]) False ?m =
      Inr (words [''SET'', ''RATE'', show_nat 850] @ prompt,
           set_cfg (\<lambda>c. c\<lparr>scan_rate_hz := Num False (of_nat 850)\<rparr>) ?m\<lparr>m_nSubFrameAverages := k\<rparr>,
           False, [])"
    using set_rate_nat [of 850 sample_protocol sample_random 0 0 False ?m] by auto
  have "scan_rate_hz (m_cfg ?m) \<noteq> Num False (of_nat 850)" by simp
  then have "m_cfg (set_cfg (\<lambda>c. c\<lparr>scan_rate_hz := Num False (of_nat 850)\<rparr>) ?m
      \<lparr>m_nSubFrameAverages := k\<rparr>) \<noteq> m_cfg ?m"
    by (auto dest: arg_cong [of _ _ scan_rate_hz])
  with control_or_configuration [OF p] p show ?thesis by blast
qed

context config_invariant
begin

lemma parse_set_keeps:
  assumes "parse_set P cmd ts e m = Some (Inr (s, m', e', ev))" and "Q (m_cfg m)"
  shows "Q (m_cfg m')"
  using assms
  by (cases rule: parse_set_cases) (simp add: reply_def, (metis set_commands_keep)+)

lemma ParseCommands_keeps:
  assumes "ParseCommands P R t1 t2 cmd e m = Inr (s, m', e', ev)" and "Q (m_cfg m)"
  shows "Q (m_cfg m')"
  using assms unfolding ParseCommands_def
  by (cases rule: parse_tokens_cases [of P R t1 t2 "SplitString cmd command_delims" e m cmd])
    (auto simp: invalid_command_def reply_def dest: parse_action_cfg parse_set_keeps
      parse_get_frame parse_list_frame)

end

subsection \<open>Formats and identity\<close>

text \<open>
  What the protocol header documents of the format letters: each letter that the device
  accepts is recognised in either case and prints back as the upper-case letter.
\<close>

definition format_chars_ok :: "mps_protocol \<Rightarrow> bool" where
  "format_chars_ok P \<longleftrightarrow>
     (\<forall>(c, d) \<in> set (zip ''AaBbCcFfLl'' ''AABBCCFFLL''). \<forall>old.
        fst (mps_format_from_char P c old) \<and>
        mps_format_to_char P (snd (mps_format_from_char P c old)) = d)"

definition formats_ok :: "mps_protocol \<Rightarrow> mps_config \<Rightarrow> bool" where
  "formats_ok P c \<longleftrightarrow>
     mps_format_to_char P (telnet_format c) \<in> set ''AFC'' \<and>
     mps_format_to_char P (ftp_udp_format c) \<in> set ''ABC'' \<and>
     mps_format_to_char P (binary_format c) \<in> set ''BL''"

lemma format_from_char_ok:
  assumes "format_chars_ok P"
  shows "c \<in> {CHR ''A'', CHR ''a'', CHR ''F'', CHR ''f'', CHR ''C'', CHR ''c''} \<Longrightarrow>
           mps_format_to_char P (snd (mps_format_from_char P c old)) \<in> set ''AFC''"
    and "c \<in> {CHR ''A'', CHR ''a'', CHR ''B'', CHR ''b'', CHR ''C'', CHR ''c''} \<Longrightarrow>
           mps_format_to_char P (snd (mps_format_from_char P c old)) \<in> set ''ABC''"
    and "c \<in> {CHR ''B'', CHR ''b'', CHR ''L'', CHR ''l''} \<Longrightarrow>
           mps_format_to_char P (snd (mps_format_from_char P c old)) \<in> set ''BL''"
  using assms by (auto simp: format_chars_ok_def)

lemma SetDataFormat_ok:
  assumes "format_chars_ok P" and "formats_ok P c"
  shows "formats_ok P (snd (SetDataFormat P ty fmt c))"
  using assms(2) format_from_char_ok [OF assms(1), of fmt]
  unfolding SetDataFormat_def formats_ok_def Let_def case_prod_beta
  by (simp del: insert_iff list.set)

lemma formats_ok_updates [simp]:
  "formats_ok P (c\<lparr>scan_rate_hz := x\<rparr>) = formats_ok P c"
  "formats_ok P (c\<lparr>frames_per_scan := n\<rparr>) = formats_ok P c"
  "formats_ok P (c\<lparr>udp_enabled := b\<rparr>) = formats_ok P c"
  "formats_ok P (c\<lparr>ftp_enabled := b\<rparr>) = formats_ok P c"
  "formats_ok P (c\<lparr>udp_target_ip := ip\<rparr>) = formats_ok P c"
  "formats_ok P (c\<lparr>udp_target_port := port\<rparr>) = formats_ok P c"
  "formats_ok P (c\<lparr>units := u\<rparr>) = formats_ok P c"
  "formats_ok P (c\<lparr>sim := v\<rparr>) = formats_ok P c"
  by (simp_all add: formats_ok_def)

interpretation fmt: config_invariant P "\<lambda>c. format_chars_ok P \<longrightarrow> formats_ok P c" for P
  by unfold_locales (simp_all add: SetDataFormat_ok)

interpretation ident: config_invariant P "\<lambda>c. device_id c = d \<and> serial_number c = n" for P d n
  by unfold_locales (auto simp: SetDataFormat_def Let_def split: prod.splits)

lemma sample_format_chars_ok: "format_chars_ok sample_protocol"
  by (simp add: format_chars_ok_def sample_protocol_def)

subsection \<open>SET FORMAT is not atomic\<close>

fun apply_formats :: "mps_protocol \<Rightarrow> (string \<times> string) list \<Rightarrow> mps_config \<Rightarrow> mps_config" where
  "apply_formats P [] c = c"
| "apply_formats P ((x, y) # ps) c =
     apply_formats P ps (snd (SetDataFormat P (char0 x) (char0 y) c))"

fun accepted :: "mps_protocol \<Rightarrow> (string \<times> string) list \<Rightarrow> mps_config \<Rightarrow> bool" where
  "accepted P [] c = True"
| "accepted P ((x, y) # ps) c =
     (fst (SetDataFormat P (char0 x) (char0 y) c) \<and>
      accepted P ps (snd (SetDataFormat P (char0 x) (char0 y) c)))"

definition flat :: "('x \<times> 'x) list \<Rightarrow> 'x list" where
  "flat ps = concat (map (\<lambda>(x, y). [x, y]) ps)"

lemma flat_simps [simp]: "flat [] = []" "flat ((x, y) # ps) = x # y # flat ps"
  by (simp_all add: flat_def)

lemma set_format_loop_accepted:
  "accepted P ps c \<Longrightarrow>
   set_format_loop P (flat ps @ rest) c = set_format_loop P rest (apply_formats P ps c)"
  by (induction ps arbitrary: c) (auto simp: Let_def split: prod.splits)

text \<open>
  \<open>SET FORMAT\<close> applies its pairs one by one. When all are accepted the answer
  lists the resulting formats; when one is rejected (or has no partner) the answer is an
  error, and the pairs before it stay applied.
\<close>

theorem set_format_pairs:
  assumes "\<forall>w \<in> set (flat ps) \<union> {x, y}. is_word command_delims w"
    and "accepted P ps (m_cfg m)" and "\<not> fst (SetDataFormat P (char0 x) (char0 y)
           (apply_formats P ps (m_cfg m)))"
  shows "ParseCommands P R t1 t2 (words ([''SET'', ''FORMAT''] @ flat ps)) e m =
           Inr (''SET FORMAT'' @ BuildDataFormatResponse P (apply_formats P ps (m_cfg m)) @ prompt,
                set_cfg (\<lambda>_. apply_formats P ps (m_cfg m)) m, e, []) \<and>
         ParseCommands P R t1 t2 (words ([''SET'', ''FORMAT''] @ flat ps @ [x, y])) e m =
           Inr (''Invalid Command: SET FORMAT '' @ x @ '' '' @ y @ prompt,
                set_cfg (\<lambda>_. snd (SetDataFormat P (char0 x) (char0 y)
                          (apply_formats P ps (m_cfg m)))) m, e, [])"
proof -
  have w1: "\<forall>w \<in> set ([''SET'', ''FORMAT''] @ flat ps). is_word command_delims w"
    and w2: "\<forall>w \<in> set ([''SET'', ''FORMAT''] @ flat ps @ [x, y]). is_word command_delims w"
    using assms(1) by auto
  have l1: "set_format_loop P (flat ps) (m_cfg m) = (None, apply_formats P ps (m_cfg m))"
    using set_format_loop_accepted [OF assms(2), of "[]"] by simp
  have l2: "set_format_loop P (flat ps @ [x, y]) (m_cfg m) =
      (Some (''Invalid Command: SET FORMAT '' @ x @ '' '' @ y),
       snd (SetDataFormat P (char0 x) (char0 y) (apply_formats P ps (m_cfg m))))"
    using set_format_loop_accepted [OF assms(2), of "[x, y]"] assms(3)
    by (auto simp: Let_def split: prod.splits)
  have d: "parse_tokens P R t1 t2 c (''SET'' # ''FORMAT'' # ts) e m =
      set_format P (''SET'' # ''FORMAT'' # ts) e m" for c ts
    by (simp add: dispatch)
  show ?thesis
    by (rule conjI; subst ParseCommands_words)
      (use w1 w2 in \<open>simp_all add: d set_format_def l1 l2 reply_def del: join.simps\<close>)
qed

theorem set_format_pairs_witness:
  "\<exists>m'. ParseCommands sample_protocol sample_random 0 0
           (words [''SET'', ''FORMAT'', ''B'', ''L'', ''F'', ''L'']) False (sample_device (Num False 10)) =
         Inr (''Invalid Command: SET FORMAT F L'' @ prompt, m', False, []) \<and>
         binary_format (m_cfg m') = 2"
proof -
  let ?m = "sample_device (Num False 10)" and ?ps = "[(''B'', ''L'')]"
  have c: "m_cfg ?m = sample_config (Num False 10)" by (simp add: sample_device_def Mps_def)
  have w: "\<forall>w \<in> set (flat ?ps) \<union> {''F'', ''L''}. is_word command_delims w"
    by (simp add: is_word_def command_delims_set char_defs)
  have set: "SetDataFormat sample_protocol (char0 ''B'') (char0 ''L'') (m_cfg ?m) =
      (True, (m_cfg ?m)\<lparr>binary_format := 2\<rparr>)"
    by (simp add: SetDataFormat_def char0_def sample_protocol_def)
  have rej: "SetDataFormat sample_protocol (char0 ''F'') (char0 ''L'') cfg = (False, cfg)" for cfg
    by (simp add: SetDataFormat_def char0_def)
  from set_format_pairs [OF w, of sample_protocol ?m sample_random 0 0 False] show ?thesis
    by (simp add: set rej)
qed

subsection \<open>Exactly these formats\<close>

text \<open>The setting that a format letter is for, and the letters of each.\<close>

definition format_of :: "char \<Rightarrow> mps_config \<Rightarrow> int" where
  "format_of ty c = (if ty = CHR ''T'' then telnet_format c else if ty = CHR ''F'' then ftp_udp_format c else binary_format c)"

definition format_letters :: "(char \<times> char) list" where
  "format_letters = zip ''TTTFFFBB'' ''AFCABCBL''"

lemma set_format_letter:
  assumes "format_chars_ok P" and "(ty, fmt) \<in> set format_letters"
  shows "\<exists>m'. ParseCommands P R t1 t2 (words [''SET'', ''FORMAT'', [ty], [fmt]]) e m =
           Inr (''SET FORMAT'' @ BuildDataFormatResponse P (m_cfg m') @ prompt, m', e, []) \<and>
         mps_format_to_char P (format_of ty (m_cfg m')) = fmt"
proof -
  let ?ts = "[''SET'', ''FORMAT'', [ty], [fmt]]"
  define c where "c = snd (SetDataFormat P ty fmt (m_cfg m))"
  have w: "\<forall>w \<in> set ?ts. is_word command_delims w"
    using assms(2) by (auto simp: format_letters_def is_word_def command_delims_set char_defs)
  have "(fmt, fmt) \<in> set (zip ''AaBbCcFfLl'' ''AABBCCFFLL'')"
    using assms(2) by (auto simp: format_letters_def)
  then have known: "fst (mps_format_from_char P fmt x)" "mps_format_to_char P (snd (mps_format_from_char P fmt x)) = fmt" for x
    using assms(1) unfolding format_chars_ok_def by blast+
  have "(ty, fmt) \<in> {(CHR ''T'', CHR ''A''), (CHR ''T'', CHR ''F''), (CHR ''T'', CHR ''C''), (CHR ''F'', CHR ''A''),
      (CHR ''F'', CHR ''B''), (CHR ''F'', CHR ''C''), (CHR ''B'', CHR ''B''), (CHR ''B'', CHR ''L'')}"
    using assms(2) by (simp add: format_letters_def)
  then have "fst (SetDataFormat P ty fmt (m_cfg m)) \<and> mps_format_to_char P (format_of ty c) = fmt"
    unfolding c_def SetDataFormat_def Let_def case_prod_beta
    by (elim insertE emptyE) (use known in \<open>simp_all add: format_of_def\<close>)
  then have "SetDataFormat P ty fmt (m_cfg m) = (True, c)" "mps_format_to_char P (format_of ty c) = fmt"
    unfolding c_def by (cases "SetDataFormat P ty fmt (m_cfg m)"; simp)+
  moreover from this(1) have "ParseCommands P R t1 t2 (words ?ts) e m =
      Inr (''SET FORMAT'' @ BuildDataFormatResponse P c @ prompt, set_cfg (\<lambda>_. c) m, e, [])"
    by (subst ParseCommands_words)
      (use w in \<open>simp_all add: dispatch set_format_def set_format_loop.simps char0_def reply_def del: join.simps\<close>)
  moreover have "m_cfg (set_cfg (\<lambda>_. c) m) = c" by (simp add: set_cfg_def)
  ultimately show ?thesis by metis
qed

text \<open>
  Property C29: the data formats of the device. Whatever is typed, each channel keeps to the
  formats that the comments of the code name for it: ASCII, VT100 or CSV on Telnet, ASCII,
  binary or CSV on FTP and UDP, binary or LabVIEW on the binary server; and each of these can
  be set, with an answer that names it. So the README is not right about the middle one, for
  which it says that only binary is accepted. No command changes what the device is.
\<close>

theorem commands_keep_formats_and_identity:
  assumes "format_chars_ok P" and "formats_ok P (m_cfg m)"
    and "ParseCommands P R t1 t2 cmd e m = Inr (s, m', e', ev)"
  shows "formats_ok P (m_cfg m') \<and> device_id (m_cfg m') = device_id (m_cfg m) \<and>
         serial_number (m_cfg m') = serial_number (m_cfg m) \<and>
         (\<forall>(ty, fmt) \<in> set format_letters. \<exists>m1.
            ParseCommands P R t1 t2 (words [''SET'', ''FORMAT'', [ty], [fmt]]) e' m' =
              Inr (''SET FORMAT'' @ BuildDataFormatResponse P (m_cfg m1) @ prompt, m1, e', []) \<and>
            mps_format_to_char P (format_of ty (m_cfg m1)) = fmt)"
proof -
  have "\<forall>(ty, fmt) \<in> set format_letters. \<exists>m1.
            ParseCommands P R t1 t2 (words [''SET'', ''FORMAT'', [ty], [fmt]]) e' m' =
              Inr (''SET FORMAT'' @ BuildDataFormatResponse P (m_cfg m1) @ prompt, m1, e', []) \<and>
            mps_format_to_char P (format_of ty (m_cfg m1)) = fmt"
    using set_format_letter [OF assms(1), of _ _ R t1 t2 e' m'] by blast
  then show ?thesis
    using fmt.ParseCommands_keeps [OF assms(3)] ident.ParseCommands_keeps [OF assms(3)] assms(1,2) by blast
qed

theorem commands_keep_formats_and_identity_witness:
  "\<exists>m'. ParseCommands sample_protocol sample_random 0 0 (words [''SET'', ''FPS'', show_nat 7]) False
          (sample_device (Num False 10)) =
          Inr (words [''SET'', ''FPS'', show_nat 7] @ prompt, m', False, []) \<and>
        formats_ok sample_protocol (m_cfg m') \<and> device_id (m_cfg m') = 4264"
proof -
  let ?m = "sample_device (Num False 10)"
  have c: "m_cfg ?m = sample_config (Num False 10)" by (simp add: sample_device_def Mps_def)
  have "formats_ok sample_protocol (m_cfg ?m)"
    unfolding c by (simp add: formats_ok_def sample_config_def sample_protocol_def)
  from commands_keep_formats_and_identity [OF sample_format_chars_ok this
      set_fps_nat [of 7 sample_protocol sample_random 0 0 False ?m]]
  show ?thesis using set_fps_nat [of 7 sample_protocol sample_random 0 0 False ?m]
    by (simp add: c sample_config_def)
qed

subsection \<open>Commands that are not defined, and sticky errors\<close>

lemma set_sim_defined: "set_sim cmd ts e m \<noteq> Inl u"
  by (auto simp: set_sim_def reply_def Let_def split: prod.splits)

lemma set_units_defined: "set_units P cmd ts e m \<noteq> Inl u"
  by (auto simp: set_units_def reply_def Let_def split: prod.splits)

lemma set_format_defined: "set_format P ts e m \<noteq> Inl u"
  by (auto simp: set_format_def reply_def Let_def split: prod.splits option.splits)

lemma parse_set_undefined:
  assumes "parse_set P cmd ts e m = Some (Inl u)"
  shows "2 \<le> length ts \<and> ts ! 1 \<in> {''RATE'', ''rate'', ''FPS'', ''fps'', ''ENUDP'', ''enudp'',
           ''ENFTP'', ''IPUDP'', ''ipudp''}"
  using assms unfolding parse_set_def Let_def
  by (simp only: option.inject option.distinct set_sim_defined set_units_defined set_format_defined
      reply_def sum.distinct split: if_split_asm) auto

lemma parse_action_undefined:
  assumes "parse_action P R t1 t2 t e m = Some (Inl u)"
  shows "t \<in> {''SCAN'', ''scan''} \<and> \<not> is_defined (StartScan P R t1 t2 m)"
  using assms unfolding parse_action_def Let_def case_prod_beta reply_def
  by (simp only: option.inject option.distinct sum.distinct split: if_split_asm)
    (cases "StartScan P R t1 t2 m", simp_all)

text \<open>
  The only commands that can leave defined behaviour are the settings that scan
  a number (RATE, FPS, ENUDP, ENFTP, IPUDP) and a scan start whose stored rate the averages
  cannot be computed for; every other text gets an answer.
\<close>

theorem undefined_commands:
  assumes "ParseCommands P R t1 t2 cmd e m = Inl u"
  defines "ts \<equiv> SplitString cmd command_delims"
  shows "(ts ! 0 \<in> {''SCAN'', ''scan''} \<and> \<not> m_Scanning m \<and> \<not> is_defined (UpdateScanAverages m)) \<or>
         (ts ! 0 \<in> {''SET'', ''set''} \<and> 2 \<le> length ts \<and>
          ts ! 1 \<in> {''RATE'', ''rate'', ''FPS'', ''fps'', ''ENUDP'', ''enudp'', ''ENFTP'', ''IPUDP'', ''ipudp''})"
proof -
  have r: "parse_tokens P R t1 t2 cmd ts e m = Inl u" using assms by (simp add: ParseCommands_def)
  show ?thesis
  proof (cases rule: parse_tokens_cases [of P R t1 t2 ts e m cmd])
    case action
    then show ?thesis unfolding r by (auto dest: parse_action_undefined simp: StartScan_defined_iff)
  next
    case set
    then show ?thesis using parse_set_undefined unfolding r by blast
  next
    case get
    then show ?thesis unfolding r by (auto simp: parse_get_def reply_def Let_def split: if_splits)
  next
    case list
    then show ?thesis unfolding r by (auto simp: parse_list_def reply_def Let_def split: if_splits)
  next
    case invalid
    then show ?thesis unfolding r by (simp add: invalid_command_def reply_def)
  qed
qed

theorem undefined_commands_witness:
  "SplitString (words [''SET'', ''RATE'', ''0'']) command_delims ! 1 = ''RATE''"
proof -
  let ?m = "sample_device (Num False 10)" and ?ws = "[''SET'', ''RATE'', ''0'']"
  have w: "\<forall>w \<in> set ?ws. is_word command_delims w"
    by (simp add: is_word_def command_delims_set char_defs)
  then have t: "SplitString (words ?ws) command_delims = ?ws"
    by (intro SplitString_join) (auto simp: command_delims_set)
  have "ParseCommands sample_protocol sample_random 0 0 (words ?ws) False ?m = Inl Unrepresentable"
    using set_rate_zero [of sample_protocol sample_random 0 0 False ?m]
    by (simp add: show_nat.simps [of 0] digit_char_0)
  from undefined_commands [OF this] show ?thesis unfolding t by simp
qed

text \<open>
  Property C38: inputs on which the settings are undefined. A rate of 0 is stored and then
  divided by; \<open>SET ENUDP\<close> and \<open>SET ENFTP\<close> with a word that is no number read an
  uninitialised variable; a UDP port from 32768 on does not fit the \<open>%hd\<close> conversion it is
  scanned with, although it fits the \<open>uint16_t\<close> it is stored in.
\<close>

theorem undefined_settings:
  assumes "is_word command_delims w" and "sscanf_d 32 (c_str w) = Scan_Fail"
    and "is_word command_delims ip" and "2 ^ 15 \<le> port"
  shows "ParseCommands P R t1 t2 (words [''SET'', ''RATE'', show_nat 0]) e m = Inl Unrepresentable \<and>
         ParseCommands P R t1 t2 (words [''SET'', ''ENUDP'', w]) e m = Inl Indeterminate_Read \<and>
         ParseCommands P R t1 t2 (words [''SET'', ''ENFTP'', w]) e m = Inl Indeterminate_Read \<and>
         ParseCommands P R t1 t2 (words [''SET'', ''IPUDP'', ip, show_nat port]) e m = Inl Unrepresentable"
proof (intro conjI)
  show "ParseCommands P R t1 t2 (words [''SET'', ''RATE'', show_nat 0]) e m = Inl Unrepresentable"
    by (rule set_rate_zero)
  show "ParseCommands P R t1 t2 (words [''SET'', ''ENUDP'', w]) e m = Inl Indeterminate_Read"
    using assms(1,2) by (subst ParseCommands_words) (auto simp: dispatch set_enudp_def)
  show "ParseCommands P R t1 t2 (words [''SET'', ''ENFTP'', w]) e m = Inl Indeterminate_Read"
    using assms(1,2) by (subst ParseCommands_words) (auto simp: dispatch set_enftp_def)
  have "sscanf_d 16 (show_nat port) = Scan_Undefined"
    using assms(4) sscanf_d_show_nat_large [of 16 port] by simp
  then show "ParseCommands P R t1 t2 (words [''SET'', ''IPUDP'', ip, show_nat port]) e m = Inl Unrepresentable"
    using assms(3) by (subst ParseCommands_words) (auto simp: dispatch set_ipudp_def is_word_show_nat)
qed

theorem undefined_settings_witness:
  "ParseCommands sample_protocol sample_random 0 0 (words [''SET'', ''ENUDP'', ''on'']) False
     (sample_device (Num False 10)) = Inl Indeterminate_Read \<and>
   ParseCommands sample_protocol sample_random 0 0 (words [''SET'', ''IPUDP'', ''10.0.0.7'', show_nat 50000])
     False (sample_device (Num False 10)) = Inl Unrepresentable"
proof -
  have w: "is_word command_delims ''on''" "is_word command_delims ''10.0.0.7''"
    by (simp_all add: is_word_def command_delims_set char_defs)
  have s: "sscanf_d 32 (c_str ''on'') = Scan_Fail"
    by (simp add: sscanf_d_def c_str_def NUL_def is_space_def take_sign_def is_digit_def
        digit_val_def ord_of_def)
  show ?thesis
    using undefined_settings [OF w(1) s w(2), of 50000 sample_protocol sample_random 0 0 False
        "sample_device (Num False 10)"] by simp
qed

text \<open>
  After a range error, \<open>errno\<close> is sticky. After one \<open>SET SIM\<close> with a number that \<open>strtoul\<close>
  cannot represent, every later \<open>SET SIM\<close> on the same thread is refused as out of range,
  and the setting keeps its value, also for the valid numbers that are accepted before.
\<close>

theorem sim_range_error_is_sticky:
  assumes "ULONG_MAX < n" and "v < 2 ^ 16"
  shows "\<exists>s. ParseCommands P R t1 t2 (words [''SET'', ''SIM'', show_nat n]) False m = Inr (s, m, True, []) \<and>
             ParseCommands P R t1 t2 (words [''SET'', ''SIM'', show_nat v]) True m =
               Inr (''Invalid Command: '' @ words [''SET'', ''SIM'', show_nat v] @
                    '' Value out of range [0-65535]'' @ prompt, m, True, []) \<and>
             ParseCommands P R t1 t2 (words [''SET'', ''SIM'', show_nat v]) False m =
               Inr (words [''SET'', ''SIM'', show_nat v] @ prompt,
                    set_cfg (\<lambda>c. c\<lparr>sim := int v\<rparr>) m, False, [])"
proof -
  have v: "strtoul0 (show_nat v) = (v, [], False)"
    using assms(2) by (intro strtoul0_show_nat) (simp add: ULONG_MAX_def)
  have "strtoul0 (show_nat n) = (ULONG_MAX, [], True)" using assms(1) by (rule strtoul0_show_nat_large)
  then have "ParseCommands P R t1 t2 (words [''SET'', ''SIM'', show_nat n]) False m =
      Inr (''Invalid Command: '' @ words [''SET'', ''SIM'', show_nat n] @
           '' Value out of range [0-65535]'' @ prompt, m, True, [])"
    by (subst ParseCommands_words)
      (auto simp: is_word_show_nat dispatch reply_def set_sim_def simp del: join.simps)
  moreover have "ParseCommands P R t1 t2 (words [''SET'', ''SIM'', show_nat v]) True m =
      Inr (''Invalid Command: '' @ words [''SET'', ''SIM'', show_nat v] @
           '' Value out of range [0-65535]'' @ prompt, m, True, [])"
    using v by (subst ParseCommands_words)
      (auto simp: is_word_show_nat dispatch reply_def set_sim_def simp del: join.simps)
  ultimately show ?thesis using set_sim_nat [OF assms(2)] by blast
qed

theorem sim_range_error_is_sticky_witness:
  "\<exists>s. ParseCommands sample_protocol sample_random 0 0 (words [''SET'', ''SIM'', show_nat 64]) True
          (sample_device (Num False 10)) = Inr (''Invalid Command: '' @ s, sample_device (Num False 10), True, [])"
  using sim_range_error_is_sticky [of 4294967296 64 sample_protocol sample_random 0 0
      "sample_device (Num False 10)"]
  by (auto simp: ULONG_MAX_def simp del: join.simps)

text \<open>
  A line whose first word is no command keyword is answered as invalid, with
  the line quoted, and changes nothing; so is \<open>set enftp\<close> in lower case, which the code's
  test (it compares with \<open>"ENFTP"\<close> twice) does not recognise.
\<close>

theorem unknown_commands_change_nothing:
  assumes "SplitString cmd command_delims ! 0 \<notin>
             {''VER'', ''ver'', ''VERSION'', ''version'', ''STATUS'', ''status'', ''CALZ'', ''calz'',
              ''SCAN'', ''scan'', ''STOP'', ''stop'', ''SET'', ''set'', ''GET'', ''get'', ''LIST'', ''list''}"
    and "char0 (SplitString cmd command_delims ! 0) \<noteq> ESC"
  shows "ParseCommands P R t1 t2 cmd e m = Inr (''Invalid Command: `'' @ cmd @ ''`'' @ prompt, m, e, []) \<and>
         ParseCommands P R t1 t2 (words [''set'', ''enftp'', show_nat n]) e m =
           Inr (''Invalid Command: `'' @ words [''set'', ''enftp'', show_nat n] @ ''`'' @ prompt, m, e, [])"
proof
  show "ParseCommands P R t1 t2 cmd e m = Inr (''Invalid Command: `'' @ cmd @ ''`'' @ prompt, m, e, [])"
    using assms
    by (simp add: ParseCommands_def parse_tokens_def parse_action_def Let_def invalid_command_def
        reply_def)
  show "ParseCommands P R t1 t2 (words [''set'', ''enftp'', show_nat n]) e m =
           Inr (''Invalid Command: `'' @ words [''set'', ''enftp'', show_nat n] @ ''`'' @ prompt, m, e, [])"
    by (subst ParseCommands_words)
      (auto simp: is_word_show_nat dispatch reply_def invalid_command_def simp del: join.simps)
qed

theorem unknown_commands_change_nothing_witness:
  "ParseCommands sample_protocol sample_random 0 0 ''HELLO'' False (sample_device (Num False 10)) =
     Inr (''Invalid Command: `HELLO`'' @ prompt, sample_device (Num False 10), False, [])"
proof -
  have t: "SplitString ''HELLO'' command_delims = [''HELLO'']"
    by (rule SplitString_no_delim) (auto simp: command_delims_set char_defs)
  show ?thesis
    using unknown_commands_change_nothing [of "''HELLO''" sample_protocol sample_random 0 0 False
        "sample_device (Num False 10)" 1]
    by (simp add: t char0_def char_defs)
qed

end
