(* ===== verification/Args.thy ===== *)
theory Args
  imports MpsCommands
begin

section \<open>args.h: the command line\<close>

text \<open>
  The command line is the list of its words, the program's name first. The result has the
  options and the text printed; errors are logged only. \<open>std::from_chars\<close> is that of
  \<open>CxxText\<close>.
\<close>

record Options =
  opt_device_type :: u32
  opt_port :: u16
  opt_bind_ip :: string
  opt_should_close :: bool
  opt_enable_console :: bool

definition default_options :: Options where
  "default_options = \<lparr>opt_device_type = 4264, opt_port = 23, opt_bind_ip = ''127.0.0.1'',
     opt_should_close = False, opt_enable_console = True\<rparr>"

fun has_option_flag :: "string list \<Rightarrow> string \<Rightarrow> bool" where
  "has_option_flag [] name = False"
| "has_option_flag (a # rest) name = (a = name \<or> has_option_flag rest name)"

text \<open>The word after the first occurrence that has one.\<close>

fun get_option_value :: "string list \<Rightarrow> string \<Rightarrow> string" where
  "get_option_value (a # b # rest) name = (if a = name then b else get_option_value (b # rest) name)"
| "get_option_value _ name = []"

definition arg_to_num :: "nat \<Rightarrow> string \<Rightarrow> nat option" where
  "arg_to_num w opt =
     (if opt = [] then None
      else case from_chars w opt of
          Some (n, []) \<Rightarrow> Some n
        | _ \<Rightarrow> None)"

text \<open>A numeric option: the new value, or the old one if the option is absent or no number.\<close>

definition number_option :: "nat \<Rightarrow> string list \<Rightarrow> string \<Rightarrow> nat \<Rightarrow> nat" where
  "number_option w args name old =
     (if has_option_flag args name
      then (case arg_to_num w (get_option_value args name) of None \<Rightarrow> old | Some n \<Rightarrow> n)
      else old)"

definition TAB :: char where "TAB = CHR 0x09"

definition help_text :: string where
  "help_text =
     [LF] @ ''usage:'' @ [LF] @ ''  mps-server.exe '' @ ''[--help] '' @ ''[--version] '' @
     ''[--enable-console] '' @ ''[--type <device-type>] '' @ ''[--port <port>] '' @
     ''[--bind-ip <ip>] '' @ [LF, LF] @
     [LF] @ ''An emulated MPS4200-series scanner (based on firmware version 4.01)'' @ [LF] @
     [LF] @ ''Flags:'' @ [LF] @
     ''  -h, --help        '' @ [TAB] @ ''Print help message and exit'' @ [LF] @
     ''  -v, --version     '' @ [TAB] @ ''Print version number and exit'' @ [LF] @
     ''  --enable-console  '' @ [TAB] @ ''Enable embedded console'' @ [LF] @
     [LF] @ ''Options:'' @ [LF] @
     ''  -t, --type <TYPE> '' @ [TAB] @ ''MPS Type (default: 4264) [ ALLOWED: 4264 | 4232 | 4216 ]'' @ [LF] @
     ''  -p, --port <PORT> '' @ [TAB] @ ''TCP port (default: 23)'' @ [LF] @
     ''  --bind-ip  <IP>   '' @ [TAB] @ ''IP address to bind (default: 127.0.0.1)'' @ [LF]"

definition version_text :: "mps_protocol \<Rightarrow> string" where
  "version_text P =
     ''Aiolos (c) MPS Emulator v'' @ MPS_EMULATOR_VERSION_STRING @ [LF] @
     ''  - Scanivalve Protocol: v'' @ MPS_PROTOCOL_VERSION_STRING P @ [LF] @
     ''  - Scanivalve Firmware: v'' @ MPS_FIRMWARE_VERSION_STRING P @ [LF]"

definition ParseAguments :: "mps_protocol \<Rightarrow> string list \<Rightarrow> Options \<times> string" where
  "ParseAguments P args =
     (let opts = default_options
      in if has_option_flag args ''-v'' \<or> has_option_flag args ''--version''
         then (opts\<lparr>opt_should_close := True\<rparr>, version_text P)
         else if has_option_flag args ''-h'' \<or> has_option_flag args ''--help''
         then (opts\<lparr>opt_should_close := True\<rparr>, help_text)
         else
           let type1 = number_option 32 args ''-t'' (unat (opt_device_type opts));
               type2 = number_option 32 args ''--type'' type1;
               port1 = number_option 16 args ''-p'' (unat (opt_port opts));
               port2 = number_option 16 args ''--port'' port1
           in (opts\<lparr>opt_device_type := of_nat type2, opt_port := of_nat port2,
                 opt_bind_ip := (if has_option_flag args ''--bind-ip'' then get_option_value args ''--bind-ip''
                                 else opt_bind_ip opts),
                 opt_enable_console := has_option_flag args ''--enable-console''\<rparr>, []))"

subsection \<open>Numbers on the command line\<close>

lemma arg_to_num_show_nat: "n < 2 ^ w \<Longrightarrow> arg_to_num w (show_nat n) = Some n"
  by (simp add: arg_to_num_def from_chars_show_nat)

interpretation arg_number: text_codec "\<lambda>n. n < 2 ^ w" show_nat "arg_to_num w" for w
  by unfold_locales (rule arg_to_num_show_nat)

lemma arg_to_num_digits: "arg_to_num w opt = Some n \<Longrightarrow> n < 2 ^ w \<and> n = base_val 10 opt \<and> list_all (is_digit 10) opt"
  by (auto simp: arg_to_num_def from_chars_Some_iff list_all_iff split: if_splits option.splits prod.splits list.splits)

lemma has_option_flag_set [simp]: "has_option_flag args name \<longleftrightarrow> name \<in> set args"
  by (induction args) auto


lemma get_option_value_in: "get_option_value args name \<noteq> [] \<Longrightarrow> get_option_value args name \<in> set args"
  by (induction args name rule: get_option_value.induct) auto

lemma number_option_cases:
  "number_option w args name old = old \<or>
   (\<exists>word \<in> set args. list_all (is_digit 10) word \<and> base_val 10 word < 2 ^ w \<and>
      number_option w args name old = base_val 10 word)"
proof (cases "arg_to_num w (get_option_value args name)")
  case (Some n)
  then have "get_option_value args name \<noteq> []" by (auto simp: arg_to_num_def)
  then show ?thesis using Some arg_to_num_digits [OF Some] get_option_value_in [of args name]
    by (auto simp: number_option_def)
qed (simp add: number_option_def)

lemma number_option_twice:
  "number_option w args b (number_option w args a old) = old \<or>
   (\<exists>word \<in> set args. list_all (is_digit 10) word \<and> base_val 10 word < 2 ^ w \<and>
      number_option w args b (number_option w args a old) = base_val 10 word)"
  using number_option_cases [of w args a old] number_option_cases [of w args b "number_option w args a old"]
  by metis

lemma unat_bound32: "unat (w :: u32) < 2 ^ 32" and unat_bound16: "unat (v :: u16) < 2 ^ 16"
proof -
  have "unat w < 2 ^ LENGTH(32)" "unat v < 2 ^ LENGTH(16)" by (rule unsigned_less)+
  then show "unat w < 2 ^ 32" "unat v < 2 ^ 16" by simp_all
qed

text \<open>
  The command line never makes up a value. Whatever the words, the program
  closes exactly if help or version is asked for; otherwise the console is enabled exactly if
  its flag is there (although the default of the struct is true), and the device type and the
  port are the defaults or the exact value of a word of digits on the command line: nothing is
  truncated, no sign or trailing text is accepted.
\<close>

theorem options_are_from_the_command_line:
  "case ParseAguments P args of (opts, out) \<Rightarrow>
     opt_should_close opts = (set args \<inter> {''-v'', ''--version'', ''-h'', ''--help''} \<noteq> {}) \<and>
     (\<not> opt_should_close opts \<longrightarrow>
        out = [] \<and> opt_enable_console opts = (''--enable-console'' \<in> set args) \<and>
        (opt_device_type opts = 4264 \<or>
         (\<exists>word \<in> set args. list_all (is_digit 10) word \<and> unat (opt_device_type opts) = base_val 10 word)) \<and>
        (opt_port opts = 23 \<or>
         (\<exists>word \<in> set args. list_all (is_digit 10) word \<and> unat (opt_port opts) = base_val 10 word)) \<and>
        (opt_bind_ip opts \<in> {''127.0.0.1'', []} \<or> opt_bind_ip opts \<in> set args))"
proof -
  let ?t = "number_option 32 args ''--type'' (number_option 32 args ''-t'' 4264)"
  let ?p = "number_option 16 args ''--port'' (number_option 16 args ''-p'' 23)"
  have t: "(of_nat ?t :: u32) = 4264 \<or>
      (\<exists>word \<in> set args. list_all (is_digit 10) word \<and> unat (of_nat ?t :: u32) = base_val 10 word)"
    using number_option_twice [of 32 args "''--type''" "''-t''" 4264] by (auto simp: unat_of_nat)
  have p: "(of_nat ?p :: u16) = 23 \<or>
      (\<exists>word \<in> set args. list_all (is_digit 10) word \<and> unat (of_nat ?p :: u16) = base_val 10 word)"
    using number_option_twice [of 16 args "''--port''" "''-p''" 23] by (auto simp: unat_of_nat)
  have ip: "get_option_value args ''--bind-ip'' \<in> {''127.0.0.1'', []} \<or>
      get_option_value args ''--bind-ip'' \<in> set args"
    using get_option_value_in [of args "''--bind-ip''"] by auto
  show ?thesis
    unfolding ParseAguments_def default_options_def Let_def
    using t p ip by (auto split: prod.splits)
qed

theorem options_are_from_the_command_line_witness:
  "opt_device_type (fst (ParseAguments sample_protocol [''mps'', ''-t'', ''70000000000''])) = 4264"
proof -
  let ?args = "[''mps'', ''-t'', ''70000000000'']"
  obtain opts out where r: "ParseAguments sample_protocol ?args = (opts, out)" by fastforce
  note facts = options_are_from_the_command_line [of ?args sample_protocol, unfolded r prod.case]
  have "set ?args \<inter> {''-v'', ''--version'', ''-h'', ''--help''} = {}" by simp
  with facts have "opt_device_type opts = 4264 \<or>
      (\<exists>word \<in> set ?args. list_all (is_digit 10) word \<and> unat (opt_device_type opts) = base_val 10 word)"
    by simp
  moreover have "\<not> list_all (is_digit 10) ''mps''" "\<not> list_all (is_digit 10) ''-t''"
    "base_val 10 ''70000000000'' = 70000000000"
    by (simp_all add: base_val_def is_digit_def digit_val_def ord_of_def Let_def)
  ultimately have "opt_device_type opts = 4264 \<or> unat (opt_device_type opts) = 70000000000"
    by (simp only: list.set bex_simps insert_iff empty_iff) metis
  then show ?thesis using unat_bound32 [of "opt_device_type opts"] r by simp
qed

subsection \<open>A command line for given options\<close>

definition command_line :: "string \<Rightarrow> Options \<Rightarrow> string list" where
  "command_line prog opts =
     [prog, ''-t'', show_nat (unat (opt_device_type opts)), ''--port'', show_nat (unat (opt_port opts)),
      ''--bind-ip'', opt_bind_ip opts] @
     (if opt_enable_console opts then [''--enable-console''] else [])"

definition option_words :: "string set" where
  "option_words = {''-v'', ''--version'', ''-h'', ''--help'', ''-t'', ''--type'', ''-p'', ''--port'',
     ''--bind-ip'', ''--enable-console''}"

lemma show_nat_no_option: "show_nat n \<notin> option_words"
proof
  assume "show_nat n \<in> option_words"
  then have "CHR ''-'' \<in> set (show_nat n)" by (auto simp: option_words_def)
  then show False using show_nat_digits digit_chars(2) by blast
qed

lemma command_line_parsed:
  assumes "prog \<notin> option_words" and "opt_bind_ip opts \<notin> option_words"
  shows "ParseAguments P (command_line prog opts) = (opts\<lparr>opt_should_close := False\<rparr>, [])"
proof -
  let ?args = "command_line prog opts"
  let ?t = "unat (opt_device_type opts)" and ?p = "unat (opt_port opts)"
  have mem: "(w \<in> set ?args) = (w \<in> {''-t'', ''--port'', ''--bind-ip''} \<or>
      (opt_enable_console opts \<and> w = ''--enable-console''))" if "w \<in> option_words" for w
  proof -
    have "w \<noteq> prog" "w \<noteq> opt_bind_ip opts" "w \<noteq> show_nat n" for n
      using that assms show_nat_no_option by auto
    then show ?thesis by (auto simp: command_line_def)
  qed
  have absent: "''-v'' \<notin> set ?args" "''--version'' \<notin> set ?args" "''-h'' \<notin> set ?args" "''--help'' \<notin> set ?args"
      "''--type'' \<notin> set ?args" "''-p'' \<notin> set ?args"
    and console: "(''--enable-console'' \<in> set ?args) = opt_enable_console opts"
    and present: "''-t'' \<in> set ?args" "''--port'' \<in> set ?args" "''--bind-ip'' \<in> set ?args"
    by (simp_all add: mem option_words_def)
  have prog: "prog \<noteq> ''-t''" "prog \<noteq> ''--port''" "prog \<noteq> ''--bind-ip''"
    using assms(1) by (simp_all add: option_words_def)
  have num: "show_nat n \<noteq> ''--port''" "show_nat n \<noteq> ''--bind-ip''" for n
    using show_nat_no_option [of n] by (simp_all add: option_words_def)
  have vals: "get_option_value ?args ''-t'' = show_nat ?t" "get_option_value ?args ''--port'' = show_nat ?p"
    "get_option_value ?args ''--bind-ip'' = opt_bind_ip opts"
    using prog num by (simp_all add: command_line_def)
  have num: "number_option 32 ?args ''-t'' x = ?t" "number_option 32 ?args ''--type'' x = x"
    "number_option 16 ?args ''-p'' x = x" "number_option 16 ?args ''--port'' x = ?p" for x
    using absent present vals arg_number.parse_pr [of ?t 32] arg_number.parse_pr [of ?p 16]
      unat_bound32 [of "opt_device_type opts"] unat_bound16 [of "opt_port opts"]
    by (simp_all add: number_option_def)
  show ?thesis
    unfolding ParseAguments_def Let_def num vals has_option_flag_set console
    using absent present by (simp add: default_options_def)
qed

text \<open>
  Property C26: the command line round trip. Options written as a command line, with any
  program name and address that are not options themselves, are parsed back exactly, the
  numbers through \<open>std::from_chars\<close>.
\<close>

theorem command_line_round_trip:
  assumes "prog \<notin> option_words" and "opt_bind_ip opts \<notin> option_words" and "\<not> opt_should_close opts"
  shows "ParseAguments P (command_line prog opts) = (opts, [])"
  using command_line_parsed [OF assms(1,2), of P] assms(3) by simp

theorem command_line_round_trip_witness:
  "ParseAguments sample_protocol
     [''mps'', ''-t'', ''4232'', ''--port'', ''2323'', ''--bind-ip'', ''10.0.0.12'', ''--enable-console''] =
   (\<lparr>opt_device_type = 4232, opt_port = 2323, opt_bind_ip = ''10.0.0.12'', opt_should_close = False,
      opt_enable_console = True\<rparr>, [])"
proof -
  let ?o = "\<lparr>opt_device_type = 4232, opt_port = 2323, opt_bind_ip = ''10.0.0.12'', opt_should_close = False,
      opt_enable_console = True\<rparr>"
  have "digit_char 2 = CHR ''2''" "digit_char 3 = CHR ''3''" "digit_char 4 = CHR ''4''" by code_simp+
  then have n: "show_nat 4232 = ''4232''" "show_nat 2323 = ''2323''" by (simp_all add: show_nat.simps)
  have "command_line ''mps'' ?o =
      [''mps'', ''-t'', ''4232'', ''--port'', ''2323'', ''--bind-ip'', ''10.0.0.12'', ''--enable-console'']"
    by (simp add: command_line_def n)
  then show ?thesis
    using command_line_round_trip [of "''mps''" ?o sample_protocol] by (simp add: option_words_def)
qed

end
