(* ===== verification/ThreadPool.thy ===== *)
theory ThreadPool
  imports Prelude "HOL-Library.Multiset"
begin

section \<open>aero/core/threads.h, threads.cpp: the thread pool\<close>

text \<open>
  \<open>aero::ThreadPool\<close> as a state machine. A worker thread runs the lambda of the
  constructor, whose control points are the constructors of \<open>worker\<close>; the code between two
  of them is one step (the queue is only touched under \<open>m_QueueMutex\<close>). \<open>stop_pc\<close> is
  where the caller of \<open>StopAll\<close> is. A task is any value; a running task takes no steps of
  the pool until it returns. A worker that waits is woken by a notification or spuriously,
  and then re-evaluates the condition, so it may go on exactly when the condition holds.
\<close>

subsection \<open>std::queue\<close>

definition queue_push :: "'a \<Rightarrow> 'a list \<Rightarrow> 'a list" where
  "queue_push x q = q @ [x]"

fun queue_pop :: "'a list \<Rightarrow> ('a \<times> 'a list) option" where
  "queue_pop [] = None"
| "queue_pop (x # q) = Some (x, q)"

interpretation std_queue: fifo id queue_push queue_pop
  by unfold_locales (auto simp: queue_push_def elim: queue_pop.elims)

subsection \<open>State\<close>

datatype 'a worker =
    At_Loop             \<comment> \<open>before \<open>while (!stop.stop_requested ())\<close>\<close>
  | Waiting             \<comment> \<open>in \<open>m_Condition.wait\<close>\<close>
  | Running 'a          \<comment> \<open>in \<open>task ()\<close>\<close>
  | Exited

datatype stop_pc = Idle | Requesting nat | Joining

text \<open>\<open>m_Threads\<close> pairs a worker's control point with the stop state of its \<open>jthread\<close>.\<close>

record 'a pool =
  m_Threads :: "('a worker \<times> bool) list"
  m_Tasks :: "'a list"
  m_Stop :: bool
  m_Stopping :: stop_pc

datatype 'a pool_event = Enqueued 'a | Started 'a | Finished 'a | Stopped | Joined

definition ThreadPool :: "nat \<Rightarrow> 'a pool" where
  "ThreadPool workers =
     \<lparr>m_Threads = replicate workers (At_Loop, False), m_Tasks = [], m_Stop = False,
      m_Stopping = Idle\<rparr>"

subsection \<open>Operations\<close>

definition Enqueue :: "'a \<Rightarrow> 'a pool \<Rightarrow> 'a pool \<times> 'a pool_event list" where
  "Enqueue fn p = (p\<lparr>m_Tasks := queue_push fn (m_Tasks p)\<rparr>, [Enqueued fn])"

definition set_worker :: "nat \<Rightarrow> 'a worker \<Rightarrow> 'a pool \<Rightarrow> 'a pool" where
  "set_worker i w p = p\<lparr>m_Threads := (m_Threads p)[i := (w, snd (m_Threads p ! i))]\<rparr>"

text \<open>The next step of worker \<open>i\<close>; \<open>None\<close> when it cannot move.\<close>

definition worker_step :: "nat \<Rightarrow> 'a pool \<Rightarrow> ('a pool \<times> 'a pool_event list) option" where
  "worker_step i p =
     (if length (m_Threads p) \<le> i then None
      else case m_Threads p ! i of
        (At_Loop, stop) \<Rightarrow> Some (set_worker i (if stop then Exited else Waiting) p, [])
      | (Waiting, _) \<Rightarrow>
          (case queue_pop (m_Tasks p) of
             None \<Rightarrow> if m_Stop p then Some (set_worker i Exited p, []) else None
           | Some (task, rest) \<Rightarrow>
               Some (set_worker i (Running task) (p\<lparr>m_Tasks := rest\<rparr>), [Started task]))
      | (Running task, _) \<Rightarrow> Some (set_worker i At_Loop p, [Finished task])
      | (Exited, _) \<Rightarrow> None)"

text \<open>The next step of the thread in \<open>StopAll\<close>; it joins when all workers have exited.\<close>

definition StopAll_step :: "'a pool \<Rightarrow> ('a pool \<times> 'a pool_event list) option" where
  "StopAll_step p =
     (case m_Stopping p of
        Idle \<Rightarrow> Some (p\<lparr>m_Stop := True, m_Stopping := Requesting 0\<rparr>, [Stopped])
      | Requesting i \<Rightarrow>
          if i < length (m_Threads p)
          then Some (p\<lparr>m_Threads := (m_Threads p)[i := (fst (m_Threads p ! i), True)],
                       m_Stopping := Requesting (Suc i)\<rparr>, [])
          else Some (p\<lparr>m_Stopping := Joining\<rparr>, [])
      | Joining \<Rightarrow>
          if list_all (\<lambda>(w, _). w = Exited) (m_Threads p)
          then Some (p\<lparr>m_Threads := [], m_Stopping := Idle\<rparr>, [Joined])
          else None)"

text \<open>Steps of the system: the pool with the events so far.\<close>

inductive pool_step :: "'a pool \<times> 'a pool_event list \<Rightarrow> 'a pool \<times> 'a pool_event list \<Rightarrow> bool" where
  enqueue: "Enqueue fn p = (p', ev) \<Longrightarrow> pool_step (p, tr) (p', tr @ ev)"
| work: "worker_step i p = Some (p', ev) \<Longrightarrow> pool_step (p, tr) (p', tr @ ev)"
| stop: "StopAll_step p = Some (p', ev) \<Longrightarrow> pool_step (p, tr) (p', tr @ ev)"

definition pool_init :: "nat \<Rightarrow> 'a pool \<times> 'a pool_event list \<Rightarrow> bool" where
  "pool_init n s \<longleftrightarrow> s = (ThreadPool n, [])"

inductive_cases pool_stepE: "pool_step s t"

subsection \<open>Readings of a history\<close>

fun enqueued :: "'a pool_event list \<Rightarrow> 'a list" where
  "enqueued [] = []"
| "enqueued (Enqueued t # tr) = t # enqueued tr"
| "enqueued (_ # tr) = enqueued tr"

fun started :: "'a pool_event list \<Rightarrow> 'a list" where
  "started [] = []"
| "started (Started t # tr) = t # started tr"
| "started (_ # tr) = started tr"

fun finished :: "'a pool_event list \<Rightarrow> 'a list" where
  "finished [] = []"
| "finished (Finished t # tr) = t # finished tr"
| "finished (_ # tr) = finished tr"

lemma history_append [simp]:
  "enqueued (tr @ tr') = enqueued tr @ enqueued tr'"
  "started (tr @ tr') = started tr @ started tr'"
  "finished (tr @ tr') = finished tr @ finished tr'"
  by (induction tr rule: enqueued.induct) simp_all

fun task_of :: "'a worker \<times> bool \<Rightarrow> 'a list" where
  "task_of (Running t, _) = [t]"
| "task_of _ = []"

definition running :: "'a pool \<Rightarrow> 'a list" where
  "running p = concat (map task_of (m_Threads p))"

lemma mset_concat_update:
  "i < length xs \<Longrightarrow>
   mset (concat (map f (xs[i := y]))) + mset (f (xs ! i)) = mset (concat (map f xs)) + mset (f y)"
proof (induction xs arbitrary: i)
  case (Cons x xs)
  then show ?case by (cases i) (simp_all add: ac_simps)
qed simp

lemma running_set_worker:
  assumes "i < length (m_Threads p)"
  shows "mset (running (set_worker i w p)) + mset (task_of (m_Threads p ! i)) =
         mset (running p) + mset (task_of (w, b))"
proof -
  have "task_of (w, b) = task_of (w, snd (m_Threads p ! i))" by (cases w) simp_all
  then show ?thesis
    using mset_concat_update [OF assms, of task_of] by (simp add: running_def set_worker_def)
qed

lemma running_tasks [simp]: "running (p\<lparr>m_Tasks := q\<rparr>) = running p" "running (p\<lparr>m_Stop := b\<rparr>) = running p"
  "running (p\<lparr>m_Stopping := c\<rparr>) = running p"
  by (simp_all add: running_def)

subsection \<open>The invariant of the pool\<close>

text \<open>A queue of tasks: they start in the order of submission, each once.\<close>

definition queue_init :: "'a list \<times> 'a list \<Rightarrow> bool" where
  "queue_init s \<longleftrightarrow> s = ([], [])"

inductive queue_step :: "'a list \<times> 'a list \<Rightarrow> 'a list \<times> 'a list \<Rightarrow> bool" where
  submit: "queue_step (submitted, served) (submitted @ [t], served)"
| serve: "length served < length submitted \<Longrightarrow>
    queue_step (submitted, served) (submitted, served @ [submitted ! length served])"

definition served_in_order :: "'a list \<times> 'a list \<Rightarrow> bool" where
  "served_in_order = (\<lambda>(submitted, served). served = take (length served) submitted)"

interpretation task_queue: invariant_system queue_init queue_step served_in_order
proof
  fix s t :: "'a list \<times> 'a list"
  show "queue_init s \<Longrightarrow> served_in_order s" by (simp add: queue_init_def served_in_order_def)
  assume "served_in_order s" and "queue_step s t"
  then show "served_in_order t"
  proof (cases rule: queue_step.cases [OF \<open>queue_step s t\<close>])
    case (1 submitted served x)
    then have eq: "take (length served) submitted = served"
      using \<open>served_in_order s\<close> by (simp add: served_in_order_def)
    have "length (take (length served) submitted) \<le> length submitted" by simp
    then have "length served \<le> length submitted" unfolding eq .
    then show ?thesis using 1 eq by (simp add: served_in_order_def)
  qed (auto simp: served_in_order_def take_Suc_conv_app_nth)
qed

text \<open>
  The pool's invariant: what was enqueued is what was started and then what is queued, and
  what was started is running or finished.
\<close>

definition pool_inv :: "nat \<Rightarrow> 'a pool \<times> 'a pool_event list \<Rightarrow> bool" where
  "pool_inv n = (\<lambda>(p, tr).
     enqueued tr = started tr @ m_Tasks p \<and>
     mset (started tr) = mset (finished tr) + mset (running p) \<and>
     (length (m_Threads p) = n \<or> m_Threads p = []) \<and>
     (Joined \<in> set tr \<longrightarrow> m_Threads p = []))"

lemma worker_step_inv:
  assumes "pool_inv n (p, tr)" and "worker_step i p = Some (p', ev)"
  shows "pool_inv n (p', tr @ ev)"
proof -
  have i: "i < length (m_Threads p)" using assms(2) by (auto simp: worker_step_def split: if_splits)
  then have ne: "Joined \<notin> set tr" using assms(1) by (auto simp: pool_inv_def)
  obtain w f where w: "m_Threads p ! i = (w, f)" by (cases "m_Threads p ! i")
  have len: "length (m_Threads (set_worker i v q)) = length (m_Threads q)" for v and q :: "'a pool"
    by (simp add: set_worker_def)
  show ?thesis
  proof (cases w)
    case At_Loop
    then have p': "p' = set_worker i (if f then Exited else Waiting) p" "ev = []"
      using assms(2) i w by (auto simp: worker_step_def)
    have "mset (running p') = mset (running p)"
      using running_set_worker [OF i, of "if f then Exited else Waiting" f] w At_Loop
      by (cases f) (simp_all add: p')
    then show ?thesis using assms(1) len [of _ p] ne by (auto simp: pool_inv_def p' set_worker_def)
  next
    case Waiting
    show ?thesis
    proof (cases "m_Tasks p")
      case Nil
      then have p': "p' = set_worker i Exited p" "ev = []"
        using assms(2) i w Waiting by (auto simp: worker_step_def split: if_splits)
      have "mset (running p') = mset (running p)"
        using running_set_worker [OF i, of Exited f] w Waiting by (simp add: p')
      then show ?thesis using assms(1) len [of _ p] ne by (auto simp: pool_inv_def p' set_worker_def)
    next
      case (Cons t q)
      let ?p = "p\<lparr>m_Tasks := q\<rparr>"
      have p': "p' = set_worker i (Running t) ?p" "ev = [Started t]"
        using assms(2) i w Waiting Cons by (auto simp: worker_step_def)
      have "mset (running p') = mset (running p) + {#t#}"
        using running_set_worker [of i ?p "Running t" f] i w Waiting by (simp add: p')
      then show ?thesis using assms(1) len [of _ ?p] ne Cons
        by (auto simp: pool_inv_def p' set_worker_def)
    qed
  next
    case (Running t)
    then have p': "p' = set_worker i At_Loop p" "ev = [Finished t]"
      using assms(2) i w by (auto simp: worker_step_def)
    have "mset (running p') + {#t#} = mset (running p)"
      using running_set_worker [OF i, of At_Loop f] w Running by (simp add: p')
    then show ?thesis using assms(1) len [of _ p] ne
      by (auto simp: pool_inv_def p' set_worker_def)
  next
    case Exited
    then show ?thesis using assms(2) i w by (simp add: worker_step_def)
  qed
qed

lemma task_of_stop [simp]: "task_of (w, b) = task_of (w, c)"
  by (cases w) simp_all

lemma exited_no_tasks: "list_all (\<lambda>(w, _). w = Exited) ws \<Longrightarrow> concat (map task_of ws) = []"
  by (induction ws) auto

lemma StopAll_step_inv:
  assumes "pool_inv n (p, tr)" and "StopAll_step p = Some (p', ev)"
  shows "pool_inv n (p', tr @ ev)"
proof (cases "m_Stopping p")
  case Idle
  then have "p' = p\<lparr>m_Stop := True, m_Stopping := Requesting 0\<rparr>" "ev = [Stopped]"
    using assms(2) by (auto simp: StopAll_step_def)
  then show ?thesis using assms(1) by (auto simp: pool_inv_def running_def)
next
  case (Requesting i)
  show ?thesis
  proof (cases "i < length (m_Threads p)")
    case True
    then have p': "p' = p\<lparr>m_Threads := (m_Threads p)[i := (fst (m_Threads p ! i), True)],
        m_Stopping := Requesting (Suc i)\<rparr>" "ev = []"
      using assms(2) Requesting by (auto simp: StopAll_step_def)
    have "task_of (fst (m_Threads p ! i), True) = task_of (m_Threads p ! i)"
      by (metis prod.collapse task_of_stop)
    then have "mset (running p') = mset (running p)"
      using mset_concat_update [OF True, of task_of "(fst (m_Threads p ! i), True)"]
      by (simp add: running_def p')
    then show ?thesis using assms(1) True by (auto simp: pool_inv_def p')
  next
    case False
    then have "p' = p\<lparr>m_Stopping := Joining\<rparr>" "ev = []"
      using assms(2) Requesting by (auto simp: StopAll_step_def)
    then show ?thesis using assms(1) by (auto simp: pool_inv_def)
  qed
next
  case Joining
  then have ex: "list_all (\<lambda>(w, _). w = Exited) (m_Threads p)"
    and p': "p' = p\<lparr>m_Threads := [], m_Stopping := Idle\<rparr>" "ev = [Joined]"
    using assms(2) by (auto simp: StopAll_step_def split: if_splits)
  have "running p = []" using exited_no_tasks [OF ex] by (simp add: running_def)
  then show ?thesis using assms(1) by (auto simp: pool_inv_def p' running_def)
qed

interpretation pool: invariant_system "pool_init n" pool_step "pool_inv n" for n
proof
  fix s t :: "'a pool \<times> 'a pool_event list"
  show "pool_init n s \<Longrightarrow> pool_inv n s"
    by (auto simp: pool_init_def pool_inv_def ThreadPool_def running_def)
  assume inv: "pool_inv n s" and "pool_step s t"
  from this(2) show "pool_inv n t"
  proof cases
    case (enqueue fn p p' ev tr)
    then show ?thesis using inv by (auto simp: Enqueue_def queue_push_def pool_inv_def)
  qed (use inv worker_step_inv StopAll_step_inv in auto)
qed

subsection \<open>The pool implements the queue\<close>

definition served_view :: "'a pool \<times> 'a pool_event list \<Rightarrow> 'a list \<times> 'a list" where
  "served_view = (\<lambda>(p, tr). (enqueued tr, started tr))"

text \<open>The only step of a worker that shows: the start of the front task.\<close>

lemma worker_step_served:
  assumes "worker_step i p = Some (p', ev)"
  shows "(enqueued ev = [] \<and> started ev = []) \<or>
         (\<exists>t q. m_Tasks p = t # q \<and> enqueued ev = [] \<and> started ev = [t])"
  using assms
  by (auto simp: worker_step_def split: if_splits prod.splits worker.splits option.splits
      elim: queue_pop.elims)

lemma StopAll_step_served:
  "StopAll_step p = Some (p', ev) \<Longrightarrow> enqueued ev = [] \<and> started ev = []"
  by (auto simp: StopAll_step_def split: stop_pc.splits if_splits)

interpretation pool_queue:
  forward_simulation "pool_init n" pool_step "pool_inv n" queue_init queue_step served_view for n
proof
  fix s t :: "'a pool \<times> 'a pool_event list"
  show "pool_init n s \<Longrightarrow> queue_init (served_view s)"
    by (simp add: pool_init_def queue_init_def served_view_def)
  assume inv: "pool_inv n s" and "pool_step s t"
  from this(2) show "queue_step\<^sup>*\<^sup>* (served_view s) (served_view t)"
  proof cases
    case (enqueue fn p p' ev tr)
    then have "served_view t = (enqueued tr @ [fn], started tr)" "served_view s = (enqueued tr, started tr)"
      by (auto simp: Enqueue_def served_view_def)
    then show ?thesis using queue_step.submit [of "enqueued tr" "started tr" fn] by auto
  next
    case (work i p p' ev tr)
    from worker_step_served [OF work(3)] show ?thesis
    proof
      assume "enqueued ev = [] \<and> started ev = []"
      then show ?thesis using work by (simp add: served_view_def)
    next
      assume "\<exists>t q. m_Tasks p = t # q \<and> enqueued ev = [] \<and> started ev = [t]"
      then obtain x q where x: "m_Tasks p = x # q" "enqueued ev = []" "started ev = [x]" by blast
      have e: "enqueued tr = started tr @ x # q" using inv work x by (simp add: pool_inv_def)
      then have "queue_step (enqueued tr, started tr)
          (enqueued tr, started tr @ [enqueued tr ! length (started tr)])"
        by (intro queue_step.serve) simp
      then show ?thesis using work x e by (auto simp: served_view_def)
    qed
  next
    case (stop p p' ev tr)
    then show ?thesis using StopAll_step_served [OF stop(3)] by (simp add: served_view_def)
  qed
qed

subsection \<open>Properties\<close>

lemma length_task_of: "length (concat (map task_of ws)) \<le> length ws"
proof (induction ws)
  case (Cons w ws)
  have "length (task_of w) \<le> 1" by (cases w rule: task_of.cases) simp_all
  with Cons show ?case by simp
qed simp

text \<open>
  Property C20: the pool is a queue. In every reachable state the tasks that have started are
  a prefix of those enqueued, in that order and each once; the queue holds exactly the rest;
  what has started is running or finished; and no more tasks run at once than the pool has
  workers, so with all of them in tasks that do not return the rest waits forever.
\<close>

theorem tasks_start_in_order:
  assumes "reach (pool_init n) pool_step (p, tr)"
  shows "started tr = take (length (started tr)) (enqueued tr) \<and>
         m_Tasks p = drop (length (started tr)) (enqueued tr) \<and>
         mset (started tr) = mset (finished tr) + mset (running p) \<and> length (running p) \<le> n"
proof -
  have "served_in_order (served_view (p, tr))"
    by (rule task_queue.reach_inv [OF pool_queue.reach_abs [OF assms]])
  moreover have inv: "pool_inv n (p, tr)" by (rule pool.reach_inv [OF assms])
  moreover have "length (running p) \<le> n"
    using inv length_task_of [of "m_Threads p"] by (auto simp: pool_inv_def running_def)
  ultimately show ?thesis by (auto simp: served_in_order_def served_view_def pool_inv_def)
qed

lemma reach_pool_steps:
  assumes "reach init pool_step (p, tr)"
  shows "Enqueue fn p = (p', ev) \<Longrightarrow> tr' = tr @ ev \<Longrightarrow> reach init pool_step (p', tr')"
    and "worker_step i p = Some (p', ev) \<Longrightarrow> tr' = tr @ ev \<Longrightarrow> reach init pool_step (p', tr')"
    and "StopAll_step p = Some (p', ev) \<Longrightarrow> tr' = tr @ ev \<Longrightarrow> reach init pool_step (p', tr')"
  by (auto intro: reach_step [OF assms] pool_step.intros)

lemma reach_pool_start: "reach (pool_init n) pool_step (ThreadPool n, [])"
  by (rule reach_init) (simp add: pool_init_def)

theorem tasks_start_in_order_witness:
  "\<exists>p tr. reach (pool_init 2) pool_step (p, tr) \<and> enqueued tr = [1, 2 :: nat] \<and>
     started tr = take (length (started tr)) (enqueued tr)"
proof -
  let ?p0 = "ThreadPool 2 :: nat pool"
  obtain p1 where p1: "Enqueue 1 ?p0 = (p1, [Enqueued 1])" by (simp add: Enqueue_def)
  obtain p2 where p2: "Enqueue 2 p1 = (p2, [Enqueued 2])" by (simp add: Enqueue_def)
  have r1: "reach (pool_init 2) pool_step (p1, [Enqueued 1])"
    by (rule reach_pool_steps(1) [OF reach_pool_start p1]) simp
  have r: "reach (pool_init 2) pool_step (p2, [Enqueued 1, Enqueued 2])"
    by (rule reach_pool_steps(1) [OF r1 p2]) simp
  from tasks_start_in_order [OF r] show ?thesis
    by (intro exI conjI) (rule r, simp, blast)
qed

text \<open>
  While \<open>StopAll\<close> joins, all workers are asked to stop. \<open>waiting\<close> counts those that may
  still take a task, \<open>shutdown_measure\<close> the steps left.
\<close>

definition joining :: "'a pool \<Rightarrow> bool" where
  "joining p \<longleftrightarrow> m_Stopping p = Joining \<and> m_Stop p \<and> list_all snd (m_Threads p)"

fun waits :: "'a worker \<times> bool \<Rightarrow> nat" where
  "waits (Waiting, _) = 1"
| "waits _ = 0"

definition waiting :: "'a pool \<Rightarrow> nat" where
  "waiting p = sum_list (map waits (m_Threads p))"

fun steps_left :: "'a worker \<times> bool \<Rightarrow> nat" where
  "steps_left (Waiting, _) = 3"
| "steps_left (Running _, _) = 2"
| "steps_left (At_Loop, _) = 1"
| "steps_left (Exited, _) = 0"

definition shutdown_measure :: "'a pool \<Rightarrow> nat" where
  "shutdown_measure p = sum_list (map steps_left (m_Threads p))"

text \<open>\<open>n\<close> steps of the workers, each by some worker, from a pool to a pool.\<close>

fun worker_run :: "nat list \<Rightarrow> 'a pool \<Rightarrow> ('a pool \<times> 'a pool_event list) option" where
  "worker_run [] p = Some (p, [])"
| "worker_run (i # is) p =
     (case worker_step i p of None \<Rightarrow> None
      | Some (q, ev) \<Rightarrow> (case worker_run is q of None \<Rightarrow> None | Some (r, ev2) \<Rightarrow> Some (r, ev @ ev2)))"

lemma sum_list_update_nat:
  fixes f :: "'x \<Rightarrow> nat"
  shows "i < length xs \<Longrightarrow> sum_list (map f (xs[i := y])) + f (xs ! i) = sum_list (map f xs) + f y"
proof (induction xs arbitrary: i)
  case (Cons x xs)
  then show ?case by (cases i) (simp_all add: ac_simps)
qed simp

definition stop_inv :: "'a pool \<times> 'a pool_event list \<Rightarrow> bool" where
  "stop_inv = (\<lambda>(p, tr).
     case m_Stopping p of
       Idle \<Rightarrow> True
     | Requesting i \<Rightarrow> m_Stop p \<and> i \<le> length (m_Threads p) \<and> list_all snd (take i (m_Threads p))
     | Joining \<Rightarrow> m_Stop p \<and> list_all snd (m_Threads p))"

lemma set_worker_keeps [simp]:
  "map snd (m_Threads (set_worker i w p)) = map snd (m_Threads p)"
  "m_Stopping (set_worker i w p) = m_Stopping p" "m_Stop (set_worker i w p) = m_Stop p"
proof -
  have "(map snd (m_Threads p))[i := snd (m_Threads p ! i)] = map snd (m_Threads p)"
    by (metis length_map list_update_beyond list_update_id not_le nth_map)
  then show "map snd (m_Threads (set_worker i w p)) = map snd (m_Threads p)"
    by (simp add: set_worker_def map_update)
qed (simp_all add: set_worker_def)

lemma worker_step_keeps:
  assumes "worker_step i p = Some (p', ev)"
  shows "map snd (m_Threads p') = map snd (m_Threads p) \<and> m_Stopping p' = m_Stopping p \<and>
         m_Stop p' = m_Stop p"
  using assms
  by (auto simp: worker_step_def split: if_split_asm prod.split_asm worker.split_asm option.split_asm)

lemma list_all_snd: "list_all snd xs \<longleftrightarrow> list_all id (map snd xs)"
  by (simp add: list.pred_map)

interpretation stopping: invariant_system "pool_init n" pool_step stop_inv for n
proof
  fix s t :: "'a pool \<times> 'a pool_event list"
  show "pool_init n s \<Longrightarrow> stop_inv s"
    by (auto simp: pool_init_def stop_inv_def ThreadPool_def)
  assume inv: "stop_inv s" and "pool_step s t"
  from this(2) show "stop_inv t"
  proof cases
    case (enqueue fn p p' ev tr)
    then show ?thesis using inv by (auto simp: Enqueue_def stop_inv_def split: stop_pc.splits)
  next
    case (work i p p' ev tr)
    note k = worker_step_keeps [OF work(3)]
    have "length (m_Threads p') = length (m_Threads p)" using k by (metis length_map)
    moreover have "list_all snd (take j (m_Threads p')) = list_all snd (take j (m_Threads p))" for j
      unfolding list_all_snd take_map [symmetric] using k by simp
    moreover have "list_all snd (m_Threads p') = list_all snd (m_Threads p)"
      unfolding list_all_snd using k by simp
    ultimately show ?thesis using inv work k by (simp add: stop_inv_def split: stop_pc.splits)
  next
    case (stop p p' ev tr)
    then show ?thesis using inv
      by (auto simp: StopAll_step_def stop_inv_def take_Suc_conv_app_nth split: stop_pc.splits if_splits)
  qed
qed

text \<open>One step of a worker while \<open>StopAll\<close> joins.\<close>

lemma joining_step:
  assumes "joining p" and "worker_step i p = Some (p', ev)"
  shows "joining p' \<and> shutdown_measure p' < shutdown_measure p \<and>
         length (started ev) + waiting p' \<le> waiting p"
proof -
  have i: "i < length (m_Threads p)" using assms(2) by (auto simp: worker_step_def split: if_splits)
  obtain w where w: "m_Threads p ! i = (w, True)"
    using assms(1) i by (cases "m_Threads p ! i") (fastforce simp: joining_def list_all_length)
  have j: "joining p'"
    using assms(1) worker_step_keeps [OF assms(2)] unfolding joining_def list_all_snd by simp
  have dec: "shutdown_measure (set_worker i v q) < shutdown_measure p \<and>
      k + waiting (set_worker i v q) \<le> waiting p"
    if "m_Threads q = m_Threads p" "steps_left (v, True) < steps_left (w, True)"
      "k + waits (v, True) \<le> waits (w, True)" for v q k
    using sum_list_update_nat [OF i, of steps_left "(v, True)"] sum_list_update_nat [OF i, of waits "(v, True)"]
      that w by (simp add: shutdown_measure_def waiting_def set_worker_def)
  show ?thesis
  proof (cases w)
    case Waiting
    then show ?thesis
      using assms(2) i w j dec [of p Exited 0] dec [of "p\<lparr>m_Tasks := _\<rparr>" "Running _" 1]
      by (auto simp: worker_step_def split: option.splits if_splits)
  qed (use assms(2) i w j dec [of p Exited 0] dec [of p At_Loop 0] in \<open>auto simp: worker_step_def\<close>)
qed

lemma joining_run:
  assumes "joining p" and "worker_run is p = Some (q, ev)"
  shows "joining q \<and> length is + shutdown_measure q \<le> shutdown_measure p \<and>
         length (started ev) + waiting q \<le> waiting p"
  using assms
proof (induction "is" arbitrary: p ev)
  case (Cons i "is")
  then obtain p1 e1 e2 where s: "worker_step i p = Some (p1, e1)"
    and r: "worker_run is p1 = Some (q, e2)" and ev: "ev = e1 @ e2"
    by (auto split: option.splits prod.splits)
  from joining_step [OF Cons.prems(1) s] Cons.IH [OF _ r] ev show ?case by fastforce
qed simp

text \<open>A worker that has not exited can move, as the stop flag is set.\<close>

lemma joining_progress:
  assumes "m_Stop p" and "\<not> list_all (\<lambda>(w, _). w = Exited) (m_Threads p)"
  shows "\<exists>i. worker_step i p \<noteq> None"
proof -
  from assms(2) obtain i where i: "i < length (m_Threads p)" and ne: "fst (m_Threads p ! i) \<noteq> Exited"
    by (auto simp: list_all_length case_prod_beta)
  have "worker_step i p \<noteq> None"
    using i ne assms(1)
    by (auto simp: worker_step_def split: prod.splits worker.splits option.splits)
  then show ?thesis ..
qed

lemma joining_ends:
  assumes "joining p"
  shows "\<exists>is q ev. worker_run is p = Some (q, ev) \<and> list_all (\<lambda>(w, _). w = Exited) (m_Threads q)"
  using assms
proof (induction "shutdown_measure p" arbitrary: p rule: less_induct)
  case less
  show ?case
  proof (cases "list_all (\<lambda>(w, _). w = Exited) (m_Threads p)")
    case True
    then show ?thesis by (intro exI [of _ "[]"]) simp
  next
    case False
    have "m_Stop p" using less.prems by (simp add: joining_def)
    then obtain i p1 e1 where s: "worker_step i p = Some (p1, e1)"
      using joining_progress [OF _ False] by fastforce
    note j = joining_step [OF less.prems s]
    from less.hyps [of p1] j obtain "is" q e2 where "worker_run is p1 = Some (q, e2)"
      "list_all (\<lambda>(w, _). w = Exited) (m_Threads q)" by blast
    then show ?thesis using s by (intro exI [of _ "i # is"]) simp
  qed
qed

lemma joining_reach:
  assumes "reach (pool_init n) pool_step (p, tr)" and "m_Stopping p = Joining"
  shows "joining p"
  using stopping.reach_inv [OF assms(1)] assms(2) by (simp add: stop_inv_def joining_def)

text \<open>
  Property C35: \<open>StopAll\<close> returns as soon as the running tasks do. From the moment all
  workers have been asked to stop, however they are scheduled, they take at most three steps
  each and start at most one more task per waiting worker; they can go on until all have
  exited, and then the join succeeds.
\<close>

theorem stop_all_returns:
  assumes "reach (pool_init n) pool_step (p, tr)" and "m_Stopping p = Joining"
  shows "(\<forall>is q ev. worker_run is p = Some (q, ev) \<longrightarrow>
            length is \<le> 3 * n \<and> length (started ev) \<le> waiting p) \<and>
         (\<exists>is q ev. worker_run is p = Some (q, ev) \<and>
            StopAll_step q = Some (q\<lparr>m_Threads := [], m_Stopping := Idle\<rparr>, [Joined]))"
proof -
  note j = joining_reach [OF assms]
  have three: "sum_list (map steps_left ws) \<le> 3 * length ws" for ws :: "('a worker \<times> bool) list"
  proof (induction ws)
    case (Cons w ws)
    have "steps_left w \<le> 3" by (cases w rule: steps_left.cases) simp_all
    with Cons show ?case by simp
  qed simp
  have "length (m_Threads p) \<le> n" using pool.reach_inv [OF assms(1)] by (auto simp: pool_inv_def)
  then have m: "shutdown_measure p \<le> 3 * n"
    using three [of "m_Threads p"] by (simp add: shutdown_measure_def)
  obtain "is" q ev where r: "worker_run is p = Some (q, ev)"
    and ex: "list_all (\<lambda>(w, _). w = Exited) (m_Threads q)" using joining_ends [OF j] by blast
  have "m_Stopping q = Joining" using joining_run [OF j r] by (simp add: joining_def)
  with ex have "StopAll_step q = Some (q\<lparr>m_Threads := [], m_Stopping := Idle\<rparr>, [Joined])"
    by (simp add: StopAll_step_def)
  then show ?thesis using joining_run [OF j] m r by fastforce
qed

text \<open>A pool of one worker in \<open>StopAll\<close>, with a task still queued.\<close>

definition stopped_pool :: "nat pool" where
  "stopped_pool = \<lparr>m_Threads = [(At_Loop, True)], m_Tasks = [7], m_Stop = True, m_Stopping = Joining\<rparr>"

lemma stopped_pool_reach:
  "reach (pool_init 1) pool_step (stopped_pool, [Enqueued 7, Stopped])"
proof -
  let ?p1 = "\<lparr>m_Threads = [(At_Loop, False)], m_Tasks = [7 :: nat], m_Stop = False, m_Stopping = Idle\<rparr>"
  have r1: "reach (pool_init 1) pool_step (?p1, [Enqueued 7])"
    by (rule reach_pool_steps(1) [OF reach_pool_start, of 7])
      (simp_all add: Enqueue_def ThreadPool_def queue_push_def)
  have r2: "reach (pool_init 1) pool_step (?p1\<lparr>m_Stop := True, m_Stopping := Requesting 0\<rparr>, [Enqueued 7, Stopped])"
    by (rule reach_pool_steps(3) [OF r1]) (simp_all add: StopAll_step_def)
  have r3: "reach (pool_init 1) pool_step
      (\<lparr>m_Threads = [(At_Loop, True)], m_Tasks = [7 :: nat], m_Stop = True, m_Stopping = Requesting 1\<rparr>,
       [Enqueued 7, Stopped])"
    by (rule reach_pool_steps(3) [OF r2]) (simp_all add: StopAll_step_def)
  show ?thesis
    by (rule reach_pool_steps(3) [OF r3]) (simp_all add: StopAll_step_def stopped_pool_def)
qed

theorem stop_all_returns_witness:
  "\<exists>is q ev. worker_run is stopped_pool = Some (q, ev) \<and>
     StopAll_step q = Some (q\<lparr>m_Threads := [], m_Stopping := Idle\<rparr>, [Joined])"
  using stop_all_returns [OF stopped_pool_reach] by (simp add: stopped_pool_def)

text \<open>After the join there is no thread left to run anything.\<close>

lemma no_threads_step:
  assumes "pool_step s t" and "m_Threads (fst s) = []"
  shows "m_Threads (fst t) = [] \<and> started (snd t) = started (snd s)"
  using assms(1)
proof cases
  case (stop p p' ev tr)
  then show ?thesis
    using assms(2) by (cases "m_Stopping p") (auto simp: StopAll_step_def)
qed (use assms(2) in \<open>auto simp: Enqueue_def worker_step_def\<close>)

text \<open>
  Property C36: stopping does not drain the queue. The comment in \<open>StopAll\<close> says that workers
  stop when the queue is drained, but a worker that is between two tasks sees the stop
  request first: a pool can be joined with a task enqueued before the stop still queued, and
  once joined, no task ever starts, however many are enqueued afterwards.
\<close>

theorem stop_drops_tasks:
  "\<exists>p tr. reach (pool_init 1) pool_step (p, tr) \<and> tr = [Enqueued (7 :: nat), Stopped, Joined] \<and>
     m_Tasks p = [7] \<and>
     \<not> (\<exists>q tr'. pool_step\<^sup>*\<^sup>* (p, tr) (q, tr') \<and> started tr' \<noteq> [])"
proof -
  let ?p1 = "set_worker 0 Exited stopped_pool"
  let ?p2 = "?p1\<lparr>m_Threads := [], m_Stopping := Idle\<rparr>" and ?tr = "[Enqueued 7, Stopped, Joined]"
  have r1: "reach (pool_init 1) pool_step (?p1, [Enqueued 7, Stopped])"
    by (rule reach_pool_steps(2) [OF stopped_pool_reach, of 0])
      (simp_all add: worker_step_def stopped_pool_def)
  have r2: "reach (pool_init 1) pool_step (?p2, ?tr)"
    by (rule reach_pool_steps(3) [OF r1])
      (simp_all add: StopAll_step_def stopped_pool_def set_worker_def)
  have dead: "m_Threads (fst t) = [] \<and> started (snd t) = []"
    if "pool_step\<^sup>*\<^sup>* s t" "m_Threads (fst s) = [] \<and> started (snd s) = []"
    for s t :: "nat pool \<times> nat pool_event list"
    using that by (induction rule: rtranclp_induct) (use no_threads_step in auto)
  have "started tr' = []" if "pool_step\<^sup>*\<^sup>* (?p2, ?tr) (q, tr')" for q tr'
    using dead [OF that] by simp
  then show ?thesis
    using r2 by (intro exI [of _ ?p2] exI [of _ ?tr]) (auto simp: set_worker_def stopped_pool_def)
qed

end
