(* ===== verification/StdMap.thy ===== *)
theory StdMap
  imports Prelude
begin

section \<open>std::map: the interface the servers and the server layer use\<close>

text \<open>
  \<open>m_Connections\<close> and \<open>m_Cmds\<close> are \<open>std::map\<close>s. The interface is the locale \<open>ordered_map\<close>;
  the model of a map is the list of its elements in key order, which is the order of its
  iterators.
\<close>

locale ordered_map =
  fixes ok :: "'m \<Rightarrow> bool" and emp :: "'m" and find :: "'m \<Rightarrow> 'k::linorder \<Rightarrow> 'v option"
    and put :: "'k \<Rightarrow> 'v \<Rightarrow> 'm \<Rightarrow> 'm" and erase :: "'k \<Rightarrow> 'm \<Rightarrow> 'm" and keys :: "'m \<Rightarrow> 'k list"
  assumes ok_emp: "ok emp" and ok_put: "ok m \<Longrightarrow> ok (put k v m)" and ok_erase: "ok m \<Longrightarrow> ok (erase k m)"
    and find_emp: "find emp k = None"
    and find_put: "ok m \<Longrightarrow> find (put k v m) l = (if l = k then Some v else find m l)"
    and find_erase: "ok m \<Longrightarrow> find (erase k m) l = (if l = k then None else find m l)"
    and set_keys: "ok m \<Longrightarrow> set (keys m) = dom (find m)"
    and order_keys: "ok m \<Longrightarrow> sorted_wrt (<) (keys m)"
    and extensional: "ok m \<Longrightarrow> ok n \<Longrightarrow> find m = find n \<Longrightarrow> m = n"
begin

lemma distinct_keys: "ok m \<Longrightarrow> distinct (keys m)"
  using order_keys strict_sorted_iff by blast

lemma erase_absent: "ok m \<Longrightarrow> find m k = None \<Longrightarrow> erase k m = m"
  by (intro extensional ok_erase) (auto simp: find_erase)

lemma erase_put: "ok m \<Longrightarrow> find m k = None \<Longrightarrow> erase k (put k v m) = m"
  by (intro extensional ok_erase ok_put) (auto simp: find_erase find_put ok_put)

lemma put_put: "ok m \<Longrightarrow> put k w (put k v m) = put k w m"
  by (intro extensional ok_put) (auto simp: find_put ok_put)

lemma erase_commute: "ok m \<Longrightarrow> erase k (erase l m) = erase l (erase k m)"
  by (intro extensional ok_erase) (auto simp: find_erase ok_erase)

lemma keys_empty: "ok m \<Longrightarrow> keys m = [] \<longleftrightarrow> m = emp"
proof
  assume m: "ok m" and "keys m = []"
  then have "find m = find emp"
    using set_keys [OF m] by (simp add: fun_eq_iff find_emp) (metis domIff empty_iff)
  then show "m = emp" using m by (intro extensional ok_emp)
next
  assume "ok m" and "m = emp"
  moreover have "dom (find emp) = {}" using find_emp by auto
  ultimately show "keys m = []" using set_keys by fastforce
qed

end

subsection \<open>The model\<close>

type_synonym ('k, 'v) std_map = "('k \<times> 'v) list"

fun map_put :: "'k::linorder \<Rightarrow> 'v \<Rightarrow> ('k, 'v) std_map \<Rightarrow> ('k, 'v) std_map" where
  "map_put k v [] = [(k, v)]"
| "map_put k v ((a, b) # m) =
     (if k = a then (k, v) # m else if k < a then (k, v) # (a, b) # m else (a, b) # map_put k v m)"

fun map_erase :: "'k::linorder \<Rightarrow> ('k, 'v) std_map \<Rightarrow> ('k, 'v) std_map" where
  "map_erase k [] = []"
| "map_erase k ((a, b) # m) = (if k = a then m else (a, b) # map_erase k m)"

definition map_keys :: "('k, 'v) std_map \<Rightarrow> 'k list" where
  "map_keys m = map fst m"

definition map_ok :: "('k::linorder, 'v) std_map \<Rightarrow> bool" where
  "map_ok m \<longleftrightarrow> sorted_wrt (<) (map fst m)"

lemma set_map_put: "set (map fst (map_put k v m)) = insert k (set (map fst m))"
  by (induction m rule: map_put.induct) auto

lemma set_map_erase: "x \<in> fst ` set (map_erase k m) \<Longrightarrow> x \<in> fst ` set m"
  by (induction m rule: map_erase.induct) (auto split: if_splits)

lemma map_ok_Cons: "map_ok ((a, b) # m) \<longleftrightarrow> (\<forall>x \<in> set (map fst m). a < x) \<and> map_ok m"
  by (simp add: map_ok_def)

lemma map_ok_put: "map_ok m \<Longrightarrow> map_ok (map_put k v m)"
proof (induction m rule: map_put.induct)
  case (2 k v a b m)
  then show ?case using set_map_put [of k v m] by (auto simp: map_ok_Cons)
qed (simp add: map_ok_def)

lemma map_ok_erase: "map_ok m \<Longrightarrow> map_ok (map_erase k m)"
proof (induction m rule: map_erase.induct)
  case (2 k a b m)
  have "a < x" if "x \<in> fst ` set (map_erase k m)" for x
    using set_map_erase [OF that] 2(2) by (auto simp: map_ok_Cons)
  then show ?case using 2 by (simp add: map_ok_Cons)
qed (simp add: map_ok_def)

lemma map_of_put: "map_ok m \<Longrightarrow> map_of (map_put k v m) l = (if l = k then Some v else map_of m l)"
proof (induction m)
  case (Cons x m)
  then show ?case by (cases x) (auto simp: map_ok_Cons)
qed simp

lemma map_of_smaller: "map_ok ((a, b) # m) \<Longrightarrow> map_of m a = None"
  by (force simp: map_ok_Cons map_of_eq_None_iff)

lemma map_of_erase: "map_ok m \<Longrightarrow> map_of (map_erase k m) l = (if l = k then None else map_of m l)"
proof (induction m rule: map_erase.induct)
  case (2 k a b m)
  then show ?case using map_of_smaller [OF 2(2)] by (auto simp: map_ok_Cons)
qed simp

lemma map_ok_ext: "map_ok m \<Longrightarrow> map_ok n \<Longrightarrow> map_of m = map_of n \<Longrightarrow> m = n"
proof (induction m arbitrary: n)
  case Nil
  then have "map_of n k = None" for k by (metis map_of.simps(1))
  then show ?case by (metis list.exhaust map_of_Cons_code(2) option.distinct(1) prod.collapse)
next
  case (Cons x m)
  obtain a b where x: "x = (a, b)" by fastforce
  from Cons.prems(3) have "n \<noteq> []" by (auto simp: x fun_eq_iff) (metis map_of.simps(1) option.distinct(1))
  then obtain c d n' where n: "n = (c, d) # n'" by (cases n) auto
  have lt: "\<forall>y \<in> set (map fst m). a < y" "\<forall>y \<in> set (map fst n'). c < y"
    using Cons.prems by (auto simp: x n map_ok_Cons)
  have dom: "insert a (set (map fst m)) = insert c (set (map fst n'))"
    using arg_cong [OF Cons.prems(3), of dom] unfolding dom_map_of_conv_image_fst by (simp add: x n)
  have ac: "a = c"
  proof (rule ccontr)
    assume "a \<noteq> c"
    then have "a \<in> set (map fst n')" "c \<in> set (map fst m)" using dom by auto
    then show False using lt by fastforce
  qed
  have "Some b = Some d" using fun_cong [OF Cons.prems(3), of a] by (simp add: x n ac)
  moreover have "map_of m = map_of n'"
  proof
    fix k show "map_of m k = map_of n' k"
      using fun_cong [OF Cons.prems(3), of k] map_of_smaller [OF Cons.prems(1) [unfolded x]]
        map_of_smaller [OF Cons.prems(2) [unfolded n]]
      by (cases "k = a") (auto simp: x n ac)
  qed
  ultimately show ?case using Cons.IH [of n'] Cons.prems(1,2) by (simp add: x n ac map_ok_Cons)
qed

interpretation smap: ordered_map map_ok "[]" map_of map_put map_erase map_keys
proof
  show "map_ok []" by (simp add: map_ok_def)
  show "sorted_wrt (<) (map_keys m)" if "map_ok m" for m :: "('a, 'b) std_map"
    using that by (simp add: map_ok_def map_keys_def)
  show "set (map_keys m) = dom (map_of m)" for m :: "('a, 'b) std_map"
    by (simp add: map_keys_def dom_map_of_conv_image_fst)
qed (auto intro: map_ok_put map_ok_erase map_ok_ext simp: map_of_put map_of_erase)


lemma in_map_put: "x \<in> set (map_put k v m) \<Longrightarrow> x = (k, v) \<or> x \<in> set m"
  by (induction k v m rule: map_put.induct) (auto split: if_splits)

lemma in_map_erase: "x \<in> set (map_erase k m) \<Longrightarrow> x \<in> set m"
  by (induction k m rule: map_erase.induct) (auto split: if_splits)

end
