(* ===== verification/Buffers.thy ===== *)
theory Buffers
  imports CxxText
begin

section \<open>aero/core/buffer.h and aero/networking/utils.h: buffers and byte order\<close>

text \<open>
  \<open>aero::Buffer\<close> is a pointer and a size without ownership: copying the struct copies the
  pointer, and only \<open>Release\<close> and \<open>Allocate\<close> free. So the storage is modelled as a heap of
  the blocks that \<open>new uint8_t[n]\<close> returned and \<open>delete[]\<close> has not freed; using a block
  that is not there is \<open>Invalid_Storage\<close>. A byte is \<open>None\<close> until it is written. Sizes are
  natural numbers, as each is the length of an object in memory.
\<close>

subsection \<open>Storage\<close>

record heap =
  blocks :: "nat \<rightharpoonup> u8 option list"
  fresh :: nat

definition heap_ok :: "heap \<Rightarrow> bool" where
  "heap_ok h \<longleftrightarrow> 0 < fresh h \<and> (\<forall>a \<in> dom (blocks h). 0 < a \<and> a < fresh h)"

text \<open>\<open>new uint8_t[n]\<close> at an address not used before, and \<open>delete[]\<close>.\<close>

definition new_block :: "nat \<Rightarrow> heap \<Rightarrow> nat \<times> heap" where
  "new_block n h =
     (fresh h, h\<lparr>blocks := (blocks h)(fresh h \<mapsto> replicate n None), fresh := Suc (fresh h)\<rparr>)"

definition delete_block :: "nat \<Rightarrow> heap \<Rightarrow> ub + heap" where
  "delete_block a h =
     (if a \<in> dom (blocks h) then Inr (h\<lparr>blocks := (blocks h)(a := None)\<rparr>) else Inl Invalid_Storage)"

text \<open>Writing bytes at the start of a block, and reading the first \<open>n\<close>; nothing for none.\<close>

definition store :: "nat \<Rightarrow> u8 option list \<Rightarrow> heap \<Rightarrow> ub + heap" where
  "store a bs h =
     (if bs = [] then Inr h
      else case blocks h a of
        None \<Rightarrow> Inl Invalid_Storage
      | Some old \<Rightarrow>
          if length old < length bs then Inl Out_Of_Bounds
          else Inr (h\<lparr>blocks := (blocks h)(a \<mapsto> bs @ drop (length bs) old)\<rparr>))"

definition load :: "nat \<Rightarrow> nat \<Rightarrow> heap \<Rightarrow> ub + u8 option list" where
  "load a n h =
     (if n = 0 then Inr []
      else case blocks h a of
        None \<Rightarrow> Inl Invalid_Storage
      | Some old \<Rightarrow> if length old < n then Inl Out_Of_Bounds else Inr (take n old))"

text \<open>Bytes handed to the outside, all of which must have been written.\<close>

definition load_bytes :: "nat \<Rightarrow> nat \<Rightarrow> heap \<Rightarrow> ub + u8 list" where
  "load_bytes a n h =
     bind_ub (load a n h)
       (\<lambda>bs. if None \<in> set bs then Inl Indeterminate_Read else Inr (map the bs))"

subsection \<open>Buffer\<close>

record buffer =
  buf_data :: nat
  buf_size :: nat

definition empty_buffer :: buffer where
  "empty_buffer = \<lparr>buf_data = 0, buf_size = 0\<rparr>"

text \<open>\<open>if (data) delete[] data\<close>\<close>

definition free_data :: "buffer \<Rightarrow> heap \<Rightarrow> ub + heap" where
  "free_data b h = (if buf_data b \<noteq> 0 then delete_block (buf_data b) h else Inr h)"

definition Allocate :: "nat \<Rightarrow> buffer \<Rightarrow> heap \<Rightarrow> ub + buffer \<times> heap" where
  "Allocate n b h =
     bind_ub (free_data b h) (\<lambda>h1.
       if n = 0 then Inr (b\<lparr>buf_data := 0\<rparr>, h1)
       else let (a, h2) = new_block n h1 in Inr (\<lparr>buf_data = a, buf_size = n\<rparr>, h2))"

definition Release :: "buffer \<Rightarrow> heap \<Rightarrow> ub + buffer \<times> heap" where
  "Release b h = bind_ub (free_data b h) (\<lambda>h1. Inr (empty_buffer, h1))"

definition Zero :: "buffer \<Rightarrow> heap \<Rightarrow> ub + heap" where
  "Zero b h =
     (if buf_data b \<noteq> 0 then store (buf_data b) (replicate (buf_size b) (Some 0)) h else Inr h)"

text \<open>
  \<open>Copy (const void*, size)\<close>, from bytes outside the heap (an array, a string) and from a
  block; \<open>Copy (const Buffer&)\<close> is the latter.
\<close>

definition Copy_bytes :: "u8 list \<Rightarrow> heap \<Rightarrow> ub + buffer \<times> heap" where
  "Copy_bytes bs h =
     bind_ub (Allocate (length bs) empty_buffer h) (\<lambda>(b, h1).
     bind_ub (store (buf_data b) (map Some bs) h1) (\<lambda>h2. Inr (b, h2)))"

definition Copy :: "nat \<Rightarrow> nat \<Rightarrow> heap \<Rightarrow> ub + buffer \<times> heap" where
  "Copy a n h =
     bind_ub (Allocate n empty_buffer h) (\<lambda>(b, h1).
     bind_ub (load a n h1) (\<lambda>bs.
     bind_ub (store (buf_data b) bs h1) (\<lambda>h2. Inr (b, h2))))"

definition Copy_buffer :: "buffer \<Rightarrow> heap \<Rightarrow> ub + buffer \<times> heap" where
  "Copy_buffer other h = Copy (buf_data other) (buf_size other) h"

subsection \<open>Byte order\<close>

text \<open>The emulator's machines are little-endian, so \<open>htonl\<close> reverses the four bytes.\<close>

definition htonl :: "u32 \<Rightarrow> u32" where
  "htonl w = or (push_bit 24 (and w 0xFF))
            (or (push_bit 8 (and w 0xFF00))
            (or (drop_bit 8 (and w 0xFF0000))
                (and (drop_bit 24 w) 0xFF)))"

text \<open>The words of a block: four bytes each, the least significant first.\<close>

fun swap_words :: "'x list \<Rightarrow> 'x list" where
  "swap_words (a # b # c # d # rest) = d # c # b # a # swap_words rest"
| "swap_words rest = rest"

definition SwapToNetworkOrderInPlace :: "buffer \<Rightarrow> heap \<Rightarrow> ub + heap" where
  "SwapToNetworkOrderInPlace b h =
     (if buf_size b mod 4 \<noteq> 0 then Inr h
      else bind_ub (load (buf_data b) (buf_size b) h) (\<lambda>bs. store (buf_data b) (swap_words bs) h))"

definition HostFloatToBE :: "ieee \<Rightarrow> u32" where
  "HostFloatToBE value = htonl (f32_bits value)"

definition extract_last_octet :: "u32 \<Rightarrow> u32" where
  "extract_last_octet ip_net = and (drop_bit 24 ip_net) 0xFF"

text \<open>
  \<open>InetPtonA\<close> is a parameter: the address in network order for a text it accepts. The code
  tests its result against 0, so it also takes the error value -1 for success, with the
  zero-initialised address; \<open>None\<close> stands for both.
\<close>

definition ipv4_string_to_network_u32 :: "(string \<Rightarrow> u32 option) \<Rightarrow> string \<Rightarrow> u32" where
  "ipv4_string_to_network_u32 inet_pton ip = (case inet_pton (c_str ip) of None \<Rightarrow> 0 | Some a \<Rightarrow> a)"

definition extract_last_octet_ip :: "(string \<Rightarrow> u32 option) \<Rightarrow> string \<Rightarrow> u32" where
  "extract_last_octet_ip inet_pton ip = extract_last_octet (ipv4_string_to_network_u32 inet_pton ip)"

subsection \<open>HexDump\<close>

definition hex_char :: "nat \<Rightarrow> char" where
  "hex_char d = (if d < 10 then char_of (48 + d) else char_of (55 + d))"

definition show_hex2 :: "u8 \<Rightarrow> string" where
  "show_hex2 v = [hex_char (unat v div 16), hex_char (unat v mod 16)]"

definition isprint :: "u8 \<Rightarrow> bool" where
  "isprint v \<longleftrightarrow> 32 \<le> v \<and> v < 127"

definition hex_column :: "u8 list \<Rightarrow> nat \<Rightarrow> nat \<Rightarrow> string" where
  "hex_column data i j =
     (if i + j < length data
      then show_hex2 (data ! (i + j)) @ '' '' @ (if (i + 1) mod 16 = 0 then [LF] else [])
      else ''    '')"

definition ascii_column :: "u8 list \<Rightarrow> nat \<Rightarrow> nat \<Rightarrow> string" where
  "ascii_column data i j =
     (if i + j < length data
      then [if isprint (data ! (i + j)) then char_of (unat (data ! (i + j))) else CHR ''.'']
      else [])"

definition dump_line :: "u8 list \<Rightarrow> nat \<Rightarrow> string" where
  "dump_line data i =
     concat (map (hex_column data i) [0..<16]) @ '' | '' @
     concat (map (ascii_column data i) [0..<16]) @ [LF]"

definition HexDump :: "buffer \<Rightarrow> heap \<Rightarrow> ub + string" where
  "HexDump b h =
     bind_ub (load_bytes (buf_data b) (buf_size b) h) (\<lambda>data.
       Inr (concat (map (\<lambda>k. dump_line data (16 * k)) [0..<(length data + 15) div 16])))"

subsection \<open>A buffer that owns its bytes\<close>

definition holds :: "heap \<Rightarrow> buffer \<Rightarrow> u8 list \<Rightarrow> bool" where
  "holds h b bs \<longleftrightarrow> buf_size b = length bs \<and>
     (if bs = [] then buf_data b = 0 else blocks h (buf_data b) = Some (map Some bs))"

lemma heap_ok_null: "heap_ok h \<Longrightarrow> blocks h 0 = None"
  by (auto simp: heap_ok_def domIff)

lemma heap_ok_fresh: "heap_ok h \<Longrightarrow> blocks h (fresh h) = None"
  by (auto simp: heap_ok_def domIff)

lemma holds_not_null: "heap_ok h \<Longrightarrow> holds h b bs \<Longrightarrow> bs \<noteq> [] \<Longrightarrow> buf_data b \<noteq> 0"
  using heap_ok_null [of h] by (cases "buf_data b") (auto simp: holds_def)

lemma empty_buffer_simps [simp]: "buf_data empty_buffer = 0" "buf_size empty_buffer = 0"
  by (simp_all add: empty_buffer_def)

lemma Allocate_fresh:
  "Allocate n empty_buffer h =
     Inr (if n = 0 then (empty_buffer, h) else (\<lparr>buf_data = fresh h, buf_size = n\<rparr>, snd (new_block n h)))"
  by (simp add: Allocate_def free_data_def empty_buffer_def new_block_def)

lemma heap_ok_new: "heap_ok h \<Longrightarrow> heap_ok (snd (new_block n h))"
  by (auto simp: heap_ok_def new_block_def less_Suc_eq split: if_splits)

lemma heap_ok_store: "heap_ok h \<Longrightarrow> store a bs h = Inr h' \<Longrightarrow> heap_ok h'"
  by (auto simp: store_def heap_ok_def domIff split: if_splits option.splits)

text \<open>What every copy is: a new block with the bytes, or nothing for no bytes.\<close>

definition copied :: "heap \<Rightarrow> u8 list \<Rightarrow> buffer \<times> heap" where
  "copied h bs =
     (if bs = [] then (empty_buffer, h)
      else (\<lparr>buf_data = fresh h, buf_size = length bs\<rparr>,
            h\<lparr>blocks := (blocks h)(fresh h \<mapsto> map Some bs), fresh := Suc (fresh h)\<rparr>))"

lemma Copy_bytes_eq: "Copy_bytes bs h = Inr (copied h bs)"
  by (auto simp: Copy_bytes_def Allocate_fresh copied_def new_block_def store_def)

lemma Copy_buffer_eq:
  assumes "heap_ok h" and "holds h b bs"
  shows "Copy_buffer b h = Inr (copied h bs)"
proof (cases "bs = []")
  case False
  then have "buf_data b \<noteq> fresh h" using assms heap_ok_fresh by (fastforce simp: holds_def)
  with False assms(2) show ?thesis
    by (simp add: Copy_buffer_def Copy_def Allocate_fresh copied_def new_block_def load_def store_def
        holds_def)
qed (use assms(2) in \<open>simp add: holds_def Copy_buffer_def Copy_def Allocate_fresh copied_def load_def store_def\<close>)

lemma copied_holds:
  assumes "heap_ok h" and "copied h bs = (b, h')"
  shows "holds h' b bs" and "heap_ok h'"
    and "holds h c cs \<Longrightarrow> holds h' c cs"
    and "blocks h' = (if bs = [] then blocks h else (blocks h)(buf_data b \<mapsto> map Some bs))"
    and "blocks h (buf_data b) = None"
proof -
  show "holds h' b bs" "heap_ok h'"
    "blocks h' = (if bs = [] then blocks h else (blocks h)(buf_data b \<mapsto> map Some bs))"
    using assms by (auto simp: copied_def holds_def heap_ok_def empty_buffer_def less_Suc_eq split: if_splits)
  show "blocks h (buf_data b) = None"
    using assms heap_ok_fresh heap_ok_null by (auto simp: copied_def empty_buffer_def split: if_splits)
  show "holds h' c cs" if "holds h c cs"
    using that assms heap_ok_fresh by (fastforce simp: copied_def holds_def split: if_splits)
qed

lemma Release_eq:
  assumes "heap_ok h" and "holds h b bs"
  shows "Release b h = Inr (empty_buffer, h\<lparr>blocks := (blocks h)(buf_data b := None)\<rparr>)"
proof (cases "bs = []")
  case True
  have "(blocks h)(0 := None) = blocks h" using heap_ok_null [OF assms(1)] by auto
  then show ?thesis using True assms(2) by (simp add: Release_def free_data_def holds_def)
next
  case False
  then show ?thesis using assms(2) holds_not_null [OF assms False]
    by (simp add: Release_def free_data_def delete_block_def holds_def domIff)
qed

lemma heap_ok_free: "heap_ok h \<Longrightarrow> heap_ok (h\<lparr>blocks := (blocks h)(a := None)\<rparr>)"
  by (auto simp: heap_ok_def split: if_splits)

lemma load_bytes_holds:
  assumes "holds h b bs"
  shows "load_bytes (buf_data b) (buf_size b) h = Inr bs"
  using assms by (auto simp: load_bytes_def load_def holds_def comp_def)

text \<open>Copying and then releasing the copy leaves the storage as it was.\<close>

lemma release_copied:
  assumes "heap_ok h" and "copied h bs = (b, h')"
  shows "Release b h' = Inr (empty_buffer, h'\<lparr>blocks := blocks h\<rparr>)"
proof -
  have "(blocks h')(buf_data b := None) = blocks h"
    using copied_holds(4,5) [OF assms] by auto
  then show ?thesis using Release_eq [OF copied_holds(2,1) [OF assms]] by simp
qed

subsection \<open>Properties\<close>

text \<open>
  A copy is independent of its original. \<open>Buffer::Copy\<close> of a buffer that owns its
  bytes always succeeds, both then own the same bytes, releasing either leaves the other
  intact, and releasing the copy leaves exactly the blocks there were before: nothing leaks.
\<close>

theorem copy_is_independent:
  assumes "heap_ok h" and "holds h b bs"
  shows "\<exists>c h'. Copy_buffer b h = Inr (c, h') \<and> heap_ok h' \<and> holds h' c bs \<and> holds h' b bs \<and>
           (\<exists>h1. Release c h' = Inr (empty_buffer, h1) \<and> blocks h1 = blocks h) \<and>
           (\<exists>h2. Release b h' = Inr (empty_buffer, h2) \<and> holds h2 c bs)"
proof -
  obtain c h' where c: "copied h bs = (c, h')" by fastforce
  note k = copied_holds [OF assms(1) c]
  have b: "holds h' b bs" by (rule k(3) [OF assms(2)])
  have ne: "bs = [] \<or> buf_data c \<noteq> buf_data b"
    using k(5) assms(2) by (auto simp: holds_def)
  have "holds (h'\<lparr>blocks := (blocks h')(buf_data b := None)\<rparr>) c bs"
    using k(1) ne by (auto simp: holds_def)
  then show ?thesis
    using Copy_buffer_eq [OF assms] k(1,2) b c release_copied [OF assms(1) c] Release_eq [OF k(2) b]
    by auto
qed

definition sample_heap :: heap where
  "sample_heap = \<lparr>blocks = [1 \<mapsto> [Some 10, Some 20, Some 30, Some 40]], fresh = 2\<rparr>"

definition sample_buffer :: buffer where
  "sample_buffer = \<lparr>buf_data = 1, buf_size = 4\<rparr>"

lemma sample_heap_ok: "heap_ok sample_heap" "holds sample_heap sample_buffer [10, 20, 30, 40]"
  by (auto simp: heap_ok_def sample_heap_def holds_def sample_buffer_def)

theorem copy_is_independent_witness:
  "\<exists>c h'. Copy_buffer sample_buffer sample_heap = Inr (c, h') \<and> holds h' c [10, 20, 30, 40]"
  using copy_is_independent [OF sample_heap_ok] by blast

text \<open>
  What the struct does not protect against: \<open>Release\<close> empties the object it is
  called on, so calling it again does nothing; but the pointer in any other copy of the
  struct dangles, and releasing or reading through it is an error. \<open>Allocate (0)\<close> frees the
  bytes but keeps the old size, so the buffer claims bytes that are not there.
\<close>

lemma dangling_buffers:
  assumes "heap_ok h" and "holds h b bs" and "bs \<noteq> []"
  shows "\<exists>h1. Release b h = Inr (empty_buffer, h1) \<and> Release empty_buffer h1 = Inr (empty_buffer, h1) \<and>
           Release b h1 = Inl Invalid_Storage \<and> Copy_buffer b h1 = Inl Invalid_Storage \<and>
           Allocate 0 b h = Inr (b\<lparr>buf_data := 0\<rparr>, h1) \<and>
           load_bytes 0 (buf_size (b\<lparr>buf_data := 0\<rparr>)) h1 = Inl Invalid_Storage"
proof -
  let ?h1 = "h\<lparr>blocks := (blocks h)(buf_data b := None)\<rparr>"
  have nz: "buf_data b \<noteq> 0" by (rule holds_not_null [OF assms])
  have sz: "buf_size b = length bs" "blocks h (buf_data b) = Some (map Some bs)"
    using assms(2,3) by (auto simp: holds_def)
  have "Copy_buffer b ?h1 = Inl Invalid_Storage"
    using assms sz heap_ok_fresh [OF assms(1)]
    by (auto simp: Copy_buffer_def Copy_def Allocate_fresh new_block_def load_def)
  moreover have "load_bytes 0 (buf_size b) ?h1 = Inl Invalid_Storage"
    using sz assms(3) heap_ok_null [OF assms(1)] by (simp add: load_bytes_def load_def)
  ultimately show ?thesis
    using Release_eq [OF assms(1,2)] nz sz
    by (auto simp: Release_def free_data_def delete_block_def Allocate_def domIff)
qed

lemma swap_words_involution: "swap_words (swap_words xs) = xs"
  by (induction xs rule: swap_words.induct) simp_all

lemma length_swap_words [simp]: "length (swap_words xs) = length xs"
  by (induction xs rule: swap_words.induct) simp_all

lemma swap_words_map: "swap_words (map f xs) = map f (swap_words xs)"
  by (induction xs rule: swap_words.induct) simp_all

lemma swap_words_le: "swap_words (concat (map le_bytes32 ws)) = concat (map (rev \<circ> le_bytes32) ws)"
  by (induction ws) (simp_all add: le_bytes32_def)

lemma swap_words_Nil [simp]: "swap_words xs = [] \<longleftrightarrow> xs = []"
  by (metis length_0_conv length_swap_words)

lemma Swap_eq:
  assumes "holds h b bs" and "length bs mod 4 = 0"
  shows "SwapToNetworkOrderInPlace b h =
           Inr (if bs = [] then h else h\<lparr>blocks := (blocks h)(buf_data b \<mapsto> map Some (swap_words bs))\<rparr>)"
  using assms
  by (auto simp: SwapToNetworkOrderInPlace_def holds_def load_def store_def swap_words_map)

lemma Swap_holds:
  assumes "holds h b bs" and "length bs mod 4 = 0" and "SwapToNetworkOrderInPlace b h = Inr h'"
  shows "holds h' b (swap_words bs)"
  using assms Swap_eq [OF assms(1,2)] by (auto simp: holds_def split: if_splits)

lemma byte_masks:
  assumes "n < 8"
  shows "bit (0xFF :: int) n" "\<not> bit (0xFF00 :: int) n" "bit (0xFF :: nat) n" "\<not> bit (0xFF00 :: nat) n"
proof -
  have "list_all (\<lambda>n. bit (0xFF :: int) n \<and> \<not> bit (0xFF00 :: int) n \<and> bit (0xFF :: nat) n \<and>
      \<not> bit (0xFF00 :: nat) n) [0, 1, 2, 3, 4, 5, 6, 7]" by (simp add: bit_0)
  moreover have "n \<in> set [0, 1, 2, 3, 4, 5, 6, 7]" using assms by auto
  ultimately show "bit (0xFF :: int) n" "\<not> bit (0xFF00 :: int) n" "bit (0xFF :: nat) n"
    "\<not> bit (0xFF00 :: nat) n"
    unfolding list_all_iff by blast+
qed

lemma le_bytes32_htonl: "le_bytes32 (htonl w) = rev (le_bytes32 w)"
  unfolding le_bytes32_def htonl_def
  by (auto intro!: bit_word_eqI simp: bit_simps byte_masks)

text \<open>
  Property C37: byte order. \<open>SwapToNetworkOrderInPlace\<close> turns a buffer of 32-bit words in
  memory order into the same words most significant byte first, which is what \<open>htonl\<close> does
  to each of them (and \<open>HostFloatToBE\<close> to a float); done twice it gives the buffer back.
\<close>

theorem swap_to_network_order:
  assumes "holds h b (concat (map le_bytes32 ws))"
  shows "\<exists>h'. SwapToNetworkOrderInPlace b h = Inr h' \<and>
           holds h' b (concat (map (rev \<circ> le_bytes32) ws)) \<and>
           (\<exists>h2. SwapToNetworkOrderInPlace b h' = Inr h2 \<and> holds h2 b (concat (map le_bytes32 ws))) \<and>
           (\<forall>w. le_bytes32 (htonl w) = rev (le_bytes32 w)) \<and>
           (\<forall>v. le_bytes32 (HostFloatToBE v) = rev (le_bytes32 (f32_bits v)))"
proof -
  have "length (concat (map le_bytes32 ws)) = 4 * length ws" by (induction ws) simp_all
  then have l: "length (concat (map le_bytes32 ws)) mod 4 = 0" by simp
  obtain h' where h': "SwapToNetworkOrderInPlace b h = Inr h'" using Swap_eq [OF assms l] by simp
  have k: "holds h' b (swap_words (concat (map le_bytes32 ws)))" by (rule Swap_holds [OF assms l h'])
  have l2: "length (swap_words (concat (map le_bytes32 ws))) mod 4 = 0" using l by simp
  obtain h2 where h2: "SwapToNetworkOrderInPlace b h' = Inr h2" using Swap_eq [OF k l2] by simp
  have "holds h2 b (concat (map le_bytes32 ws))"
    using Swap_holds [OF k l2 h2] by (simp only: swap_words_involution)
  then show ?thesis
    using h' h2 k by (simp only: swap_words_le le_bytes32_htonl HostFloatToBE_def) blast
qed

theorem swap_to_network_order_witness:
  "\<exists>h'. SwapToNetworkOrderInPlace sample_buffer sample_heap = Inr h' \<and>
     holds h' sample_buffer [40, 30, 20, 10]"
proof -
  have e: "concat (map le_bytes32 [0x281E140A]) = [10, 20, 30, 40]"
    by (simp add: le_bytes32_def)
  have r: "concat (map (rev \<circ> le_bytes32) [0x281E140A]) = [40, 30, 20, 10]"
    by (simp add: le_bytes32_def)
  from swap_to_network_order [OF sample_heap_ok(2) [folded e]] show ?thesis unfolding r by blast
qed

subsection \<open>Serial numbers from addresses\<close>

text \<open>The four numbers of a dotted-quad address as the bytes of \<open>in_addr\<close>.\<close>

definition in_addr :: "u8 \<Rightarrow> u8 \<Rightarrow> u8 \<Rightarrow> u8 \<Rightarrow> u32" where
  "in_addr a b c d =
     or (ucast a) (or (push_bit 8 (ucast b)) (or (push_bit 16 (ucast c)) (push_bit 24 (ucast d))))"

lemma u8_bit: "8 \<le> n \<Longrightarrow> \<not> bit (x :: u8) n"
  using bit_imp_le_length [of x n] by auto

lemma last_octet_in_addr: "extract_last_octet (in_addr a b c d) = ucast d"
proof (rule bit_word_eqI)
  fix n assume "n < LENGTH(32)"
  show "bit (extract_last_octet (in_addr a b c d)) n = bit (ucast d :: u32) n"
    unfolding extract_last_octet_def in_addr_def
    by (cases "n < 8") (auto simp: bit_simps byte_masks u8_bit not_less)
qed

end
