(* ===== verification/Sockets.thy ===== *)
theory Sockets
  imports Prelude
begin

section \<open>aero/networking/socket.h: WinSock and sockets\<close>

text \<open>
  The functions of \<open>socket.h\<close>. What the operating system answers to a call (WSAStartup, socket,
  bind, listen, accept, select, recv) is an argument; what the code asks of it is an event in
  the results. The source is compiled for Windows, where \<open>SOCKET\<close> is an unsigned 64-bit integer:
  its tests whether a new socket is negative never hold.
\<close>

subsection \<open>WinSock instances\<close>

record wsa =
  s_WSAInstances :: int
  s_WSAInitialized :: bool

datatype net_event =
    WSA_Started
  | WSA_Cleaned
  | Closed u64
  | Sent u64 "u8 list"
  | Datagram string u16 "u8 list"
  | Client_Connected u64
  | Client_Disconnected u64

definition InitializeNetworking :: "bool \<Rightarrow> wsa \<Rightarrow> bool \<times> wsa \<times> net_event list" where
  "InitializeNetworking startup_ok w =
     (let w1 = w\<lparr>s_WSAInstances := s_WSAInstances w + 1\<rparr>
      in if s_WSAInitialized w1 then (True, w1, [])
         else if \<not> startup_ok then (False, w1\<lparr>s_WSAInstances := s_WSAInstances w1 - 1\<rparr>, [WSA_Started])
         else (True, w1\<lparr>s_WSAInitialized := True\<rparr>, [WSA_Started]))"

definition CleanupNetworking :: "wsa \<Rightarrow> wsa \<times> net_event list" where
  "CleanupNetworking w =
     (let w1 = w\<lparr>s_WSAInstances := s_WSAInstances w - 1\<rparr>
      in if 0 < s_WSAInstances w1 then (w1, [])
         else (w1\<lparr>s_WSAInitialized := False\<rparr>, [WSA_Cleaned]))"

subsection \<open>Making, binding and closing a socket\<close>

datatype SocketType = TCP | UDP

definition INVALID_SOCKET :: u64 where "INVALID_SOCKET = - 1"
definition SOCKET_ERROR :: int where "SOCKET_ERROR = - 1"

text \<open>The address is indeterminate until it is set; its port is in network order.\<close>

record Socket =
  socket_fd :: u64
  sin_port :: "u16 option"
  sin_addr :: "u32 option"

definition no_socket :: Socket where
  "no_socket = \<lparr>socket_fd = INVALID_SOCKET, sin_port = None, sin_addr = None\<rparr>"

definition htons :: "u16 \<Rightarrow> u16" where
  "htons w = or (push_bit 8 (and w 0xFF)) (drop_bit 8 w)"

text \<open>The operating system's answers to a server that starts.\<close>

record net_env =
  wsa_startup_ok :: bool
  new_socket :: "SocketType \<Rightarrow> u64"
  inet_pton :: "string \<Rightarrow> u32 option"
  bind_rc :: int

definition CreateSocket :: "net_env \<Rightarrow> Socket \<Rightarrow> SocketType \<Rightarrow> u16 \<Rightarrow> string \<Rightarrow> bool \<times> Socket" where
  "CreateSocket env s type port bind_ip =
     (let s1 = s\<lparr>socket_fd := new_socket env type\<rparr>
      in if socket_fd s1 = INVALID_SOCKET then (False, s1)
         else
           let s2 = s1\<lparr>sin_port := Some (htons port)\<rparr>
           in if bind_ip = [] \<or> bind_ip = ''0.0.0.0'' then (True, s2\<lparr>sin_addr := Some 0\<rparr>)
              else case inet_pton env (c_str bind_ip) of
                None \<Rightarrow> (False, s2)
              | Some a \<Rightarrow> (True, s2\<lparr>sin_addr := Some a\<rparr>))"

definition BindSocket :: "net_env \<Rightarrow> Socket \<Rightarrow> bool" where
  "BindSocket env s \<longleftrightarrow> \<not> bind_rc env < 0"

definition CloseSocket :: "u64 \<Rightarrow> net_event list" where
  "CloseSocket s = [Closed s]"

subsection \<open>Waiting for a connection\<close>

text \<open>What \<open>listen\<close> and \<open>accept\<close> answer; the peer's address is in network order.\<close>

record accept_answer =
  listen_rc :: int
  accept_fd :: u64
  peer_port :: u16
  peer_addr :: u32

definition ListenForConnection :: "accept_answer \<Rightarrow> bool" where
  "ListenForConnection a \<longleftrightarrow> listen_rc a \<noteq> SOCKET_ERROR"

definition AcceptConnection :: "accept_answer \<Rightarrow> Socket \<Rightarrow> bool \<times> Socket" where
  "AcceptConnection a client =
     (let c = client\<lparr>socket_fd := accept_fd a\<rparr>
      in if socket_fd c = INVALID_SOCKET then (False, c)
         else (True, c\<lparr>sin_port := Some (peer_port a), sin_addr := Some (peer_addr a)\<rparr>))"

text \<open>
  Whether a connection is still there, for the answers of \<open>select\<close> and of \<open>recv\<close> with
  \<open>MSG_PEEK\<close>. The first argument of \<open>select\<close> is the socket as an \<open>int\<close>, plus one, which can
  overflow.
\<close>

definition PollConnection :: "int \<Rightarrow> int \<Rightarrow> Socket \<Rightarrow> ub + bool" where
  "PollConnection select_rc recv_rc s =
     (if sint (ucast (socket_fd s) :: 32 word) + 1 \<ge> 2 ^ 31 then Inl Unrepresentable
      else Inr (if select_rc < 0 then False else if select_rc = 0 then True else \<not> recv_rc < 0))"

text \<open>
  A connection that its peer has closed answers \<open>select\<close> with 1 and \<open>recv\<close> with 0, and passes
  for one that is there.
\<close>

lemma closed_connection_polls_alive:
  assumes "uint (socket_fd s) < 2 ^ 31 - 1"
  shows "PollConnection 1 0 s = Inr True"
proof -
  have "uint (ucast (socket_fd s) :: 32 word) = uint (socket_fd s)"
    using assms by (simp add: unsigned_ucast_eq take_bit_int_eq_self)
  moreover have "- (2 ^ 31) \<le> uint (socket_fd s)" by (rule order_trans [OF _ uint_ge_0]) simp
  ultimately have "sint (ucast (socket_fd s) :: 32 word) = uint (socket_fd s)"
    using assms signed_take_bit_int_eq_self [of 31 "uint (socket_fd s)"] by (simp add: sint_uint)
  then show ?thesis using assms by (simp add: PollConnection_def)
qed

lemma PollConnection_cases:
  "PollConnection select_rc recv_rc s = Inr True \<Longrightarrow> 0 \<le> select_rc \<and> (select_rc = 0 \<or> 0 \<le> recv_rc)"
  by (auto simp: PollConnection_def split: if_splits)

end
