(* ===== verification/Server.thy ===== *)
theory Server
  imports ThreadPool StdMap Buffers Sockets
begin

section \<open>aero/networking: the server\<close>

text \<open>
  Class \<open>aero::networking::Server\<close> (\<open>server.h\<close>, \<open>server.cpp\<close>), over \<open>Sockets\<close>. The
  operating system's answers (WSAStartup, socket, bind, accept, recv) are arguments; what the
  code asks of it, and the calls of the server's callbacks, are events in the results, in the
  order of the calls. \<open>m_Pool\<close> is the member that the code calls \<open>m_Threads\<close>, a thread pool
  whose tasks are the three thread functions.
\<close>

subsection \<open>The server's state\<close>

record ClientInfo =
  client_id :: u64
  client_ip :: string
  client_port :: u16

record ServerInfo =
  info_workers :: nat
  info_bind_ip :: string
  info_port :: u16
  info_buffer_size :: nat
  info_enable_udp :: bool

record DataPacket =
  packet_ip :: string
  packet_port :: u16
  packet_data :: buffer

datatype server_task = AcceptConnectionThread | DataStreamThread | HandleConnectionThread u64

record Server =
  m_ServerInfo :: ServerInfo
  m_Connections :: "(u64, ClientInfo) std_map"
  m_DataQueue :: "DataPacket list"
  m_ServerIsRunning :: bool
  m_ServerSocket :: Socket
  m_StreamSocket :: Socket
  m_DataReceivedCallback :: bool
  m_ClientConnectCallback :: bool
  m_ClientDisconnectCallback :: bool
  m_Pool :: "server_task pool"

definition Server :: "ServerInfo \<Rightarrow> Server" where
  "Server info = \<lparr>m_ServerInfo = info, m_Connections = [], m_DataQueue = [],
     m_ServerIsRunning = False, m_ServerSocket = no_socket, m_StreamSocket = no_socket,
     m_DataReceivedCallback = False, m_ClientConnectCallback = False,
     m_ClientDisconnectCallback = False, m_Pool = ThreadPool (info_workers info)\<rparr>"

definition IsClientConnected :: "u64 \<Rightarrow> Server \<Rightarrow> bool" where
  "IsClientConnected cid s \<longleftrightarrow> map_of (m_Connections s) cid \<noteq> None"

definition IsRunning :: "Server \<Rightarrow> bool" where
  "IsRunning s \<longleftrightarrow> m_ServerIsRunning s"

definition SetDataRecvCallback :: "Server \<Rightarrow> Server" where
  "SetDataRecvCallback s = s\<lparr>m_DataReceivedCallback := True\<rparr>"

definition SetClientConCallback :: "Server \<Rightarrow> Server" where
  "SetClientConCallback s = s\<lparr>m_ClientConnectCallback := True\<rparr>"

definition SetClientDisconCallback :: "Server \<Rightarrow> Server" where
  "SetClientDisconCallback s = s\<lparr>m_ClientDisconnectCallback := True\<rparr>"

lemmas callback_defs = IsRunning_def SetDataRecvCallback_def SetClientConCallback_def SetClientDisconCallback_def

definition enqueue_task :: "server_task \<Rightarrow> Server \<Rightarrow> Server" where
  "enqueue_task t s = s\<lparr>m_Pool := fst (Enqueue t (m_Pool s))\<rparr>"

subsection \<open>Start and stop\<close>

text \<open>
  A UDP socket that cannot be created ends \<open>Start\<close> after the networking clean-up, but leaves
  the server running with its accept thread.
\<close>

definition start_stream :: "net_env \<Rightarrow> wsa \<Rightarrow> Server \<Rightarrow> Server \<times> wsa \<times> net_event list" where
  "start_stream env w s =
     (let info = m_ServerInfo s;
          (ok, sock) = CreateSocket env (m_StreamSocket s) UDP (info_port info) (info_bind_ip info);
          s1 = s\<lparr>m_StreamSocket := sock\<rparr>
      in if \<not> ok then let (w1, ev) = CleanupNetworking w in (s1, w1, ev)
         else (enqueue_task DataStreamThread s1, w, []))"

definition Start_server :: "net_env \<Rightarrow> wsa \<Rightarrow> Server \<Rightarrow> Server \<times> wsa \<times> net_event list" where
  "Start_server env w s =
     (let info = m_ServerInfo s; (ok, w1, ev1) = InitializeNetworking (wsa_startup_ok env) w
      in if \<not> ok then (s, w1, ev1)
         else
           let (ok, sock) = CreateSocket env (m_ServerSocket s) TCP (info_port info) (info_bind_ip info);
               s1 = s\<lparr>m_ServerSocket := sock\<rparr>
           in if \<not> ok then let (w2, ev2) = CleanupNetworking w1 in (s1, w2, ev1 @ ev2)
              else if \<not> BindSocket env sock
              then let (w2, ev2) = CleanupNetworking w1
                   in (s1, w2, ev1 @ CloseSocket (socket_fd sock) @ ev2)
              else
                let s2 = enqueue_task AcceptConnectionThread (s1\<lparr>m_ServerIsRunning := True\<rparr>)
                in if info_enable_udp info
                   then let (s3, w3, ev3) = start_stream env w1 s2 in (s3, w3, ev1 @ ev3)
                   else (s2, w1, ev1))"

definition KickClient :: "u64 \<Rightarrow> Server \<Rightarrow> Server \<times> net_event list" where
  "KickClient cid s =
     (s\<lparr>m_Connections := map_erase cid (m_Connections s)\<rparr>,
      (if m_ClientDisconnectCallback s then [Client_Disconnected cid] else []) @ CloseSocket cid)"

text \<open>
  \<open>Stop\<close> loops over \<open>m_Connections\<close> while \<open>KickClient\<close> erases the element the loop is at, so
  with a client connected the loop goes on from an erased element. The definition goes as far
  as the call of \<open>StopAll\<close>, whose steps are those of \<open>ThreadPool\<close>.
\<close>

definition Stop :: "wsa \<Rightarrow> Server \<Rightarrow> ub + Server \<times> wsa \<times> net_event list" where
  "Stop w s =
     (let s1 = s\<lparr>m_ServerIsRunning := False\<rparr>
      in case m_Connections s1 of
           _ # _ \<Rightarrow> Inl Invalid_Iterator
         | [] \<Rightarrow>
             let (w1, ev) = CleanupNetworking w
             in Inr (s1\<lparr>m_Connections := [], m_Pool := (m_Pool s1)\<lparr>m_Stop := True, m_Stopping := Requesting 0\<rparr>\<rparr>,
                     w1,
                     CloseSocket (socket_fd (m_ServerSocket s1)) @
                     CloseSocket (socket_fd (m_StreamSocket s1)) @ ev))"

subsection \<open>Sending\<close>

definition bytes_of :: "string \<Rightarrow> u8 list" where
  "bytes_of str = map (\<lambda>c. of_nat (of_char c)) str"

definition SendBufferToAll :: "buffer \<Rightarrow> Server \<Rightarrow> heap \<Rightarrow> ub + heap \<times> net_event list" where
  "SendBufferToAll buf s h =
     bind_ub (if m_Connections s = [] then Inr [] else load_bytes (buf_data buf) (buf_size buf) h)
       (\<lambda>bs. bind_ub (Release buf h)
               (\<lambda>(_, h1). Inr (h1, map (\<lambda>(_, client). Sent (client_id client) bs) (m_Connections s))))"

definition SendBuffer :: "u64 \<Rightarrow> buffer \<Rightarrow> Server \<Rightarrow> heap \<Rightarrow> ub + heap \<times> net_event list" where
  "SendBuffer cid buf s h =
     (if cid = 0 then SendBufferToAll buf s h
      else case map_of (m_Connections s) cid of
        None \<Rightarrow> bind_ub (Release buf h) (\<lambda>(_, h1). Inr (h1, []))
      | Some client \<Rightarrow>
          bind_ub (load_bytes (buf_data buf) (buf_size buf) h) (\<lambda>bs.
          bind_ub (Release buf h) (\<lambda>(_, h1). Inr (h1, [Sent (client_id client) bs]))))"

definition SendString :: "u64 \<Rightarrow> string \<Rightarrow> Server \<Rightarrow> heap \<Rightarrow> ub + heap \<times> net_event list" where
  "SendString cid str s h = bind_ub (Copy_bytes (bytes_of str) h) (\<lambda>(b, h1). SendBuffer cid b s h1)"

definition SendStringToAll :: "string \<Rightarrow> Server \<Rightarrow> heap \<Rightarrow> ub + heap \<times> net_event list" where
  "SendStringToAll str s h = bind_ub (Copy_bytes (bytes_of str) h) (\<lambda>(b, h1). SendBufferToAll b s h1)"

text \<open>
  \<open>SendData\<close> and \<open>SendDataToAll\<close> wrap an object of \<open>n\<close> bytes at address \<open>a\<close> in a buffer without
  copying it, and the send releases the buffer.
\<close>

definition SendData :: "u64 \<Rightarrow> nat \<Rightarrow> nat \<Rightarrow> Server \<Rightarrow> heap \<Rightarrow> ub + heap \<times> net_event list" where
  "SendData cid a n s h = SendBuffer cid \<lparr>buf_data = a, buf_size = n\<rparr> s h"

definition SendDataToAll :: "nat \<Rightarrow> nat \<Rightarrow> Server \<Rightarrow> heap \<Rightarrow> ub + heap \<times> net_event list" where
  "SendDataToAll a n s h = SendBufferToAll \<lparr>buf_data = a, buf_size = n\<rparr> s h"

lemma SendBufferToAll_unowned:
  "buf_data b \<noteq> 0 \<Longrightarrow> blocks h (buf_data b) = None \<Longrightarrow> SendBufferToAll b s h = Inl Invalid_Storage"
  by (auto simp: SendBufferToAll_def load_bytes_def load_def Release_def free_data_def delete_block_def domIff)

lemma SendData_undefined:
  assumes "a \<noteq> 0" and "blocks h a = None"
  shows "SendData cid a n s h = Inl Invalid_Storage" and "SendDataToAll a n s h = Inl Invalid_Storage"
  using assms SendBufferToAll_unowned [of "\<lparr>buf_data = a, buf_size = n\<rparr>" h]
  by (auto simp: SendData_def SendDataToAll_def SendBuffer_def load_bytes_def load_def Release_def free_data_def
      delete_block_def domIff split: option.split)

subsection \<open>Streaming\<close>

definition StreamTo :: "string \<Rightarrow> u16 \<Rightarrow> buffer \<Rightarrow> Server \<Rightarrow> heap \<Rightarrow> ub + Server \<times> heap" where
  "StreamTo ip port buf s h =
     bind_ub (Copy (buf_data buf) (buf_size buf) h) (\<lambda>(data, h1).
       let packet = \<lparr>packet_ip = ip, packet_port = port, packet_data = data\<rparr>;
           s1 = s\<lparr>m_DataQueue := queue_push packet (m_DataQueue s)\<rparr>
       in bind_ub (Release buf h1) (\<lambda>(_, h2). Inr (s1, h2)))"

definition StreamData :: "u64 \<Rightarrow> u16 \<Rightarrow> buffer \<Rightarrow> Server \<Rightarrow> heap \<Rightarrow> ub + Server \<times> heap" where
  "StreamData cid port buf s h =
     (case map_of (m_Connections s) cid of
        None \<Rightarrow> bind_ub (Release buf h) (\<lambda>(_, h1). Inr (s, h1))
      | Some client \<Rightarrow> StreamTo (client_ip client) port buf s h)"

text \<open>
  One turn of the loop of \<open>DataStreamThreadFn\<close>; with an empty queue it sleeps and changes
  nothing.
\<close>

definition DataStreamThread_step :: "Server \<Rightarrow> heap \<Rightarrow> ub + Server \<times> heap \<times> net_event list" where
  "DataStreamThread_step s h =
     (case queue_pop (m_DataQueue s) of
        None \<Rightarrow> Inr (s, h, [])
      | Some (packet, rest) \<Rightarrow>
          let data = packet_data packet
          in bind_ub (load_bytes (buf_data data) (buf_size data) h) (\<lambda>bs.
             bind_ub (Release data h) (\<lambda>(_, h1).
               Inr (s\<lparr>m_DataQueue := rest\<rparr>, h1,
                    [Datagram (c_str (packet_ip packet)) (packet_port packet) bs]))))"

subsection \<open>Connections\<close>

text \<open>What \<open>listen\<close> and \<open>accept\<close> answer: a failure, or a socket with the peer's address.\<close>

datatype accept_result = Accept_Failed | Accepted u64 string u16

text \<open>One turn of the loop of \<open>AcceptConnectionThreadFn\<close>.\<close>

definition AcceptConnectionThread_step :: "accept_result \<Rightarrow> Server \<Rightarrow> Server \<times> net_event list" where
  "AcceptConnectionThread_step r s =
     (case r of
        Accept_Failed \<Rightarrow> (s, [])
      | Accepted sock ip port \<Rightarrow>
          let client = \<lparr>client_id = sock, client_ip = ip, client_port = port\<rparr>;
              s1 = s\<lparr>m_Connections := map_put sock client (m_Connections s)\<rparr>
          in (enqueue_task (HandleConnectionThread (client_id client)) s1,
              if m_ClientConnectCallback s1 then [Client_Connected (client_id client)] else []))"

text \<open>
  The turn with what \<open>listen\<close>, \<open>accept\<close> and \<open>inet_ntop\<close> answer; \<open>None\<close> is the end of the loop.
  The port is kept as \<open>accept\<close> gives it, in network order.
\<close>

definition wait_for_connection :: "(u32 \<Rightarrow> string) \<Rightarrow> accept_answer \<Rightarrow> accept_result" where
  "wait_for_connection inet_ntop a =
     (if \<not> ListenForConnection a then Accept_Failed
      else
        let (ok, conn) = AcceptConnection a no_socket
        in case (ok, sin_port conn, sin_addr conn) of
             (True, Some port, Some addr) \<Rightarrow> Accepted (socket_fd conn) (c_str (inet_ntop addr)) port
           | _ \<Rightarrow> Accept_Failed)"

definition AcceptConnectionThread_turn :: "(u32 \<Rightarrow> string) \<Rightarrow> accept_answer \<Rightarrow> Server
    \<Rightarrow> (Server \<times> net_event list) option" where
  "AcceptConnectionThread_turn inet_ntop a s =
     (if m_ServerIsRunning s then Some (AcceptConnectionThread_step (wait_for_connection inet_ntop a) s)
      else None)"

datatype received = Recv_Error | Recv_Closed | Received "u8 list"

text \<open>
  One turn of the loop of \<open>HandleConnectionThreadFn\<close>: whether it goes on, the storage, and the
  buffer handed to the data callback.
\<close>

definition HandleConnectionThread_step :: "u64 \<Rightarrow> buffer \<Rightarrow> received \<Rightarrow> Server \<Rightarrow> heap
    \<Rightarrow> ub + bool \<times> heap \<times> buffer option" where
  "HandleConnectionThread_step cid buf r s h =
     (if \<not> m_ServerIsRunning s then Inr (False, h, None)
      else bind_ub (Zero buf h) (\<lambda>h1.
        if map_of (m_Connections s) cid = None then Inr (False, h1, None)
        else case r of
          Recv_Error \<Rightarrow> Inr (False, h1, None)
        | Recv_Closed \<Rightarrow> Inr (False, h1, None)
        | Received bs \<Rightarrow>
            bind_ub (store (buf_data buf) (map Some bs) h1) (\<lambda>h2.
              if m_DataReceivedCallback s
              then bind_ub (Copy (buf_data buf) (length bs) h2) (\<lambda>(c, h3). Inr (True, h3, Some c))
              else Inr (True, h2, None))))"

definition HandleConnectionThread_start :: "Server \<Rightarrow> heap \<Rightarrow> ub + buffer \<times> heap" where
  "HandleConnectionThread_start s h = Allocate (info_buffer_size (m_ServerInfo s)) empty_buffer h"

definition HandleConnectionThread_end :: "u64 \<Rightarrow> buffer \<Rightarrow> Server \<Rightarrow> heap
    \<Rightarrow> ub + Server \<times> heap \<times> net_event list" where
  "HandleConnectionThread_end cid buf s h =
     bind_ub (Release buf h) (\<lambda>(_, h1). let (s1, ev) = KickClient cid s in Inr (s1, h1, ev))"

subsection \<open>Sending reaches the right clients and releases the buffer\<close>

definition connections_ok :: "Server \<Rightarrow> bool" where
  "connections_ok s \<longleftrightarrow>
     map_ok (m_Connections s) \<and> list_all (\<lambda>(k, c). client_id c = k) (m_Connections s)"

text \<open>Whom a send to \<open>cid\<close> reaches: everyone for 0.\<close>

definition recipients :: "u64 \<Rightarrow> Server \<Rightarrow> u64 list" where
  "recipients cid s =
     (if cid = 0 then map_keys (m_Connections s) else if IsClientConnected cid s then [cid] else [])"

lemma connection_ids:
  "connections_ok s \<Longrightarrow> map (\<lambda>(_, c). client_id c) (m_Connections s) = map_keys (m_Connections s)"
  by (auto simp: connections_ok_def map_keys_def list_all_iff)

lemma SendBuffer_eq:
  assumes "heap_ok h" and "holds h buf bs" and "connections_ok s"
  shows "SendBuffer cid buf s h =
           Inr (h\<lparr>blocks := (blocks h)(buf_data buf := None)\<rparr>,
                map (\<lambda>k. Sent k bs) (recipients cid s))"
proof (cases "cid = 0")
  case True
  have "map (\<lambda>(_, c). Sent (client_id c) bs) (m_Connections s) =
        map (\<lambda>k. Sent k bs) (map (\<lambda>(_, c). client_id c) (m_Connections s))"
    by (simp add: comp_def case_prod_beta)
  then show ?thesis
    using True load_bytes_holds [OF assms(2)] Release_eq [OF assms(1,2)] connection_ids [OF assms(3)]
    by (simp add: SendBuffer_def SendBufferToAll_def recipients_def map_keys_def)
next
  case False
  show ?thesis
  proof (cases "map_of (m_Connections s) cid")
    case None
    then show ?thesis using False Release_eq [OF assms(1,2)]
      by (simp add: SendBuffer_def recipients_def IsClientConnected_def)
  next
    case (Some c)
    then have "client_id c = cid"
      using assms(3) map_of_SomeD by (fastforce simp: connections_ok_def list_all_iff)
    then show ?thesis
      using Some False load_bytes_holds [OF assms(2)] Release_eq [OF assms(1,2)]
      by (simp add: SendBuffer_def recipients_def IsClientConnected_def)
  qed
qed

lemma SendString_eq:
  assumes "heap_ok h" and "connections_ok s"
  shows "\<exists>h'. SendString cid str s h = Inr (h', map (\<lambda>k. Sent k (bytes_of str)) (recipients cid s)) \<and>
           blocks h' = blocks h \<and> heap_ok h'"
proof -
  obtain b h1 where c: "copied h (bytes_of str) = (b, h1)" by fastforce
  note k = copied_holds [OF assms(1) c]
  have "(blocks h1)(buf_data b := None) = blocks h" using k(4,5) by auto
  then show ?thesis
    using SendBuffer_eq [OF k(2,1) assms(2)] c heap_ok_free [OF k(2), of "buf_data b"]
    by (simp add: SendString_def Copy_bytes_eq)
qed

lemma recipients_connected:
  assumes "connections_ok s" and "k \<in> set (recipients cid s)"
  shows "IsClientConnected k s"
  using assms smap.set_keys [of "m_Connections s"]
  by (auto simp: recipients_def connections_ok_def IsClientConnected_def split: if_splits)

lemma recipients_distinct: "connections_ok s \<Longrightarrow> distinct (recipients cid s)"
  using smap.distinct_keys [of "m_Connections s"] by (simp add: recipients_def connections_ok_def)

text \<open>
  Property C23: a send takes its buffer and nothing else. Whatever the id, the buffer's bytes
  go to exactly the clients meant (the one with that id if it is connected, all connected
  clients for id 0), once each, and the buffer's block is freed on every path, so that the
  caller's other blocks are what they were; \<open>SendString\<close> leaves no block behind.
\<close>

theorem sends_deliver_and_release:
  assumes "heap_ok h" and "holds h buf bs" and "connections_ok s"
  shows "\<exists>h' ks. SendBuffer cid buf s h = Inr (h', map (\<lambda>k. Sent k bs) ks) \<and>
           blocks h' = (blocks h)(buf_data buf := None) \<and> distinct ks \<and>
           set ks = (if cid = 0 then {k. IsClientConnected k s}
                     else if IsClientConnected cid s then {cid} else {}) \<and>
           (\<exists>h2. SendString cid str s h = Inr (h2, map (\<lambda>k. Sent k (bytes_of str)) ks) \<and>
              blocks h2 = blocks h)"
proof -
  have "set (map_keys (m_Connections s)) = {k. IsClientConnected k s}"
    using smap.set_keys [of "m_Connections s"] assms(3)
    by (auto simp: connections_ok_def IsClientConnected_def)
  then have "set (recipients cid s) = (if cid = 0 then {k. IsClientConnected k s}
      else if IsClientConnected cid s then {cid} else {})"
    by (simp add: recipients_def)
  moreover obtain h2 where "SendString cid str s h = Inr (h2, map (\<lambda>k. Sent k (bytes_of str)) (recipients cid s))"
    "blocks h2 = blocks h" using SendString_eq [OF assms(1,3)] by blast
  ultimately show ?thesis
    using SendBuffer_eq [OF assms] recipients_distinct [OF assms(3)]
    by (intro exI [of _ "h\<lparr>blocks := (blocks h)(buf_data buf := None)\<rparr>"] exI [of _ "recipients cid s"]) auto
qed

subsection \<open>A server for examples\<close>

definition sample_client :: "u64 \<Rightarrow> ClientInfo" where
  "sample_client k = \<lparr>client_id = k, client_ip = ''10.0.0.7'', client_port = 5000\<rparr>"

definition sample_info :: ServerInfo where
  "sample_info = \<lparr>info_workers = 5, info_bind_ip = ''0.0.0.0'', info_port = 23,
     info_buffer_size = 4, info_enable_udp = True\<rparr>"

definition sample_server :: Server where
  "sample_server = (Server sample_info)\<lparr>m_Connections := [(5, sample_client 5), (9, sample_client 9)],
     m_ServerIsRunning := True, m_ClientDisconnectCallback := True, m_DataReceivedCallback := True\<rparr>"

lemma sample_server_ok: "connections_ok sample_server"
  by (simp add: connections_ok_def sample_server_def map_ok_def sample_client_def)

theorem sends_deliver_and_release_witness:
  "\<exists>h' ks. SendBuffer 9 sample_buffer sample_server sample_heap =
       Inr (h', map (\<lambda>k. Sent k [10, 20, 30, 40]) ks) \<and> set ks = {9}"
proof -
  have "IsClientConnected 9 sample_server" by (simp add: IsClientConnected_def sample_server_def)
  then show ?thesis
    using sends_deliver_and_release [OF sample_heap_ok sample_server_ok, of 9 "[]"] by auto
qed

subsection \<open>The queue of datagrams\<close>

definition owned :: "DataPacket list \<Rightarrow> nat list" where
  "owned q = filter (\<lambda>a. a \<noteq> 0) (map (buf_data \<circ> packet_data) q)"

text \<open>The queued packets own the bytes of the datagrams \<open>ds\<close>, each its own.\<close>

definition queue_holds :: "heap \<Rightarrow> DataPacket list \<Rightarrow> (string \<times> u16 \<times> u8 list) list \<Rightarrow> bool" where
  "queue_holds h q ds \<longleftrightarrow>
     list_all2 (\<lambda>p (ip, port, bs). packet_ip p = ip \<and> packet_port p = port \<and> holds h (packet_data p) bs) q ds \<and>
     distinct (owned q)"

lemma owned_append [simp]: "owned (q @ r) = owned q @ owned r" "owned [] = []"
  by (simp_all add: owned_def)

lemma owned_Cons: "owned (p # q) = (if buf_data (packet_data p) = 0 then [] else [buf_data (packet_data p)]) @ owned q"
  by (simp add: owned_def)

text \<open>What the packets own is not touched by changes elsewhere.\<close>

lemma holds_cong: "buf_data b = 0 \<or> blocks h' (buf_data b) = blocks h (buf_data b) \<Longrightarrow> heap_ok h \<Longrightarrow>
   holds h b bs \<Longrightarrow> holds h' b bs"
  using holds_not_null [of h b bs] by (auto simp: holds_def split: if_splits)

lemma queue_holds_cong:
  assumes "queue_holds h q ds" and "heap_ok h" and "\<And>a. a \<in> set (owned q) \<Longrightarrow> blocks h' a = blocks h a"
  shows "queue_holds h' q ds"
proof -
  have moved: "holds h' (packet_data p) bs" if "p \<in> set q" "holds h (packet_data p) bs" for p bs
  proof (rule holds_cong [OF _ assms(2) that(2)])
    show "buf_data (packet_data p) = 0 \<or> blocks h' (buf_data (packet_data p)) = blocks h (buf_data (packet_data p))"
      using assms(3) [of "buf_data (packet_data p)"] that(1) by (auto simp: owned_def)
  qed
  have "list_all2 (\<lambda>p (ip, port, bs). packet_ip p = ip \<and> packet_port p = port \<and>
      holds h' (packet_data p) bs) q ds"
    by (rule list.rel_mono_strong [OF assms(1) [unfolded queue_holds_def, THEN conjunct1]])
      (auto simp: moved)
  then show ?thesis using assms(1) by (simp add: queue_holds_def)
qed

lemma queue_holds_dom: "queue_holds h q ds \<Longrightarrow> a \<in> set (owned q) \<Longrightarrow> blocks h a \<noteq> None"
proof -
  assume q: "queue_holds h q ds" and a: "a \<in> set (owned q)"
  obtain p where p: "p \<in> set q" "a = buf_data (packet_data p)" "a \<noteq> 0" using a by (auto simp: owned_def)
  obtain i where i: "i < length q" "q ! i = p" using p(1) by (auto simp: in_set_conv_nth)
  obtain ip port bs where d: "ds ! i = (ip, port, bs)" by (metis prod_cases3)
  have "holds h (packet_data p) bs"
    using q i d by (auto simp: queue_holds_def list_all2_conv_all_nth)
  then show ?thesis using p by (auto simp: holds_def split: if_splits)
qed

lemma queue_holds_snoc:
  assumes "queue_holds h q ds" and "holds h (packet_data p) bs" and "set (owned [p]) \<inter> set (owned q) = {}"
  shows "queue_holds h (q @ [p]) (ds @ [(packet_ip p, packet_port p, bs)])"
proof -
  have "distinct (owned [p])" by (simp add: owned_def)
  with assms show ?thesis by (auto simp: queue_holds_def intro!: list_all2_appendI)
qed

text \<open>Streaming a fresh copy, as the server layer does with each scan frame.\<close>

definition stream_frame :: "string \<Rightarrow> u16 \<Rightarrow> u8 list \<Rightarrow> Server \<Rightarrow> heap \<Rightarrow> ub + Server \<times> heap" where
  "stream_frame ip port bs s h = bind_ub (Copy_bytes bs h) (\<lambda>(b, h1). StreamTo ip port b s h1)"

lemma stream_frame_step:
  assumes "heap_ok h" and "queue_holds h (m_DataQueue s) ds"
  shows "\<exists>p h'. stream_frame ip port bs s h = Inr (s\<lparr>m_DataQueue := m_DataQueue s @ [p]\<rparr>, h') \<and>
           heap_ok h' \<and> queue_holds h' (m_DataQueue s @ [p]) (ds @ [(ip, port, bs)]) \<and>
           (\<forall>a. a \<notin> set (owned [p]) \<longrightarrow> blocks h' a = blocks h a) \<and>
           (\<forall>a \<in> set (owned [p]). blocks h a = None)"
proof -
  obtain b h1 where b: "copied h bs = (b, h1)" by fastforce
  note kb = copied_holds [OF assms(1) b]
  obtain c h2 where c: "copied h1 bs = (c, h2)" by fastforce
  note kc = copied_holds [OF kb(2) c]
  let ?h3 = "h2\<lparr>blocks := (blocks h2)(buf_data b := None)\<rparr>"
  let ?p = "\<lparr>packet_ip = ip, packet_port = port, packet_data = c\<rparr>"
  have run: "stream_frame ip port bs s h = Inr (s\<lparr>m_DataQueue := m_DataQueue s @ [?p]\<rparr>, ?h3)"
    using Copy_buffer_eq [OF kb(2,1)] Release_eq [OF kc(2) kc(3) [OF kb(1)]] b c
    by (simp add: stream_frame_def StreamTo_def Copy_bytes_eq Copy_buffer_def queue_push_def)
  have ok: "heap_ok ?h3" by (rule heap_ok_free [OF kc(2)])
  have same: "blocks ?h3 a = blocks h a" if "a \<noteq> buf_data c \<or> bs = []" for a
    using that kb(4,5) kc(4) by (auto split: if_splits)
  have new: "buf_data c = 0 \<or> blocks h (buf_data c) = None"
    using kc(5) kb(4,5) by (auto split: if_splits)
  have owned: "owned [?p] = (if bs = [] then [] else [buf_data c])"
    using kc(1) holds_not_null [OF kc(2,1)] by (auto simp: owned_def holds_def)
  have cb: "holds ?h3 c bs"
    using kc(1,5) kb(1) by (auto simp: holds_def split: if_splits)
  have old: "blocks ?h3 a = blocks h a \<and> a \<notin> set (owned [?p])" if "a \<in> set (owned (m_DataQueue s))" for a
  proof -
    have "blocks h a \<noteq> None" by (rule queue_holds_dom [OF assms(2) that])
    moreover have "a \<noteq> 0" using that by (simp add: owned_def)
    ultimately have "a \<noteq> buf_data c" using new by auto
    then show ?thesis using same [of a] by (simp only: owned) simp
  qed
  have "queue_holds ?h3 (m_DataQueue s) ds"
    by (rule queue_holds_cong [OF assms(2,1)]) (use old in blast)
  then have "queue_holds ?h3 (m_DataQueue s @ [?p]) (ds @ [(ip, port, bs)])"
    using queue_holds_snoc [of ?h3 "m_DataQueue s" ds ?p bs] cb old by auto
  moreover have "blocks ?h3 a = blocks h a" if a: "a \<notin> set (owned [?p])" for a
  proof (rule same)
    show "a \<noteq> buf_data c \<or> bs = []" using a by (simp add: owned split: if_splits)
  qed
  moreover have "blocks h a = None" if "a \<in> set (owned [?p])" for a
    using that owned new by (auto simp: owned_def split: if_splits)
  ultimately show ?thesis using run ok by blast
qed

lemma DataStreamThread_step_pop:
  assumes "heap_ok h" and "queue_holds h (m_DataQueue s) ((ip, port, bs) # ds)"
  shows "\<exists>p q h'. m_DataQueue s = p # q \<and>
           DataStreamThread_step s h = Inr (s\<lparr>m_DataQueue := q\<rparr>, h', [Datagram (c_str ip) port bs]) \<and>
           heap_ok h' \<and> queue_holds h' q ds \<and>
           (\<forall>a. blocks h' a = (if a \<in> set (owned [p]) then None else blocks h a))"
proof -
  obtain p q where q: "m_DataQueue s = p # q" "packet_ip p = ip" "packet_port p = port"
    "holds h (packet_data p) bs" "queue_holds h q ds" "set (owned [p]) \<inter> set (owned q) = {}"
    using assms(2) by (cases "m_DataQueue s") (auto simp: queue_holds_def owned_Cons)
  let ?h = "h\<lparr>blocks := (blocks h)(buf_data (packet_data p) := None)\<rparr>"
  have "blocks ?h a = (if a \<in> set (owned [p]) then None else blocks h a)" for a
    using heap_ok_null [OF assms(1)] by (auto simp: owned_def)
  moreover from this have "queue_holds ?h q ds"
    by (intro queue_holds_cong [OF q(5) assms(1)]) (use q(6) in auto)
  ultimately show ?thesis
    using q load_bytes_holds [OF q(4)] Release_eq [OF assms(1) q(4)] heap_ok_free [OF assms(1)]
    by (simp add: DataStreamThread_step_def)
qed

text \<open>Any interleaving of frames that are queued and turns of the stream thread.\<close>

datatype stream_op = Queue_Frame string u16 "u8 list" | Stream_Turn

fun stream_run :: "stream_op list \<Rightarrow> Server \<Rightarrow> heap \<Rightarrow> ub + Server \<times> heap \<times> net_event list" where
  "stream_run [] s h = Inr (s, h, [])"
| "stream_run (Queue_Frame ip port bs # ops) s h =
     bind_ub (stream_frame ip port bs s h) (\<lambda>(s1, h1). stream_run ops s1 h1)"
| "stream_run (Stream_Turn # ops) s h =
     bind_ub (DataStreamThread_step s h) (\<lambda>(s1, h1, ev1).
     bind_ub (stream_run ops s1 h1) (\<lambda>(s2, h2, ev2). Inr (s2, h2, ev1 @ ev2)))"

fun streamed :: "stream_op list \<Rightarrow> net_event list" where
  "streamed [] = []"
| "streamed (Queue_Frame ip port bs # ops) = Datagram (c_str ip) port bs # streamed ops"
| "streamed (Stream_Turn # ops) = streamed ops"

definition datagrams :: "(string \<times> u16 \<times> u8 list) list \<Rightarrow> net_event list" where
  "datagrams ds = map (\<lambda>(ip, port, bs). Datagram (c_str ip) port bs) ds"


lemma stream_run_all:
  "heap_ok h \<Longrightarrow> queue_holds h (m_DataQueue s) ds \<Longrightarrow>
   \<exists>s' h' ev ds'. stream_run ops s h = Inr (s', h', ev) \<and>
     ev @ datagrams ds' = datagrams ds @ streamed ops \<and> queue_holds h' (m_DataQueue s') ds' \<and>
     heap_ok h' \<and> s' = s\<lparr>m_DataQueue := m_DataQueue s'\<rparr> \<and>
     (\<forall>a. a \<notin> set (owned (m_DataQueue s')) \<longrightarrow>
        blocks h' a = (if a \<in> set (owned (m_DataQueue s)) then None else blocks h a))"
proof (induction ops s h arbitrary: ds rule: stream_run.induct)
  case (1 s h)
  then show ?case by (intro exI [of _ s] exI [of _ h] exI [of _ "[]"] exI [of _ ds]) simp
next
  case (2 ip port bs ops s h)
  obtain p h1 where p: "stream_frame ip port bs s h = Inr (s\<lparr>m_DataQueue := m_DataQueue s @ [p]\<rparr>, h1)"
    "heap_ok h1" "queue_holds h1 (m_DataQueue s @ [p]) (ds @ [(ip, port, bs)])"
    "\<forall>a. a \<notin> set (owned [p]) \<longrightarrow> blocks h1 a = blocks h a" "\<forall>a \<in> set (owned [p]). blocks h a = None"
    using stream_frame_step [OF 2(2,3)] by blast
  let ?s1 = "s\<lparr>m_DataQueue := m_DataQueue s @ [p]\<rparr>"
  obtain s' h' ev ds' where r: "stream_run ops ?s1 h1 = Inr (s', h', ev)"
    "ev @ datagrams ds' = datagrams (ds @ [(ip, port, bs)]) @ streamed ops"
    "queue_holds h' (m_DataQueue s') ds'" "heap_ok h'" "s' = ?s1\<lparr>m_DataQueue := m_DataQueue s'\<rparr>"
    "\<forall>a. a \<notin> set (owned (m_DataQueue s')) \<longrightarrow>
        blocks h' a = (if a \<in> set (owned (m_DataQueue s @ [p])) then None else blocks h1 a)"
    using 2(1) [of h1 ?s1 "ds @ [(ip, port, bs)]"] p(2,3) by auto
  have "blocks h' a = (if a \<in> set (owned (m_DataQueue s)) then None else blocks h a)"
    if "a \<notin> set (owned (m_DataQueue s'))" for a
    using r(6) p(4,5) that by simp
  moreover have "s' = s\<lparr>m_DataQueue := m_DataQueue s'\<rparr>" using r(5) by simp
  ultimately show ?case
    using r(1-4) p(1)
    by (intro exI [of _ s'] exI [of _ h'] exI [of _ ev] exI [of _ ds']) (simp add: datagrams_def)
next
  case (3 ops s h)
  show ?case
  proof (cases ds)
    case Nil
    then have q: "m_DataQueue s = []" using 3(3) by (simp add: queue_holds_def)
    have "DataStreamThread_step s h = Inr (s, h, [])"
      by (simp add: DataStreamThread_step_def q)
    then show ?thesis using 3(1) [of h s ds] 3(2,3) by auto
  next
    case (Cons d ds1)
    obtain ip port bs where d: "d = (ip, port, bs)" by (cases d) auto
    obtain p q h1 where p: "m_DataQueue s = p # q"
      "DataStreamThread_step s h = Inr (s\<lparr>m_DataQueue := q\<rparr>, h1, [Datagram (c_str ip) port bs])"
      "heap_ok h1" "queue_holds h1 q ds1"
      "\<forall>a. blocks h1 a = (if a \<in> set (owned [p]) then None else blocks h a)"
      using DataStreamThread_step_pop [OF 3(2)] 3(3) unfolding Cons d by blast
    let ?s1 = "s\<lparr>m_DataQueue := q\<rparr>"
    obtain s' h' ev ds' where r: "stream_run ops ?s1 h1 = Inr (s', h', ev)"
      "ev @ datagrams ds' = datagrams ds1 @ streamed ops"
      "queue_holds h' (m_DataQueue s') ds'" "heap_ok h'" "s' = ?s1\<lparr>m_DataQueue := m_DataQueue s'\<rparr>"
      "\<forall>a. a \<notin> set (owned (m_DataQueue s')) \<longrightarrow>
          blocks h' a = (if a \<in> set (owned q) then None else blocks h1 a)"
      using 3(1) [of h1 ?s1 ds1] p(3,4) by auto
    have "blocks h' a = (if a \<in> set (owned (m_DataQueue s)) then None else blocks h a)"
      if "a \<notin> set (owned (m_DataQueue s'))" for a
      using r(6) p(5) that owned_append(1) [of "[p]" q] by (simp add: p(1))
    moreover have "s' = s\<lparr>m_DataQueue := m_DataQueue s'\<rparr>" using r(5) by simp
    ultimately show ?thesis
      using r(1-4) p(2)
      by (intro exI [of _ s'] exI [of _ h'] exI [of _ "Datagram (c_str ip) port bs # ev"] exI [of _ ds'])
        (simp add: datagrams_def Cons d)
  qed
qed

text \<open>
  Property C12: the stream is first in first out and leaks nothing. In any interleaving of
  frames queued by \<open>StreamTo\<close> and turns of the stream thread, nothing undefined happens, the
  datagrams sent so far followed by those still queued are those queued at the start and since,
  in order, and every block the queue does not own is free if the queue owned it before and
  unchanged otherwise.
\<close>

theorem stream_is_fifo:
  assumes "heap_ok h" and "queue_holds h (m_DataQueue s) ds"
  shows "\<exists>s' h' ev ds'. stream_run ops s h = Inr (s', h', ev) \<and>
     ev @ datagrams ds' = datagrams ds @ streamed ops \<and> queue_holds h' (m_DataQueue s') ds' \<and>
     (\<forall>a. a \<notin> set (owned (m_DataQueue s')) \<longrightarrow>
        blocks h' a = (if a \<in> set (owned (m_DataQueue s)) then None else blocks h a))"
  using stream_run_all [OF assms, of ops] by blast

theorem stream_is_fifo_witness:
  "\<exists>s' h' ev. stream_run [Queue_Frame ''10.0.0.7'' 5000 [1, 2], Queue_Frame ''10.0.0.8'' 5000 [3],
       Stream_Turn, Stream_Turn, Stream_Turn] sample_server sample_heap = Inr (s', h', ev) \<and>
     (\<exists>ds. ev @ datagrams ds = [Datagram ''10.0.0.7'' 5000 [1, 2], Datagram ''10.0.0.8'' 5000 [3]])"
proof -
  have "queue_holds sample_heap (m_DataQueue sample_server) []"
    by (simp add: queue_holds_def sample_server_def Server_def)
  from stream_is_fifo [OF sample_heap_ok(1) this,
      of "[Queue_Frame ''10.0.0.7'' 5000 [1, 2], Queue_Frame ''10.0.0.8'' 5000 [3],
       Stream_Turn, Stream_Turn, Stream_Turn]"]
  show ?thesis by (fastforce simp: datagrams_def c_str_def NUL_def)
qed


subsection \<open>Start and stop keep the WinSock count, with two exceptions\<close>

text \<open>
  What a start leaves behind. The server runs exactly if the TCP socket was made
  and bound. It keeps one WinSock instance only if the UDP socket it wants was made too: every
  other outcome gives the instance back, also the one where the UDP socket failed, although
  the server runs.
\<close>

theorem start_outcomes:
  assumes "\<not> m_ServerIsRunning s"
  shows "case Start_server env w s of (s', w', ev) \<Rightarrow>
     let info = m_ServerInfo s;
         startup = (s_WSAInitialized w \<or> wsa_startup_ok env);
         made = (\<lambda>typ sock. fst (CreateSocket env sock typ (info_port info) (info_bind_ip info)))
     in m_ServerIsRunning s' = (startup \<and> made TCP (m_ServerSocket s) \<and> 0 \<le> bind_rc env) \<and>
        s_WSAInstances w' = s_WSAInstances w +
          (if m_ServerIsRunning s' \<and> (info_enable_udp info \<longrightarrow> made UDP (m_StreamSocket s)) then 1 else 0) \<and>
        m_Connections s' = m_Connections s"
proof -
  have cleanup: "s_WSAInstances (fst (CleanupNetworking v)) = s_WSAInstances v - 1" for v
    by (simp add: CleanupNetworking_def Let_def)
  obtain ok1 w1 ev1 where i: "InitializeNetworking (wsa_startup_ok env) w = (ok1, w1, ev1)"
    by (metis prod_cases3)
  have i': "ok1 = (s_WSAInitialized w \<or> wsa_startup_ok env)"
      "s_WSAInstances w1 = s_WSAInstances w + (if ok1 then 1 else 0)"
    using i by (auto simp: InitializeNetworking_def Let_def split: if_splits)
  show ?thesis
    using assms i' cleanup
    by (simp add: Start_server_def BindSocket_def start_stream_def enqueue_task_def i Let_def split: prod.splits)
      (auto simp: prod_eq_iff)
qed

definition sample_net :: net_env where
  "sample_net = \<lparr>wsa_startup_ok = True, new_socket = (\<lambda>t. if t = TCP then 100 else INVALID_SOCKET),
     inet_pton = (\<lambda>_. None), bind_rc = 0\<rparr>"

theorem start_outcomes_witness:
  "\<exists>s' w' ev. Start_server sample_net \<lparr>s_WSAInstances = 0, s_WSAInitialized = False\<rparr>
       (Server sample_info) = (s', w', ev) \<and> m_ServerIsRunning s' \<and> s_WSAInstances w' = 0"
  using start_outcomes [of "Server sample_info" "\<lparr>s_WSAInstances = 0, s_WSAInitialized = False\<rparr>" sample_net]
  by (auto simp: Server_def sample_net_def sample_info_def CreateSocket_def INVALID_SOCKET_def Let_def
      split: prod.splits)

text \<open>
  Stopping. With a client connected the loop of \<open>Stop\<close> runs over the element that
  \<open>KickClient\<close> erased. With none, the server stops, both sockets are closed and one WinSock
  instance is given back; stopping again closes the same sockets a second time and gives back
  an instance that it does not hold.
\<close>

theorem stop_outcomes:
  "(Stop w s = Inl Invalid_Iterator) = (m_Connections s \<noteq> []) \<and>
   (m_Connections s = [] \<longrightarrow>
     (\<exists>s1 w1 ev1 s2 w2 ev2. Stop w s = Inr (s1, w1, ev1) \<and> Stop w1 s1 = Inr (s2, w2, ev2) \<and>
       \<not> m_ServerIsRunning s1 \<and> m_Stop (m_Pool s1) \<and>
       s_WSAInstances w1 = s_WSAInstances w - 1 \<and> s_WSAInstances w2 = s_WSAInstances w - 2 \<and>
       [Closed (socket_fd (m_ServerSocket s)), Closed (socket_fd (m_StreamSocket s))] = take 2 ev1 \<and>
       take 2 ev2 = take 2 ev1 \<and>
       (WSA_Cleaned \<in> set ev1) = (s_WSAInstances w \<le> 1) \<and>
       (WSA_Cleaned \<in> set ev2) = (s_WSAInstances w \<le> 2)))"
proof (cases "m_Connections s")
  case Nil
  then show ?thesis
    by (auto simp: Stop_def CleanupNetworking_def CloseSocket_def Let_def split: prod.splits)
qed (simp add: Stop_def Let_def)

theorem stop_outcomes_witness:
  "\<exists>s1 w1 ev1. Stop \<lparr>s_WSAInstances = 2, s_WSAInitialized = True\<rparr> (Server sample_info) = Inr (s1, w1, ev1) \<and>
     s_WSAInstances w1 = 1 \<and> WSA_Cleaned \<notin> set ev1"
  using stop_outcomes [of "\<lparr>s_WSAInstances = 2, s_WSAInitialized = True\<rparr>" "Server sample_info"]
  by (auto simp: Server_def)

subsection \<open>The set of clients follows the connections\<close>

datatype conn_op = Peer accept_result | Kick u64

fun conn_step :: "conn_op \<Rightarrow> Server \<Rightarrow> Server \<times> net_event list" where
  "conn_step (Peer r) s = AcceptConnectionThread_step r s"
| "conn_step (Kick k) s = KickClient k s"

fun conn_run :: "conn_op list \<Rightarrow> Server \<Rightarrow> Server \<times> net_event list" where
  "conn_run [] s = (s, [])"
| "conn_run (oper # ops) s =
     (let (s1, ev1) = conn_step oper s; (s2, ev2) = conn_run ops s1 in (s2, ev1 @ ev2))"

text \<open>The client a peer became, as the last accept or kick of its socket says.\<close>

fun clients :: "conn_op list \<Rightarrow> (u64 \<rightharpoonup> ClientInfo) \<Rightarrow> (u64 \<rightharpoonup> ClientInfo)" where
  "clients [] m = m"
| "clients (Peer Accept_Failed # ops) m = clients ops m"
| "clients (Peer (Accepted sock ip port) # ops) m =
     clients ops (m(sock \<mapsto> \<lparr>client_id = sock, client_ip = ip, client_port = port\<rparr>))"
| "clients (Kick k # ops) m = clients ops (m(k := None))"

fun handlers :: "conn_op list \<Rightarrow> server_task list" where
  "handlers [] = []"
| "handlers (Peer (Accepted sock ip port) # ops) = HandleConnectionThread sock # handlers ops"
| "handlers (_ # ops) = handlers ops"

lemma wait_for_connection_Accepted:
  "wait_for_connection ntop a = Accepted k ip port \<longleftrightarrow>
     listen_rc a \<noteq> SOCKET_ERROR \<and> accept_fd a = k \<and> k \<noteq> INVALID_SOCKET \<and> ip = c_str (ntop (peer_addr a)) \<and>
     port = peer_port a"
  by (auto simp: wait_for_connection_def ListenForConnection_def AcceptConnection_def no_socket_def Let_def)

lemma connections_ok_put:
  "connections_ok s \<Longrightarrow> client_id c = k \<Longrightarrow> connections_ok (s\<lparr>m_Connections := map_put k c (m_Connections s)\<rparr>)"
  by (auto simp: connections_ok_def list_all_iff smap.ok_put dest: in_map_put)

lemma connections_ok_erase:
  "connections_ok s \<Longrightarrow> connections_ok (s\<lparr>m_Connections := map_erase k (m_Connections s)\<rparr>)"
  by (auto simp: connections_ok_def list_all_iff smap.ok_erase dest: in_map_erase)

lemma conn_step_fields:
  "conn_step oper s = (s1, ev) \<Longrightarrow>
     m_ServerInfo s1 = m_ServerInfo s \<and> m_DataQueue s1 = m_DataQueue s \<and>
     m_ClientConnectCallback s1 = m_ClientConnectCallback s \<and>
     m_ClientDisconnectCallback s1 = m_ClientDisconnectCallback s"
  by (cases oper) (auto simp: AcceptConnectionThread_step_def KickClient_def enqueue_task_def Let_def
      split: accept_result.splits)

text \<open>
  Property C21: the connections are a map and follow what happened. After any sequence of
  accepted connections, failed ones and kicks, the connections are sorted by their key, each
  client under its own id, and a client is there exactly if its socket was accepted and not
  kicked since, with the address it was accepted from; each accepted connection queues one
  handler task, in order.
\<close>

theorem connections_follow_events:
  assumes "connections_ok s"
  shows "connections_ok (fst (conn_run ops s)) \<and>
     map_of (m_Connections (fst (conn_run ops s))) = clients ops (map_of (m_Connections s)) \<and>
     m_Tasks (m_Pool (fst (conn_run ops s))) = m_Tasks (m_Pool s) @ handlers ops"
  using assms
proof (induction ops arbitrary: s)
  case (Cons oper ops)
  have step: "fst (conn_run (oper # ops) s) = fst (conn_run ops (fst (conn_step oper s)))"
    by (simp split: prod.splits)
  have ok: "connections_ok (fst (conn_step oper s))"
    using Cons.prems connections_ok_put connections_ok_erase
    by (cases oper) (auto simp: AcceptConnectionThread_step_def KickClient_def enqueue_task_def
        connections_ok_def Let_def split: accept_result.splits)
  have m: "map_ok (m_Connections s)" using Cons.prems by (simp add: connections_ok_def)
  show ?case
  proof (cases oper)
    case (Kick k)
    have "map_of (map_erase k (m_Connections s)) = (map_of (m_Connections s))(k := None)"
      using smap.find_erase [OF m] by (auto simp: fun_eq_iff)
    then show ?thesis using Cons.IH [OF ok] by (simp add: step [unfolded Kick] Kick KickClient_def fun_upd_def del: conn_run.simps)
  next
    case (Peer r)
    show ?thesis
    proof (cases r)
      case Accept_Failed
      then show ?thesis using Cons.IH [OF ok]
        by (simp add: step [unfolded Peer Accept_Failed] Peer AcceptConnectionThread_step_def del: conn_run.simps)
    next
      case (Accepted k ip port)
      have "map_of (map_put k c (m_Connections s)) = (map_of (m_Connections s))(k \<mapsto> c)" for c
        using smap.find_put [OF m] by (auto simp: fun_eq_iff)
      then show ?thesis using Cons.IH [OF ok]
        by (simp add: step [unfolded Peer Accepted] Peer Accepted AcceptConnectionThread_step_def enqueue_task_def
            Enqueue_def queue_push_def fun_upd_def Let_def del: conn_run.simps)
    qed
  qed
qed simp

theorem connections_follow_events_witness:
  "map_of (m_Connections (fst (conn_run [Peer (Accepted 7 ''10.0.0.9'' 80), Kick 5] sample_server))) 5 = None \<and>
   map_of (m_Connections (fst (conn_run [Peer (Accepted 7 ''10.0.0.9'' 80), Kick 5] sample_server))) 7 =
     Some \<lparr>client_id = 7, client_ip = ''10.0.0.9'', client_port = 80\<rparr>"
  using connections_follow_events [OF sample_server_ok, of "[Peer (Accepted 7 ''10.0.0.9'' 80), Kick 5]"]
  by simp


subsection \<open>What a client sends reaches the callback\<close>

text \<open>
  The handler thread with a data callback that reads its buffer and releases it, as the
  callbacks of the server layer do; no answer left is a \<open>recv\<close> that blocks.
\<close>

fun handler_loop :: "u64 \<Rightarrow> buffer \<Rightarrow> received list \<Rightarrow> Server \<Rightarrow> heap \<Rightarrow> ub + heap \<times> u8 list list" where
  "handler_loop cid buf [] s h = Inr (h, [])"
| "handler_loop cid buf (r # rs) s h =
     bind_ub (HandleConnectionThread_step cid buf r s h) (\<lambda>(go, h1, msg).
       case msg of
         None \<Rightarrow> if go then handler_loop cid buf rs s h1 else Inr (h1, [])
       | Some c \<Rightarrow>
           bind_ub (load_bytes (buf_data c) (buf_size c) h1) (\<lambda>bs.
           bind_ub (Release c h1) (\<lambda>(_, h2).
           bind_ub (handler_loop cid buf rs s h2) (\<lambda>(h3, bss). Inr (h3, bs # bss)))))"

definition handler_session :: "u64 \<Rightarrow> received list \<Rightarrow> Server \<Rightarrow> heap
    \<Rightarrow> ub + Server \<times> heap \<times> u8 list list \<times> net_event list" where
  "handler_session cid rs s h =
     bind_ub (HandleConnectionThread_start s h) (\<lambda>(buf, h1).
     bind_ub (handler_loop cid buf rs s h1) (\<lambda>(h2, bss).
     bind_ub (HandleConnectionThread_end cid buf s h2) (\<lambda>(s1, h3, ev). Inr (s1, h3, bss, ev))))"

text \<open>What \<open>recv\<close> delivers before it fails or reports the end.\<close>

fun chunks :: "received list \<Rightarrow> u8 list list" where
  "chunks (Received bs # rs) = bs # chunks rs"
| "chunks _ = []"

definition recv_buffer :: "heap \<Rightarrow> buffer \<Rightarrow> bool" where
  "recv_buffer h buf \<longleftrightarrow> (\<exists>old. blocks h (buf_data buf) = Some old \<and> length old = buf_size buf)"

lemma handler_step_received:
  assumes h: "heap_ok h" and b: "recv_buffer h buf" and n: "length bs \<le> buf_size buf"
    and s: "m_ServerIsRunning s" "IsClientConnected cid s" "m_DataReceivedCallback s"
  shows "\<exists>h' c h1. HandleConnectionThread_step cid buf (Received bs) s h = Inr (True, h', Some c) \<and>
           copied h1 bs = (c, h') \<and> heap_ok h1 \<and> recv_buffer h1 buf \<and>
           (\<forall>a. a \<noteq> buf_data buf \<longrightarrow> blocks h1 a = blocks h a)"
proof -
  obtain old where old: "blocks h (buf_data buf) = Some old" "length old = buf_size buf"
    using b by (auto simp: recv_buffer_def)
  have ne: "buf_data buf \<noteq> 0" using old heap_ok_null [OF h] by (metis option.simps(3))
  let ?bytes = "map Some bs @ drop (length bs) (replicate (buf_size buf) (Some 0))"
  let ?h1 = "if buf_size buf = 0 then h else h\<lparr>blocks := (blocks h)(buf_data buf \<mapsto> ?bytes)\<rparr>"
  have zero: "Zero buf h = Inr (if buf_size buf = 0 then h else
      h\<lparr>blocks := (blocks h)(buf_data buf \<mapsto> replicate (buf_size buf) (Some 0))\<rparr>)"
    using ne old by (simp add: Zero_def store_def)
  have stored: "bind_ub (Zero buf h) (store (buf_data buf) (map Some bs)) = Inr ?h1"
    using n by (auto simp: zero store_def)
  have ok: "heap_ok ?h1" using h ne old by (auto simp: heap_ok_def domIff)
  have b1: "recv_buffer ?h1 buf" using old n by (auto simp: recv_buffer_def)
  have "Copy (buf_data buf) (length bs) ?h1 = Inr (copied ?h1 bs)"
  proof (cases "bs = []")
    case True
    then show ?thesis by (simp add: Copy_def Allocate_fresh copied_def load_def store_def)
  next
    case False
    then have "buf_size buf \<noteq> 0" using n by (cases bs) auto
    moreover have "buf_data buf \<noteq> fresh h" using old heap_ok_fresh [OF h] by auto
    ultimately show ?thesis using False n
      by (simp add: Copy_def Allocate_fresh copied_def new_block_def load_def store_def)
  qed
  moreover obtain c h' where "copied ?h1 bs = (c, h')" by fastforce
  moreover have "HandleConnectionThread_step cid buf (Received bs) s h =
      bind_ub (bind_ub (Zero buf h) (store (buf_data buf) (map Some bs)))
        (\<lambda>h2. bind_ub (Copy (buf_data buf) (length bs) h2) (\<lambda>(c, h3). Inr (True, h3, Some c)))"
  proof -
    obtain client where "map_of (m_Connections s) cid = Some client"
      using s(2) by (auto simp: IsClientConnected_def)
    with s show ?thesis by (simp add: HandleConnectionThread_step_def bind_ub_assoc)
  qed
  ultimately have "HandleConnectionThread_step cid buf (Received bs) s h = Inr (True, h', Some c)"
    "copied ?h1 bs = (c, h')" using stored by simp_all
  moreover have "\<forall>a. a \<noteq> buf_data buf \<longrightarrow> blocks ?h1 a = blocks h a" by simp
  ultimately show ?thesis using ok b1 by blast
qed

lemma handler_step_ends:
  assumes "heap_ok h" and "recv_buffer h buf" and "r = Recv_Error \<or> r = Recv_Closed"
  shows "\<exists>h'. HandleConnectionThread_step cid buf r s h = Inr (False, h', None) \<and>
           heap_ok h' \<and> recv_buffer h' buf \<and> (\<forall>a. a \<noteq> buf_data buf \<longrightarrow> blocks h' a = blocks h a)"
proof -
  obtain old where old: "blocks h (buf_data buf) = Some old" "length old = buf_size buf"
    using assms(2) by (auto simp: recv_buffer_def)
  have ne: "buf_data buf \<noteq> 0" using old heap_ok_null [OF assms(1)] by (metis option.simps(3))
  let ?h = "if m_ServerIsRunning s \<and> buf_size buf \<noteq> 0
    then h\<lparr>blocks := (blocks h)(buf_data buf \<mapsto> replicate (buf_size buf) (Some 0))\<rparr> else h"
  have "HandleConnectionThread_step cid buf r s h = Inr (False, ?h, None)"
    using assms(3) ne old by (auto simp: HandleConnectionThread_step_def Zero_def store_def)
  moreover have "heap_ok ?h" using assms(1) ne old by (auto simp: heap_ok_def domIff)
  moreover have "recv_buffer ?h buf" using old by (auto simp: recv_buffer_def)
  moreover have "\<forall>a. a \<noteq> buf_data buf \<longrightarrow> blocks ?h a = blocks h a" by simp
  ultimately show ?thesis by blast
qed


lemma handler_loop_runs:
  assumes "m_ServerIsRunning s" and "IsClientConnected cid s" and "m_DataReceivedCallback s"
  shows "heap_ok h \<Longrightarrow> recv_buffer h buf \<Longrightarrow> \<forall>bs \<in> set (chunks rs). length bs \<le> buf_size buf \<Longrightarrow>
    \<exists>h'. handler_loop cid buf rs s h = Inr (h', chunks rs) \<and> heap_ok h' \<and> recv_buffer h' buf \<and>
         (\<forall>a. a \<noteq> buf_data buf \<longrightarrow> blocks h' a = blocks h a)"
proof (induction rs arbitrary: h)
  case (Cons r rs)
  show ?case
  proof (cases r)
    case (Received bs)
    obtain h2 c h1 where st: "HandleConnectionThread_step cid buf r s h = Inr (True, h2, Some c)"
      "copied h1 bs = (c, h2)" "heap_ok h1" "recv_buffer h1 buf"
      "\<forall>a. a \<noteq> buf_data buf \<longrightarrow> blocks h1 a = blocks h a"
      using handler_step_received [OF Cons.prems(1,2) _ assms, of bs] Cons.prems(3)
      unfolding Received by auto
    let ?h3 = "h2\<lparr>blocks := blocks h1\<rparr>"
    note k = copied_holds [OF st(3,2)]
    have rel: "Release c h2 = Inr (empty_buffer, ?h3)" by (rule release_copied [OF st(3,2)])
    have "?h3 = h2\<lparr>blocks := (blocks h2)(buf_data c := None)\<rparr>"
      using rel Release_eq [OF k(2,1)] by simp
    then have ok: "heap_ok ?h3" using heap_ok_free [OF k(2)] by metis
    have "recv_buffer ?h3 buf" using st(4) by (simp add: recv_buffer_def)
    then obtain h' where r: "handler_loop cid buf rs s ?h3 = Inr (h', chunks rs)" "heap_ok h'" "recv_buffer h' buf"
      "\<forall>a. a \<noteq> buf_data buf \<longrightarrow> blocks h' a = blocks ?h3 a"
      using Cons.IH [OF ok] Cons.prems(3) Received by auto
    have "handler_loop cid buf (r # rs) s h = Inr (h', chunks (r # rs))"
      using st(1) load_bytes_holds [OF k(1)] rel r(1) by (simp add: Received)
    moreover have "\<forall>a. a \<noteq> buf_data buf \<longrightarrow> blocks h' a = blocks h a" using r(4) st(5) by simp
    ultimately show ?thesis using r(2,3) by blast
  qed (use handler_step_ends [OF Cons.prems(1,2), of r cid s] in auto)
qed auto

text \<open>
  Property C22: a client's session. Between the handler's start and end every chunk that
  \<open>recv\<close> delivers reaches the data callback as a buffer with exactly its bytes, in order, until
  the connection fails or ends; then the client is kicked, and all storage of the session is
  free again.
\<close>

theorem session_delivers:
  assumes "heap_ok h" and "m_ServerIsRunning s" and "IsClientConnected cid s" and "m_DataReceivedCallback s"
    and "0 < info_buffer_size (m_ServerInfo s)"
    and "\<forall>bs \<in> set (chunks rs). length bs \<le> info_buffer_size (m_ServerInfo s)"
  shows "\<exists>h'. handler_session cid rs s h =
             Inr (fst (KickClient cid s), h', chunks rs, snd (KickClient cid s)) \<and> blocks h' = blocks h"
proof -
  let ?n = "info_buffer_size (m_ServerInfo s)"
  let ?b = "\<lparr>buf_data = fresh h, buf_size = ?n\<rparr>"
  let ?h1 = "snd (new_block ?n h)"
  have start: "HandleConnectionThread_start s h = Inr (?b, ?h1)"
    using assms(5) by (simp add: HandleConnectionThread_start_def Allocate_fresh)
  have b1: "recv_buffer ?h1 ?b" by (simp add: recv_buffer_def new_block_def)
  obtain h2 where h2: "handler_loop cid ?b rs s ?h1 = Inr (h2, chunks rs)" "recv_buffer h2 ?b"
    "\<forall>a. a \<noteq> buf_data ?b \<longrightarrow> blocks h2 a = blocks ?h1 a"
    using handler_loop_runs [OF assms(2-4) heap_ok_new [OF assms(1)] b1, of rs] assms(6)
    unfolding buffer.select_convs by blast
  have "fresh h \<noteq> 0" using assms(1) by (simp add: heap_ok_def)
  then have rel: "Release ?b h2 = Inr (empty_buffer, h2\<lparr>blocks := (blocks h2)(fresh h := None)\<rparr>)"
    using h2(2) by (auto simp: Release_def free_data_def delete_block_def recv_buffer_def domIff)
  have "(blocks h2)(fresh h := None) = blocks h"
    using h2(3) heap_ok_fresh [OF assms(1)] by (auto simp: fun_eq_iff new_block_def)
  then show ?thesis using start h2(1) rel
    by (simp add: handler_session_def HandleConnectionThread_end_def split: prod.split)
qed

theorem session_delivers_witness:
  "\<exists>h'. handler_session 9 [Received [83, 84], Received [10], Recv_Closed, Received [7]] sample_server sample_heap =
     Inr (fst (KickClient 9 sample_server), h', [[83, 84], [10]], snd (KickClient 9 sample_server)) \<and>
     blocks h' = blocks sample_heap"
proof -
  have "m_ServerIsRunning sample_server" "IsClientConnected 9 sample_server"
    "m_DataReceivedCallback sample_server" "info_buffer_size (m_ServerInfo sample_server) = 4"
    by (simp_all add: sample_server_def IsClientConnected_def Server_def sample_info_def)
  then show ?thesis
    using session_delivers [OF sample_heap_ok(1), of sample_server 9
        "[Received [83, 84], Received [10], Recv_Closed, Received [7]]"] by simp
qed

end
