(* ===== verification/ServerLayer.thy ===== *)
theory ServerLayer
  imports MpsCommands Server
begin

section \<open>server-layer.cpp: the layer between the scanner and its clients\<close>

text \<open>
  Class \<open>ServerLayer\<close>: one virtual scanner, a command server (telnet and UDP stream) and a
  binary server. Its operations are the callbacks of these three and of the console. Each takes
  and returns the layer and the storage; the results list what leaves the program, in order.
  \<open>t1\<close> and \<open>t2\<close> are the readings of the system and the steady clock, and \<open>errno\<close> is the
  thread's (\<open>True\<close> for \<open>ERANGE\<close>). \<open>m_Console\<close> is whether the console exists, the other
  pointers are options. Log output is left out, but not the pointers it follows.
\<close>

record ('g, 'd) ServerLayer =
  m_DeviceID :: u32
  m_Port :: u16
  m_BindIp :: string
  m_TCPCommandClientConnected :: bool
  m_TCPBinaryCleintConnected :: bool
  m_ActiveTCPCommandClientId :: u64
  m_ActiveTCPBinaryClientId :: u64
  m_EnableConsole :: bool
  m_Console :: bool
  m_Device :: "('g, 'd) mps option"
  m_Server :: "Server option"
  m_TCPBinaryServer :: "Server option"
  m_Cmds :: "(u64, string) std_map"

datatype layer_event =
    On_Command net_event
  | On_Binary net_event
  | Console_Output string
  | App_Shutdown
  | App_Restart

type_synonym ('g, 'd) layer_result = "ub + ('g, 'd) ServerLayer \<times> heap \<times> layer_event list"

definition ServerLayer :: "u32 \<Rightarrow> string \<Rightarrow> u16 \<Rightarrow> bool \<Rightarrow> ('g, 'd) ServerLayer" where
  "ServerLayer dev ip port enable_console = \<lparr>
     m_DeviceID = dev, m_Port = port, m_BindIp = ip,
     m_TCPCommandClientConnected = False, m_TCPBinaryCleintConnected = False,
     m_ActiveTCPCommandClientId = 0, m_ActiveTCPBinaryClientId = 0,
     m_EnableConsole = enable_console, m_Console = False, m_Device = None,
     m_Server = None, m_TCPBinaryServer = None, m_Cmds = []\<rparr>"

subsection \<open>Sending through the command server\<close>

definition send_string :: "u64 \<Rightarrow> string \<Rightarrow> ('g, 'd) ServerLayer \<Rightarrow> heap \<Rightarrow> ub + heap \<times> layer_event list" where
  "send_string cid str L h =
     bind_ub (deref (m_Server L)) (\<lambda>s.
     bind_ub (SendString cid str s h) (\<lambda>(h1, ev). Inr (h1, map On_Command ev)))"

subsection \<open>Callbacks of the scanner\<close>

text \<open>The two destinations of a scan frame: the UDP stream and the binary client.\<close>

definition stream_scan_frame :: "mps_protocol \<Rightarrow> buffer \<Rightarrow> ('g, 'd) ServerLayer \<Rightarrow> heap
    \<Rightarrow> ub + ('g, 'd) ServerLayer \<times> heap" where
  "stream_scan_frame P buf L h =
     (case m_Device L of
        None \<Rightarrow> Inr (L, h)
      | Some m \<Rightarrow>
          let cfg = m_cfg m
          in if udp_enabled cfg \<and> ftp_udp_format cfg = MPS_FMT_BINARY P
             then
               bind_ub (deref (m_Server L)) (\<lambda>s.
               bind_ub
                 (bind_ub (Copy (buf_data buf) (buf_size buf) h) (\<lambda>(b, h1).
                  StreamTo (udp_target_ip cfg) (udp_target_port cfg) b s h1))
                 (\<lambda>(s1, h2). Inr (L\<lparr>m_Server := Some s1\<rparr>, h2)))
             else Inr (L, h))"

definition send_scan_frame :: "mps_protocol \<Rightarrow> buffer \<Rightarrow> ('g, 'd) ServerLayer \<Rightarrow> heap
    \<Rightarrow> ub + heap \<times> net_event list" where
  "send_scan_frame P buf L h =
     (case m_TCPBinaryServer L of
        None \<Rightarrow> Inr (h, [])
      | Some s \<Rightarrow>
          if m_TCPBinaryCleintConnected L
          then
            bind_ub (deref (m_Device L)) (\<lambda>m.
              if binary_format (m_cfg m) = MPS_FMT_BINARY P
              then
                bind_ub (Copy (buf_data buf) (buf_size buf) h) (\<lambda>(b, h1).
                SendBuffer (m_ActiveTCPBinaryClientId L) b s h1)
              else Inr (h, []))
          else Inr (h, []))"

definition OnScanFrame :: "mps_protocol \<Rightarrow> buffer \<Rightarrow> ('g, 'd) ServerLayer \<Rightarrow> heap \<Rightarrow> ('g, 'd) layer_result" where
  "OnScanFrame P buf L h =
     bind_ub (stream_scan_frame P buf L h) (\<lambda>(L1, h1).
     bind_ub (send_scan_frame P buf L1 h1) (\<lambda>(h2, ev).
     bind_ub (Release buf h2) (\<lambda>(_, h3). Inr (L1, h3, map On_Binary ev))))"

definition OnLabviewFrame :: "mps_protocol \<Rightarrow> buffer \<Rightarrow> ('g, 'd) ServerLayer \<Rightarrow> heap \<Rightarrow> ('g, 'd) layer_result" where
  "OnLabviewFrame P buf L h =
     bind_ub
       (case m_TCPBinaryServer L of
          None \<Rightarrow> Inr (h, [])
        | Some s \<Rightarrow>
            if m_TCPBinaryCleintConnected L
            then
              bind_ub (deref (m_Device L)) (\<lambda>m.
                if binary_format (m_cfg m) = MPS_FMT_LABVIEW P
                then
                  bind_ub (SwapToNetworkOrderInPlace buf h) (\<lambda>h1.
                  bind_ub (Copy (buf_data buf) (buf_size buf) h1) (\<lambda>(b, h2).
                    SendBuffer (m_ActiveTCPBinaryClientId L) b s h2))
                else Inr (h, []))
            else Inr (h, []))
       (\<lambda>(h2, ev).
     bind_ub (Release buf h2) (\<lambda>(_, h3). Inr (L, h3, map On_Binary ev)))"

definition OnStatusChanged :: "mps_protocol \<Rightarrow> ('g, 'd) ServerLayer \<Rightarrow> heap \<Rightarrow> ub + heap \<times> layer_event list" where
  "OnStatusChanged P L h =
     bind_ub (deref (m_Device L)) (\<lambda>m.
       if m_Status m = MPS_STATUS_READY P \<and> m_Server L \<noteq> None \<and> m_TCPCommandClientConnected L \<and>
          m_ActiveTCPCommandClientId L \<noteq> 0
       then send_string (m_ActiveTCPCommandClientId L) prompt L h
       else Inr (h, []))"

text \<open>
  The scanner's events are the calls of the three callbacks that \<open>OnAttach\<close> gives it; it
  makes them when it has changed its state, so the device the callbacks see is the new one. A
  frame is handed over as a fresh copy.
\<close>

fun device_events :: "mps_protocol \<Rightarrow> device_event list \<Rightarrow> ('g, 'd) ServerLayer \<Rightarrow> heap
    \<Rightarrow> ('g, 'd) layer_result" where
  "device_events P [] L h = Inr (L, h, [])"
| "device_events P (e # es) L h =
     bind_ub
       (case e of
          Status_Changed \<Rightarrow> bind_ub (OnStatusChanged P L h) (\<lambda>(h1, ev). Inr (L, h1, ev))
        | Frame_Ready bs \<Rightarrow> bind_ub (Copy_bytes bs h) (\<lambda>(b, h1). OnScanFrame P b L h1)
        | Labview_Ready bs \<Rightarrow> bind_ub (Copy_bytes bs h) (\<lambda>(b, h1). OnLabviewFrame P b L h1))
       (\<lambda>(L1, h1, ev1).
     bind_ub (device_events P es L1 h1) (\<lambda>(L2, h2, ev2). Inr (L2, h2, ev1 @ ev2)))"

subsection \<open>Commands\<close>

text \<open>
  How \<open>OnCommand\<close> builds the client's command: a single character is a key of the ScanTel
  program. The second part says whether the command is complete.
\<close>

definition build_command :: "string \<Rightarrow> string \<Rightarrow> string \<times> bool" where
  "build_command client_cmd cmd =
     (if length cmd = 1
      then if cmd ! 0 = CR then (client_cmd, True)
           else if cmd ! 0 = BS then (butlast client_cmd, False)
           else if cmd ! 0 = ESC then ([ESC], True)
           else (client_cmd @ cmd, False)
      else (cmd, True))"

definition execute_command :: "mps_protocol \<Rightarrow> ('g, 'd) random_lib \<Rightarrow> int \<Rightarrow> int \<Rightarrow> u64 \<Rightarrow> string \<Rightarrow> bool
    \<Rightarrow> ('g, 'd) ServerLayer \<Rightarrow> heap \<Rightarrow> ub + bool \<times> ('g, 'd) ServerLayer \<times> heap \<times> layer_event list" where
  "execute_command P R t1 t2 cid t errno L h =
     (let say = (\<lambda>str. bind_ub (send_string cid str L h) (\<lambda>(h1, ev). Inr (errno, L, h1, ev)))
      in if char0 t = CR \<or> t = [] then say [CR, CHR ''>'']
         else if t \<in> {''shutdown'', ''SHUTDOWN''}
         then bind_ub
                (if m_EnableConsole L
                 then say (''Shuting down server: Requires manually stopping from the server console'' @ crlf)
                 else Inr (errno, L, h, []))
                (\<lambda>(e, L1, h1, ev). Inr (e, L1, h1, ev @ [App_Shutdown]))
         else if t \<in> {''restart'', ''RESTART'', ''reboot'', ''REBOOT''}
         then bind_ub
                (if m_EnableConsole L \<and> m_Server L \<noteq> None
                 then say (''Retarting down server: Requires manually stopping from the server console'' @ crlf)
                 else Inr (errno, L, h, []))
                (\<lambda>(e, L1, h1, ev). Inr (e, L1, h1, ev @ [App_Restart]))
         else case m_Device L of
             None \<Rightarrow> Inr (errno, L, h, [])
           | Some m \<Rightarrow>
               bind_ub (ParseCommands P R t1 t2 t errno m) (\<lambda>(response, m1, errno1, es).
               bind_ub (device_events P es (L\<lparr>m_Device := Some m1\<rparr>) h) (\<lambda>(L1, h1, ev1).
               bind_ub (send_string cid response L1 h1) (\<lambda>(h2, ev2).
                 Inr (errno1, L1, h2,
                      ev1 @ (if cid = 0 then [Console_Output (response @ [LF])] else []) @ ev2)))))"

definition OnCommand :: "mps_protocol \<Rightarrow> ('g, 'd) random_lib \<Rightarrow> int \<Rightarrow> int \<Rightarrow> u64 \<Rightarrow> string \<Rightarrow> bool
    \<Rightarrow> ('g, 'd) ServerLayer \<Rightarrow> heap \<Rightarrow> ub + bool \<times> ('g, 'd) ServerLayer \<times> heap \<times> layer_event list" where
  "OnCommand P R t1 t2 cid cmd errno L h =
     (if m_Server L \<noteq> None \<and> cid \<noteq> m_ActiveTCPCommandClientId L \<and> cid \<noteq> 0
      then bind_ub (send_string cid (''[Error] you do not have permission to control this device'' @ crlf) L h)
             (\<lambda>(h1, ev). Inr (errno, L, h1, ev))
      else
        let old = (case map_of (m_Cmds L) cid of None \<Rightarrow> [] | Some str \<Rightarrow> str);
            (client_cmd, complete) = build_command old cmd
        in if \<not> complete then Inr (errno, L\<lparr>m_Cmds := map_put cid client_cmd (m_Cmds L)\<rparr>, h, [])
           else
             execute_command P R t1 t2 cid (SplitString client_cmd crlf ! 0) errno
               (L\<lparr>m_Cmds := map_put cid [] (m_Cmds L)\<rparr>) h)"

subsection \<open>The console\<close>

definition OnConsoleInput :: "mps_protocol \<Rightarrow> ('g, 'd) random_lib \<Rightarrow> int \<Rightarrow> int \<Rightarrow> string \<Rightarrow> bool
    \<Rightarrow> ('g, 'd) ServerLayer \<Rightarrow> heap \<Rightarrow> ub + bool \<times> ('g, 'd) ServerLayer \<times> heap \<times> layer_event list" where
  "OnConsoleInput P R t1 t2 msg errno L h =
     (case msg of
        [] \<Rightarrow> Inl Out_Of_Bounds
      | c # rest \<Rightarrow>
          if c = CHR ''/'' \<and> 1 < length msg then OnCommand P R t1 t2 0 rest errno L h
          else case m_Server L of
              None \<Rightarrow> Inr (errno, L, h, [])
            | Some s \<Rightarrow>
                bind_ub (SendStringToAll (msg @ prompt) s h)
                  (\<lambda>(h1, ev). Inr (errno, L, h1, map On_Command ev)))"

subsection \<open>Clients that connect and disconnect\<close>

definition OnClientDisconnected :: "u64 \<Rightarrow> ('g, 'd) ServerLayer \<Rightarrow> ('g, 'd) ServerLayer" where
  "OnClientDisconnected cid L =
     (if cid = m_ActiveTCPCommandClientId L
      then L\<lparr>m_TCPCommandClientConnected := False, m_ActiveTCPCommandClientId := 0,
             m_Cmds := map_erase cid (m_Cmds L)\<rparr>
      else L)"

definition OnTCPBinaryClientDisconnected :: "u64 \<Rightarrow> ('g, 'd) ServerLayer \<Rightarrow> ('g, 'd) ServerLayer" where
  "OnTCPBinaryClientDisconnected cid L =
     (if cid = m_ActiveTCPBinaryClientId L
      then L\<lparr>m_TCPBinaryCleintConnected := False, m_ActiveTCPBinaryClientId := 0\<rparr>
      else L)"

text \<open>The calls of a server's disconnect callback that its events list.\<close>

fun disconnects :: "(u64 \<Rightarrow> 'l \<Rightarrow> 'l) \<Rightarrow> net_event list \<Rightarrow> 'l \<Rightarrow> 'l" where
  "disconnects f [] L = L"
| "disconnects f (Client_Disconnected k # ev) L = disconnects f ev (f k L)"
| "disconnects f (_ # ev) L = disconnects f ev L"

definition kick_command :: "u64 \<Rightarrow> ('g, 'd) ServerLayer \<Rightarrow> ub + ('g, 'd) ServerLayer \<times> layer_event list" where
  "kick_command cid L =
     bind_ub (deref (m_Server L)) (\<lambda>s.
       let (s1, ev) = KickClient cid s
       in Inr ((disconnects OnClientDisconnected ev L)\<lparr>m_Server := Some s1\<rparr>, map On_Command ev))"

definition kick_binary :: "u64 \<Rightarrow> ('g, 'd) ServerLayer \<Rightarrow> ub + ('g, 'd) ServerLayer \<times> layer_event list" where
  "kick_binary cid L =
     bind_ub (deref (m_TCPBinaryServer L)) (\<lambda>s.
       let (s1, ev) = KickClient cid s
       in Inr ((disconnects OnTCPBinaryClientDisconnected ev L)\<lparr>m_TCPBinaryServer := Some s1\<rparr>,
               map On_Binary ev))"

definition OnClientConnected :: "u64 \<Rightarrow> ('g, 'd) ServerLayer \<Rightarrow> heap \<Rightarrow> ('g, 'd) layer_result" where
  "OnClientConnected cid L h =
     (if cid = m_ActiveTCPCommandClientId L then Inr (L, h, [])
      else
        bind_ub
          (if m_TCPCommandClientConnected L
           then bind_ub (kick_command (m_ActiveTCPCommandClientId L) L) (\<lambda>(L1, ev).
                  Inr (L1\<lparr>m_Cmds := map_erase (m_ActiveTCPCommandClientId L1) (m_Cmds L1)\<rparr>, ev))
           else Inr (L, []))
          (\<lambda>(L1, ev1).
            let L2 = L1\<lparr>m_ActiveTCPCommandClientId := cid, m_TCPCommandClientConnected := True\<rparr>
            in bind_ub (send_string cid prompt L2 h) (\<lambda>(h1, ev2). Inr (L2, h1, ev1 @ ev2))))"

definition OnTCPBinaryClientConnected :: "u64 \<Rightarrow> ('g, 'd) ServerLayer
    \<Rightarrow> ub + ('g, 'd) ServerLayer \<times> layer_event list" where
  "OnTCPBinaryClientConnected cid L =
     (if cid = m_ActiveTCPBinaryClientId L then Inr (L, [])
      else
        bind_ub
          (if m_TCPBinaryCleintConnected L \<and> m_TCPBinaryServer L \<noteq> None
           then kick_binary (m_ActiveTCPBinaryClientId L) L
           else Inr (L, []))
          (\<lambda>(L1, ev).
            Inr (L1\<lparr>m_ActiveTCPBinaryClientId := cid, m_TCPBinaryCleintConnected := True\<rparr>, ev)))"

subsection \<open>Data from clients\<close>

definition string_of :: "u8 list \<Rightarrow> string" where
  "string_of bs = map (\<lambda>b. char_of (unat b)) bs"

definition OnDataReceived :: "mps_protocol \<Rightarrow> ('g, 'd) random_lib \<Rightarrow> int \<Rightarrow> int \<Rightarrow> u64 \<Rightarrow> buffer \<Rightarrow> bool
    \<Rightarrow> ('g, 'd) ServerLayer \<Rightarrow> heap \<Rightarrow> ub + bool \<times> ('g, 'd) ServerLayer \<times> heap \<times> layer_event list" where
  "OnDataReceived P R t1 t2 cid buf errno L h =
     bind_ub (load_bytes (buf_data buf) (buf_size buf) h) (\<lambda>bs.
     bind_ub (OnCommand P R t1 t2 cid (string_of bs) errno L h) (\<lambda>(errno1, L1, h1, ev).
     bind_ub (Release buf h1) (\<lambda>(_, h2). Inr (errno1, L1, h2, ev))))"

definition OnTCPBinaryDataReceived :: "mps_protocol \<Rightarrow> ('g, 'd) random_lib \<Rightarrow> int \<Rightarrow> int \<Rightarrow> u64 \<Rightarrow> buffer
    \<Rightarrow> ('g, 'd) ServerLayer \<Rightarrow> heap \<Rightarrow> ('g, 'd) layer_result" where
  "OnTCPBinaryDataReceived P R t1 t2 cid buf L h =
     (case m_Device L of
        None \<Rightarrow> bind_ub (Release buf h) (\<lambda>(_, h1). Inr (L, h1, []))
      | Some m \<Rightarrow>
          bind_ub
            (if 1 \<le> buf_size buf
             then
               bind_ub (load_bytes (buf_data buf) 1 h) (\<lambda>val.
               bind_ub
                 (if val ! 0 = 1 then StartScan P R t1 t2 m
                  else if val ! 0 = 0 then Inr (StopScan P m)
                  else Inr (m, []))
                 (\<lambda>(m1, es). device_events P es (L\<lparr>m_Device := Some m1\<rparr>) h))
             else Inr (L, h, []))
            (\<lambda>(L1, h1, ev). bind_ub (Release buf h1) (\<lambda>(_, h2). Inr (L1, h2, ev))))"


subsection \<open>Attach, update, detach\<close>

text \<open>
  \<open>OnAttach\<close> makes the scanner with a fixed configuration, and both servers. The device id is
  the number given on the command line, whatever it is; the serial number is the last byte of
  the address to bind. \<open>env1\<close> and \<open>env2\<close> are the operating system's answers to the start of
  the two servers.
\<close>

definition attach_config :: "mps_protocol \<Rightarrow> (string \<Rightarrow> u32 option) \<Rightarrow> ('g, 'd) ServerLayer \<Rightarrow> mps_config" where
  "attach_config P pton L = \<lparr>device_id = uint (m_DeviceID L),
     serial_number = extract_last_octet_ip pton (m_BindIp L),
     telnet_format = MPS_FMT_ASCII P, ftp_udp_format = MPS_FMT_BINARY P, binary_format = MPS_FMT_BINARY P,
     scan_rate_hz = Num False 10, frames_per_scan = 0, units = MPS_UNITS_PA P,
     udp_enabled = True, udp_target_ip = ''127.0.0.1'', udp_target_port = 23,
     ftp_enabled = False, sim = MPS_SIM_SIMULATED_64CH P\<rparr>"

definition command_info :: "('g, 'd) ServerLayer \<Rightarrow> ServerInfo" where
  "command_info L = \<lparr>info_workers = 5, info_bind_ip = m_BindIp L, info_port = m_Port L,
     info_buffer_size = 1024, info_enable_udp = True\<rparr>"

definition binary_info :: "('g, 'd) ServerLayer \<Rightarrow> ServerInfo" where
  "binary_info L = \<lparr>info_workers = 2, info_bind_ip = m_BindIp L, info_port = 503,
     info_buffer_size = 1024, info_enable_udp = False\<rparr>"

definition with_callbacks :: "Server \<Rightarrow> Server" where
  "with_callbacks s = SetDataRecvCallback (SetClientDisconCallback (SetClientConCallback s))"

definition OnAttach :: "mps_protocol \<Rightarrow> ('g, 'd) random_lib \<Rightarrow> net_env \<Rightarrow> net_env \<Rightarrow> wsa
    \<Rightarrow> ('g, 'd) ServerLayer \<Rightarrow> ('g, 'd) ServerLayer \<times> wsa \<times> layer_event list" where
  "OnAttach P R env1 env2 w L =
     (let m = Start (Mps P R (attach_config P (inet_pton env1) L) True True True);
          (s1, w1, ev1) = Start_server env1 w (with_callbacks (Server (command_info L)));
          (s2, w2, ev2) = Start_server env2 w1 (with_callbacks (Server (binary_info L)))
      in (L\<lparr>m_Device := Some m, m_Server := Some s1, m_TCPBinaryServer := Some s2,
            m_Console := m_EnableConsole L\<rparr>, w2, map On_Command ev1 @ map On_Binary ev2))"

definition OnUpdate :: "net_env \<Rightarrow> net_env \<Rightarrow> wsa \<Rightarrow> ('g, 'd) ServerLayer
    \<Rightarrow> ub + ('g, 'd) ServerLayer \<times> wsa \<times> layer_event list" where
  "OnUpdate env1 env2 w L =
     bind_ub (deref (m_Server L)) (\<lambda>s1.
     let (s1', w1, ev1) = (if IsRunning s1 then (s1, w, []) else Start_server env1 w s1)
     in bind_ub (deref (m_TCPBinaryServer L)) (\<lambda>s2.
        let (s2', w2, ev2) = (if IsRunning s2 then (s2, w1, []) else Start_server env2 w1 s2)
        in Inr (L\<lparr>m_Server := Some s1', m_TCPBinaryServer := Some s2'\<rparr>, w2,
                map On_Command ev1 @ map On_Binary ev2)))"

text \<open>\<open>Stop\<close>, and then the destructor, which calls it again; no server, nothing to do.\<close>

definition stop_and_delete :: "wsa \<Rightarrow> Server option \<Rightarrow> ub + wsa \<times> net_event list" where
  "stop_and_delete w r =
     (case r of
        None \<Rightarrow> Inr (w, [])
      | Some s \<Rightarrow>
          bind_ub (Stop w s) (\<lambda>(s1, w1, ev1).
          bind_ub (Stop w1 s1) (\<lambda>(s2, w2, ev2). Inr (w2, ev1 @ ev2))))"

text \<open>
  The scanner is shut down, and again by its destructor, when the pointer to it is already
  null.
\<close>

definition detach_device :: "mps_protocol \<Rightarrow> ('g, 'd) ServerLayer \<Rightarrow> heap \<Rightarrow> ('g, 'd) layer_result" where
  "detach_device P L h =
     (case m_Device L of
        None \<Rightarrow> Inr (L, h, [])
      | Some m \<Rightarrow>
          let (m1, es1) = Shutdown P m; (m2, es2) = Shutdown P m1
          in bind_ub (device_events P es1 (L\<lparr>m_Device := Some m1\<rparr>) h) (\<lambda>(L1, h1, ev1).
             bind_ub (device_events P es2 (L1\<lparr>m_Device := None\<rparr>) h1) (\<lambda>(L2, h2, ev2).
               Inr (L2, h2, ev1 @ ev2))))"

definition OnDetach :: "mps_protocol \<Rightarrow> wsa \<Rightarrow> ('g, 'd) ServerLayer \<Rightarrow> heap
    \<Rightarrow> ub + ('g, 'd) ServerLayer \<times> wsa \<times> heap \<times> layer_event list" where
  "OnDetach P w L h =
     bind_ub (detach_device P L h) (\<lambda>(L1, h1, ev1).
     bind_ub (stop_and_delete w (m_Server L1)) (\<lambda>(w1, ev2).
     bind_ub (stop_and_delete w1 (m_TCPBinaryServer L1)) (\<lambda>(w2, ev3).
       Inr (L1\<lparr>m_Server := None, m_TCPBinaryServer := None\<rparr>, w2, h1,
            ev1 @ map On_Command ev2 @ map On_Binary ev3))))"

subsection \<open>The servers' threads with the layer's callbacks\<close>

text \<open>
  A turn of the accept thread of each server, and the end of a client's handler thread; the
  callback of an accepted connection is part of the turn.
\<close>

definition command_accept :: "accept_result \<Rightarrow> ('g, 'd) ServerLayer \<Rightarrow> heap \<Rightarrow> ('g, 'd) layer_result" where
  "command_accept r L h =
     bind_ub (deref (m_Server L)) (\<lambda>s.
       let (s1, ev) = AcceptConnectionThread_step r s; L1 = L\<lparr>m_Server := Some s1\<rparr>
       in case ev of
            Client_Connected k # _ \<Rightarrow>
              bind_ub (OnClientConnected k L1 h) (\<lambda>(L2, h1, ev1). Inr (L2, h1, map On_Command ev @ ev1))
          | _ \<Rightarrow> Inr (L1, h, map On_Command ev))"

definition binary_accept :: "accept_result \<Rightarrow> ('g, 'd) ServerLayer \<Rightarrow> ub + ('g, 'd) ServerLayer \<times> layer_event list" where
  "binary_accept r L =
     bind_ub (deref (m_TCPBinaryServer L)) (\<lambda>s.
       let (s1, ev) = AcceptConnectionThread_step r s; L1 = L\<lparr>m_TCPBinaryServer := Some s1\<rparr>
       in case ev of
            Client_Connected k # _ \<Rightarrow>
              bind_ub (OnTCPBinaryClientConnected k L1) (\<lambda>(L2, ev1). Inr (L2, map On_Binary ev @ ev1))
          | _ \<Rightarrow> Inr (L1, map On_Binary ev))"

text \<open>One turn of a command client's handler thread: whether it goes on, and the effects.\<close>

definition command_receive :: "mps_protocol \<Rightarrow> ('g, 'd) random_lib \<Rightarrow> int \<Rightarrow> int \<Rightarrow> u64 \<Rightarrow> buffer \<Rightarrow> received
    \<Rightarrow> bool \<Rightarrow> ('g, 'd) ServerLayer \<Rightarrow> heap
    \<Rightarrow> ub + bool \<times> bool \<times> ('g, 'd) ServerLayer \<times> heap \<times> layer_event list" where
  "command_receive P R t1 t2 cid buf r errno L h =
     bind_ub (deref (m_Server L)) (\<lambda>s.
     bind_ub (HandleConnectionThread_step cid buf r s h) (\<lambda>(go, h1, msg).
       case msg of
         None \<Rightarrow> Inr (go, errno, L, h1, [])
       | Some c \<Rightarrow>
           bind_ub (OnDataReceived P R t1 t2 cid c errno L h1)
             (\<lambda>(errno1, L1, h2, ev). Inr (go, errno1, L1, h2, ev))))"


subsection \<open>Only the controlling client commands the device\<close>

definition told :: "u64 \<Rightarrow> string \<Rightarrow> Server \<Rightarrow> layer_event list" where
  "told cid str s = map (\<lambda>k. On_Command (Sent k (bytes_of str))) (recipients cid s)"

lemma send_string_eq:
  assumes "heap_ok h" and "m_Server L = Some s" and "connections_ok s"
  shows "\<exists>h'. send_string cid str L h = Inr (h', told cid str s) \<and> blocks h' = blocks h \<and> heap_ok h'"
proof -
  obtain h' where "SendString cid str s h = Inr (h', map (\<lambda>k. Sent k (bytes_of str)) (recipients cid s))"
    "blocks h' = blocks h" "heap_ok h'"
    using SendString_eq [OF assms(1,3)] by blast
  then show ?thesis using assms(2) by (simp add: send_string_def told_def comp_def)
qed

lemma told_connected [simp]:
  "cid \<noteq> 0 \<Longrightarrow> IsClientConnected cid s \<Longrightarrow> told cid str s = [On_Command (Sent cid (bytes_of str))]"
  by (simp add: told_def recipients_def)

lemma string_of_bytes_of [simp]: "string_of (bytes_of str) = str"
  by (induction str) (simp_all add: string_of_def bytes_of_def unat_of_nat)

text \<open>
  Property C13: access control. Whatever a client that does not hold the control sends, it gets
  the same refusal and nothing else happens: no other client hears of it, the layer, the
  scanner and the other client's unfinished command stay as they are, and the data's storage is
  freed.
\<close>

theorem others_are_refused:
  assumes "heap_ok h" and "holds h buf bs" and "m_Server L = Some s" and "connections_ok s"
    and "cid \<noteq> 0" and "cid \<noteq> m_ActiveTCPCommandClientId L" and "IsClientConnected cid s"
  shows "\<exists>h'. OnDataReceived P R t1 t2 cid buf errno L h =
       Inr (errno, L, h', [On_Command (Sent cid (bytes_of
         (''[Error] you do not have permission to control this device'' @ crlf)))]) \<and>
       blocks h' = (blocks h)(buf_data buf := None)"
proof -
  let ?e = "''[Error] you do not have permission to control this device'' @ crlf"
  obtain h1 where h1: "send_string cid ?e L h = Inr (h1, told cid ?e s)" "blocks h1 = blocks h" "heap_ok h1"
    using send_string_eq [OF assms(1,3,4)] by blast
  have "OnCommand P R t1 t2 cid (string_of bs) errno L h = Inr (errno, L, h1, told cid ?e s)"
    unfolding OnCommand_def h1(1) using assms(3,5,6) by simp
  moreover have "holds h1 buf bs" using assms(2) h1(2) by (simp add: holds_def)
  ultimately show ?thesis
    unfolding OnDataReceived_def
    using load_bytes_holds [OF assms(2)] Release_eq [OF h1(3)] told_connected [OF assms(5,7)] h1(2) by simp
qed

subsection \<open>A layer for examples\<close>

definition sample_layer :: "(nat, bool) ServerLayer" where
  "sample_layer = (ServerLayer 4264 ''127.0.0.1'' 23 False)\<lparr>
     m_Device := Some (sample_device (Num False 10)),
     m_Server := Some (with_callbacks sample_server), m_TCPBinaryServer := Some (with_callbacks sample_server),
     m_ActiveTCPCommandClientId := 9, m_TCPCommandClientConnected := True,
     m_ActiveTCPBinaryClientId := 9, m_TCPBinaryCleintConnected := True\<rparr>"

lemma with_callbacks_simps [simp]:
  "m_Connections (with_callbacks s) = m_Connections s" "m_DataQueue (with_callbacks s) = m_DataQueue s"
  "m_ServerInfo (with_callbacks s) = m_ServerInfo s" "m_ServerIsRunning (with_callbacks s) = m_ServerIsRunning s"
  "m_ClientConnectCallback (with_callbacks s)" "m_ClientDisconnectCallback (with_callbacks s)"
  "m_DataReceivedCallback (with_callbacks s)"
  "m_ServerSocket (with_callbacks s) = m_ServerSocket s" "m_StreamSocket (with_callbacks s) = m_StreamSocket s"
  "m_Pool (with_callbacks s) = m_Pool s"
  "connections_ok (with_callbacks s) = connections_ok s"
  "IsClientConnected k (with_callbacks s) = IsClientConnected k s"
  "recipients cid (with_callbacks s) = recipients cid s"
  by (simp_all add: with_callbacks_def callback_defs connections_ok_def IsClientConnected_def recipients_def)

lemma sample_connected: "IsClientConnected k sample_server \<longleftrightarrow> k = 5 \<or> k = 9"
  by (auto simp: sample_server_def IsClientConnected_def)

lemma sample_layer_simps [simp]:
  "m_Device sample_layer = Some (sample_device (Num False 10))"
  "m_Server sample_layer = Some (with_callbacks sample_server)"
  "m_TCPBinaryServer sample_layer = Some (with_callbacks sample_server)"
  "m_ActiveTCPCommandClientId sample_layer = 9" "m_TCPCommandClientConnected sample_layer"
  "m_ActiveTCPBinaryClientId sample_layer = 9" "m_TCPBinaryCleintConnected sample_layer"
  "m_Cmds sample_layer = []" "m_EnableConsole sample_layer = False"
  by (simp_all add: sample_layer_def ServerLayer_def)

theorem others_are_refused_witness:
  "\<exists>h' ev. OnDataReceived sample_protocol sample_random 0 0 5 sample_buffer False sample_layer sample_heap =
     Inr (False, sample_layer, h', ev) \<and> blocks h' = (blocks sample_heap)(1 := None)"
proof -
  have "buf_data sample_buffer = 1" by (simp add: sample_buffer_def)
  then show ?thesis
    using others_are_refused [OF sample_heap_ok, of sample_layer "with_callbacks sample_server" 5]
      sample_server_ok sample_connected by fastforce
qed


subsection \<open>One client at a time: the last one wins\<close>

text \<open>
  Both servers have a slot for one client. \<open>last_client\<close> is the contract: an accepted
  connection takes the slot, the loss of the connection that has it empties it.
\<close>

fun last_client :: "conn_op \<Rightarrow> u64 option \<Rightarrow> u64 option" where
  "last_client (Peer Accept_Failed) c = c"
| "last_client (Peer (Accepted k ip port)) c = Some k"
| "last_client (Kick k) c = (if c = Some k then None else c)"

fun valid_op :: "conn_op \<Rightarrow> bool" where
  "valid_op (Peer (Accepted k ip port)) = (k \<noteq> 0)"
| "valid_op _ = True"

fun slot_run :: "(conn_op \<Rightarrow> 's \<Rightarrow> ub + 's \<times> layer_event list) \<Rightarrow> conn_op list \<Rightarrow> 's
    \<Rightarrow> ub + 's \<times> layer_event list" where
  "slot_run step [] s = Inr (s, [])"
| "slot_run step (oper # ops) s =
     bind_ub (step oper s) (\<lambda>(s1, ev1).
     bind_ub (slot_run step ops s1) (\<lambda>(s2, ev2). Inr (s2, ev1 @ ev2)))"

fun says :: "(conn_op \<Rightarrow> u64 option \<Rightarrow> layer_event list) \<Rightarrow> conn_op list \<Rightarrow> u64 option \<Rightarrow> layer_event list" where
  "says said [] c = []"
| "says said (oper # ops) c = said oper c @ says said ops (last_client oper c)"

locale client_slot =
  fixes inv :: "'s \<Rightarrow> bool" and slot :: "'s \<Rightarrow> u64 option"
    and step :: "conn_op \<Rightarrow> 's \<Rightarrow> ub + 's \<times> layer_event list"
    and said :: "conn_op \<Rightarrow> u64 option \<Rightarrow> layer_event list"
  assumes slot_step: "inv s \<Longrightarrow> valid_op oper \<Longrightarrow>
    \<exists>s'. step oper s = Inr (s', said oper (slot s)) \<and> inv s' \<and> slot s' = last_client oper (slot s)"
begin

lemma run: "inv s \<Longrightarrow> list_all valid_op ops \<Longrightarrow>
  \<exists>s'. slot_run step ops s = Inr (s', says said ops (slot s)) \<and> inv s' \<and>
       slot s' = fold last_client ops (slot s)"
proof (induction ops arbitrary: s)
  case (Cons oper ops)
  obtain s1 where s1: "step oper s = Inr (s1, said oper (slot s))" "inv s1" "slot s1 = last_client oper (slot s)"
    using slot_step [OF Cons.prems(1)] Cons.prems(2) by auto
  then show ?case using Cons.IH [OF s1(2)] Cons.prems(2) by auto
qed simp

end

text \<open>The connections of a server whose slot holds \<open>c\<close>.\<close>

fun slot_conns :: "u64 option \<Rightarrow> (u64, ClientInfo) std_map \<Rightarrow> bool" where
  "slot_conns None m = (m = [])"
| "slot_conns (Some a) m = (\<exists>v. m = [(a, v)] \<and> client_id v = a)"

lemma slot_conns_ok: "slot_conns c (m_Connections s) \<Longrightarrow> connections_ok s"
  by (cases c) (auto simp: connections_ok_def map_ok_def)

lemma slot_conns_put:
  "slot_conns c m \<Longrightarrow> c = None \<or> c = Some k \<Longrightarrow> client_id v = k \<Longrightarrow> slot_conns (Some k) (map_put k v m)"
  by (cases c) auto

lemma slot_conns_replace:
  "slot_conns (Some a) m \<Longrightarrow> a \<noteq> k \<Longrightarrow> client_id v = k \<Longrightarrow>
     slot_conns (Some k) (map_erase a (map_put k v m))"
  by auto

lemma slot_conns_erase: "slot_conns c m \<Longrightarrow> slot_conns (last_client (Kick k) c) (map_erase k m)"
  by (cases c) auto

definition command_slot :: "('g, 'd) ServerLayer \<times> heap \<Rightarrow> u64 option" where
  "command_slot = (\<lambda>(L, h). if m_TCPCommandClientConnected L then Some (m_ActiveTCPCommandClientId L) else None)"

text \<open>
  The command server's client holds the control; only it and the console (0) have an
  unfinished command. \<open>B\<close> are the blocks in use, which no connection changes.
\<close>

definition command_inv :: "(nat \<rightharpoonup> u8 option list) \<Rightarrow> ('g, 'd) ServerLayer \<times> heap \<Rightarrow> bool" where
  "command_inv B = (\<lambda>(L, h).
     heap_ok h \<and> blocks h = B \<and>
     m_TCPCommandClientConnected L = (m_ActiveTCPCommandClientId L \<noteq> 0) \<and>
     map_ok (m_Cmds L) \<and> dom (map_of (m_Cmds L)) \<subseteq> {0, m_ActiveTCPCommandClientId L} \<and>
     (\<exists>s. m_Server L = Some s \<and> m_ClientConnectCallback s \<and> m_ClientDisconnectCallback s \<and>
          slot_conns (command_slot (L, h)) (m_Connections s)))"

fun command_step :: "conn_op \<Rightarrow> ('g, 'd) ServerLayer \<times> heap
    \<Rightarrow> ub + (('g, 'd) ServerLayer \<times> heap) \<times> layer_event list" where
  "command_step (Peer r) (L, h) = bind_ub (command_accept r L h) (\<lambda>(L1, h1, ev). Inr ((L1, h1), ev))"
| "command_step (Kick k) (L, h) = bind_ub (kick_command k L) (\<lambda>(L1, ev). Inr ((L1, h), ev))"

fun command_said :: "conn_op \<Rightarrow> u64 option \<Rightarrow> layer_event list" where
  "command_said (Peer Accept_Failed) c = []"
| "command_said (Peer (Accepted k ip port)) c =
     On_Command (Client_Connected k) #
     (if c = Some k then []
      else (case c of None \<Rightarrow> [] | Some a \<Rightarrow> [On_Command (Client_Disconnected a), On_Command (Closed a)]) @
           [On_Command (Sent k (bytes_of prompt))])"
| "command_said (Kick k) c = [On_Command (Client_Disconnected k), On_Command (Closed k)]"

lemma kick_command_eq:
  assumes "m_Server L = Some s" and "m_ClientDisconnectCallback s"
  shows "kick_command k L =
     Inr ((OnClientDisconnected k L)\<lparr>m_Server := Some (s\<lparr>m_Connections := map_erase k (m_Connections s)\<rparr>)\<rparr>,
          [On_Command (Client_Disconnected k), On_Command (Closed k)])"
  using assms by (simp add: kick_command_def KickClient_def CloseSocket_def)

lemma command_kick_step:
  assumes "command_inv B (L, h)"
  shows "\<exists>s'. command_step (Kick k) (L, h) = Inr (s', command_said (Kick k) (command_slot (L, h))) \<and>
           command_inv B s' \<and> command_slot s' = last_client (Kick k) (command_slot (L, h))"
proof -
  obtain s where s: "m_Server L = Some s" "m_ClientConnectCallback s" "m_ClientDisconnectCallback s"
    "slot_conns (command_slot (L, h)) (m_Connections s)"
    using assms by (auto simp: command_inv_def)
  let ?s1 = "s\<lparr>m_Connections := map_erase k (m_Connections s)\<rparr>"
  let ?L1 = "(OnClientDisconnected k L)\<lparr>m_Server := Some ?s1\<rparr>"
  have slot: "command_slot (?L1, h) = last_client (Kick k) (command_slot (L, h))"
    using assms by (auto simp: command_slot_def OnClientDisconnected_def command_inv_def)
  have "slot_conns (command_slot (?L1, h)) (m_Connections ?s1)"
    using slot_conns_erase [OF s(4), of k] unfolding slot by simp
  moreover have "map_ok (m_Cmds ?L1)" "dom (map_of (m_Cmds ?L1)) \<subseteq> {0, m_ActiveTCPCommandClientId ?L1}"
    using assms by (auto simp: command_inv_def OnClientDisconnected_def smap.ok_erase smap.find_erase dom_def
        split: if_splits)
  ultimately have "command_inv B (?L1, h)"
    using assms s(1-3) by (auto simp: command_inv_def OnClientDisconnected_def)
  then show ?thesis using kick_command_eq [OF s(1,3)] slot by simp
qed


lemma accept_fields:
  "AcceptConnectionThread_step (Accepted k ip port) s =
     (enqueue_task (HandleConnectionThread k)
        (s\<lparr>m_Connections := map_put k \<lparr>client_id = k, client_ip = ip, client_port = port\<rparr> (m_Connections s)\<rparr>),
      if m_ClientConnectCallback s then [Client_Connected k] else [])"
  by (simp add: AcceptConnectionThread_step_def enqueue_task_def Let_def)

lemma enqueue_task_simps [simp]:
  "m_Connections (enqueue_task t s) = m_Connections s"
  "m_ClientConnectCallback (enqueue_task t s) = m_ClientConnectCallback s"
  "m_ClientDisconnectCallback (enqueue_task t s) = m_ClientDisconnectCallback s"
  "m_DataQueue (enqueue_task t s) = m_DataQueue s"
  by (simp_all add: enqueue_task_def)

text \<open>The connection that takes the slot, after the old client's was closed.\<close>

lemma new_client_prompted:
  assumes "heap_ok h" and "m_Server L = Some s" and "slot_conns (Some k) (m_Connections s)" and "k \<noteq> 0"
  shows "\<exists>h'. send_string k prompt L h = Inr (h', [On_Command (Sent k (bytes_of prompt))]) \<and>
           blocks h' = blocks h \<and> heap_ok h'"
proof -
  have "IsClientConnected k s" using assms(3) by (auto simp: IsClientConnected_def)
  then show ?thesis
    using send_string_eq [OF assms(1,2) slot_conns_ok [OF assms(3)], of k prompt] assms(4) by simp
qed

lemma command_inv_taken:
  assumes "heap_ok h" and "blocks h = B" and "k \<noteq> 0" and "m_Server L = Some s"
    and "m_ClientConnectCallback s" and "m_ClientDisconnectCallback s"
    and "slot_conns (Some k) (m_Connections s)" and "map_ok (m_Cmds L)" and "dom (map_of (m_Cmds L)) \<subseteq> {0, k}"
    and "m_TCPCommandClientConnected L" and "m_ActiveTCPCommandClientId L = k"
  shows "command_inv B (L, h)"
  using assms by (simp add: command_inv_def command_slot_def)

lemma command_accept_step:
  assumes inv: "command_inv B (L, h)" and k: "k \<noteq> 0"
  shows "\<exists>s'. command_step (Peer (Accepted k ip port)) (L, h) =
             Inr (s', command_said (Peer (Accepted k ip port)) (command_slot (L, h))) \<and>
           command_inv B s' \<and> command_slot s' = Some k"
proof -
  let ?client = "\<lparr>client_id = k, client_ip = ip, client_port = port\<rparr>"
  obtain s where s: "m_Server L = Some s" "m_ClientConnectCallback s" "m_ClientDisconnectCallback s"
    "slot_conns (command_slot (L, h)) (m_Connections s)"
    using inv by (auto simp: command_inv_def)
  have h: "heap_ok h" "blocks h = B" and cmds: "map_ok (m_Cmds L)"
    "dom (map_of (m_Cmds L)) \<subseteq> {0, m_ActiveTCPCommandClientId L}"
    and conn: "m_TCPCommandClientConnected L = (m_ActiveTCPCommandClientId L \<noteq> 0)"
    using inv by (auto simp: command_inv_def)
  obtain s1 where s1: "AcceptConnectionThread_step (Accepted k ip port) s = (s1, [Client_Connected k])"
    "m_Connections s1 = map_put k ?client (m_Connections s)" "m_ClientConnectCallback s1"
    "m_ClientDisconnectCallback s1"
    using s by (simp add: accept_fields)
  let ?L1 = "L\<lparr>m_Server := Some s1\<rparr>"
  consider (same) "command_slot (L, h) = Some k" | (none) "command_slot (L, h) = None"
    | (other) a where "command_slot (L, h) = Some a" "a \<noteq> k" by (cases "command_slot (L, h)") auto
  then show ?thesis
  proof cases
    case same
    have "slot_conns (Some k) (m_Connections s1)"
      using slot_conns_put [OF s(4), of k ?client] by (simp add: s1(2) same)
    then have "command_inv B (?L1, h)"
      using same s1(3,4) h cmds k
      by (intro command_inv_taken [where s = s1]) (auto simp: command_slot_def split: if_splits)
    then show ?thesis using same s1(1) s(1)
      by (auto simp: command_accept_def OnClientConnected_def command_slot_def split: if_splits)
  next
    case none
    let ?L2 = "?L1\<lparr>m_ActiveTCPCommandClientId := k, m_TCPCommandClientConnected := True\<rparr>"
    have c: "slot_conns (Some k) (m_Connections s1)"
      using slot_conns_put [OF s(4), of k ?client] by (simp add: s1(2) none)
    obtain h' where h': "send_string k prompt ?L2 h = Inr (h', [On_Command (Sent k (bytes_of prompt))])"
      "blocks h' = blocks h" "heap_ok h'" using new_client_prompted [OF h(1) _ c k, of ?L2] by auto
    have nc: "\<not> m_TCPCommandClientConnected L" "m_ActiveTCPCommandClientId L = 0"
      using none conn by (auto simp: command_slot_def split: if_splits)
    have "command_inv B (?L2, h')"
      using c s1(3,4) h h' cmds k nc by (intro command_inv_taken [where s = s1]) auto
    then show ?thesis using none nc s1(1) s(1) h'(1) k
      by (auto simp: command_accept_def OnClientConnected_def command_slot_def)
  next
    case (other a)
    have a: "m_TCPCommandClientConnected L" "m_ActiveTCPCommandClientId L = a" "a \<noteq> 0"
      using other conn by (auto simp: command_slot_def split: if_splits)
    let ?s2 = "s1\<lparr>m_Connections := map_erase a (m_Connections s1)\<rparr>"
    let ?K = "(OnClientDisconnected a ?L1)\<lparr>m_Server := Some ?s2\<rparr>"
    let ?K1 = "?K\<lparr>m_Cmds := map_erase (m_ActiveTCPCommandClientId ?K) (m_Cmds ?K)\<rparr>"
    let ?L2 = "?K1\<lparr>m_ActiveTCPCommandClientId := k, m_TCPCommandClientConnected := True\<rparr>"
    have c: "slot_conns (Some k) (m_Connections ?s2)"
      using slot_conns_replace [of a "m_Connections s" k ?client] s(4) other by (simp add: s1(2))
    obtain h' where h': "send_string k prompt ?L2 h = Inr (h', [On_Command (Sent k (bytes_of prompt))])"
      "blocks h' = blocks h" "heap_ok h'" using new_client_prompted [OF h(1) _ c k, of ?L2] by auto
    have K: "m_Cmds ?L2 = map_erase 0 (map_erase a (m_Cmds L))"
      using a(2) by (simp add: OnClientDisconnected_def)
    have ok: "map_ok (m_Cmds ?L2)" unfolding K by (intro smap.ok_erase cmds(1))
    have dom: "dom (map_of (m_Cmds ?L2)) \<subseteq> {0, k}"
      using cmds a unfolding K by (auto simp: smap.find_erase smap.ok_erase dom_def split: if_splits)
    have "command_inv B (?L2, h')"
    proof (rule command_inv_taken [OF h'(3) _ k _ _ _ c ok dom])
      show "blocks h' = B" using h'(2) h(2) by simp
    qed (use s1(3,4) in simp_all)
    moreover have "command_accept (Accepted k ip port) L h =
        Inr (?L2, h', command_said (Peer (Accepted k ip port)) (Some a))"
      using other(2) a s1(1,4) s(1) h'(1) kick_command_eq [of ?L1 s1 a]
      by (simp add: command_accept_def OnClientConnected_def Let_def)
    ultimately show ?thesis using other(1) by (auto simp: command_slot_def)
  qed
qed

interpretation command: client_slot "command_inv B" command_slot command_step command_said for B
proof
  fix s :: "('a, 'b) ServerLayer \<times> heap" and oper
  assume inv: "command_inv B s" and valid: "valid_op oper"
  obtain L h where s: "s = (L, h)" by (cases s)
  show "\<exists>s'. command_step oper s = Inr (s', command_said oper (command_slot s)) \<and> command_inv B s' \<and>
             command_slot s' = last_client oper (command_slot s)"
  proof (cases oper)
    case (Kick k)
    then show ?thesis using command_kick_step inv s by blast
  next
    case (Peer r)
    show ?thesis
    proof (cases r)
      case Accept_Failed
      obtain s0 where s0: "m_Server L = Some s0" using inv by (auto simp: s command_inv_def)
      have "command_step oper s = Inr (s, command_said oper (command_slot s))"
        by (simp add: s Peer Accept_Failed command_accept_def AcceptConnectionThread_step_def flip: s0)
          (simp add: s0)
      then show ?thesis using inv by (simp add: Peer Accept_Failed)
    next
      case (Accepted k ip port)
      have i: "command_inv B (L, h)" and k: "k \<noteq> 0" using inv valid by (simp_all add: s Peer Accepted)
      show ?thesis
        using command_accept_step [OF i k, of ip port] unfolding s Peer Accepted last_client.simps .
    qed
  qed
qed


text \<open>The same for the binary server, which prompts nobody.\<close>

definition binary_slot :: "('g, 'd) ServerLayer \<Rightarrow> u64 option" where
  "binary_slot L = (if m_TCPBinaryCleintConnected L then Some (m_ActiveTCPBinaryClientId L) else None)"

definition binary_inv :: "('g, 'd) ServerLayer \<Rightarrow> bool" where
  "binary_inv L \<longleftrightarrow>
     m_TCPBinaryCleintConnected L = (m_ActiveTCPBinaryClientId L \<noteq> 0) \<and>
     (\<exists>s. m_TCPBinaryServer L = Some s \<and> m_ClientConnectCallback s \<and> m_ClientDisconnectCallback s \<and>
          slot_conns (binary_slot L) (m_Connections s))"

fun binary_step :: "conn_op \<Rightarrow> ('g, 'd) ServerLayer \<Rightarrow> ub + ('g, 'd) ServerLayer \<times> layer_event list" where
  "binary_step (Peer r) L = binary_accept r L"
| "binary_step (Kick k) L = kick_binary k L"

fun binary_said :: "conn_op \<Rightarrow> u64 option \<Rightarrow> layer_event list" where
  "binary_said (Peer Accept_Failed) c = []"
| "binary_said (Peer (Accepted k ip port)) c =
     On_Binary (Client_Connected k) #
     (case c of None \<Rightarrow> []
      | Some a \<Rightarrow> if a = k then [] else [On_Binary (Client_Disconnected a), On_Binary (Closed a)])"
| "binary_said (Kick k) c = [On_Binary (Client_Disconnected k), On_Binary (Closed k)]"

lemma kick_binary_eq:
  assumes "m_TCPBinaryServer L = Some s" and "m_ClientDisconnectCallback s"
  shows "kick_binary k L =
     Inr ((OnTCPBinaryClientDisconnected k L)\<lparr>m_TCPBinaryServer :=
            Some (s\<lparr>m_Connections := map_erase k (m_Connections s)\<rparr>)\<rparr>,
          [On_Binary (Client_Disconnected k), On_Binary (Closed k)])"
  using assms by (simp add: kick_binary_def KickClient_def CloseSocket_def)

lemma binary_kick_step:
  assumes "binary_inv L"
  shows "\<exists>L'. kick_binary k L = Inr (L', binary_said (Kick k) (binary_slot L)) \<and> binary_inv L' \<and>
           binary_slot L' = last_client (Kick k) (binary_slot L)"
proof -
  obtain s where s: "m_TCPBinaryServer L = Some s" "m_ClientConnectCallback s" "m_ClientDisconnectCallback s"
    "slot_conns (binary_slot L) (m_Connections s)"
    using assms by (auto simp: binary_inv_def)
  let ?s1 = "s\<lparr>m_Connections := map_erase k (m_Connections s)\<rparr>"
  let ?L1 = "(OnTCPBinaryClientDisconnected k L)\<lparr>m_TCPBinaryServer := Some ?s1\<rparr>"
  have slot: "binary_slot ?L1 = last_client (Kick k) (binary_slot L)"
    using assms by (auto simp: binary_slot_def OnTCPBinaryClientDisconnected_def binary_inv_def)
  have "slot_conns (binary_slot ?L1) (m_Connections ?s1)"
    using slot_conns_erase [OF s(4), of k] unfolding slot by simp
  then have "binary_inv ?L1"
    using assms s(1-3) by (auto simp: binary_inv_def OnTCPBinaryClientDisconnected_def)
  then show ?thesis using kick_binary_eq [OF s(1,3)] slot by simp
qed

lemma binary_accept_step:
  assumes inv: "binary_inv L" and k: "k \<noteq> 0"
  shows "\<exists>L'. binary_accept (Accepted k ip port) L =
             Inr (L', binary_said (Peer (Accepted k ip port)) (binary_slot L)) \<and>
           binary_inv L' \<and> binary_slot L' = Some k"
proof -
  let ?client = "\<lparr>client_id = k, client_ip = ip, client_port = port\<rparr>"
  obtain s where s: "m_TCPBinaryServer L = Some s" "m_ClientConnectCallback s" "m_ClientDisconnectCallback s"
    "slot_conns (binary_slot L) (m_Connections s)"
    using inv by (auto simp: binary_inv_def)
  have conn: "m_TCPBinaryCleintConnected L = (m_ActiveTCPBinaryClientId L \<noteq> 0)"
    using inv by (auto simp: binary_inv_def)
  obtain s1 where s1: "AcceptConnectionThread_step (Accepted k ip port) s = (s1, [Client_Connected k])"
    "m_Connections s1 = map_put k ?client (m_Connections s)" "m_ClientConnectCallback s1"
    "m_ClientDisconnectCallback s1"
    using s by (simp add: accept_fields)
  let ?L1 = "L\<lparr>m_TCPBinaryServer := Some s1\<rparr>"
  consider (free) "binary_slot L = None \<or> binary_slot L = Some k"
    | (other) a where "binary_slot L = Some a" "a \<noteq> k" by (cases "binary_slot L") auto
  then show ?thesis
  proof cases
    case free
    have "slot_conns (Some k) (m_Connections s1)"
      using slot_conns_put [OF s(4) free] by (simp add: s1(2))
    then show ?thesis using free s1 s(1) conn k
      by (auto simp: binary_accept_def OnTCPBinaryClientConnected_def binary_slot_def binary_inv_def
          Let_def split: if_splits)
  next
    case (other a)
    have a: "m_TCPBinaryCleintConnected L" "m_ActiveTCPBinaryClientId L = a"
      using other by (auto simp: binary_slot_def split: if_splits)
    let ?s2 = "s1\<lparr>m_Connections := map_erase a (m_Connections s1)\<rparr>"
    let ?L2 = "(OnTCPBinaryClientDisconnected a ?L1)\<lparr>m_TCPBinaryServer := Some ?s2,
                 m_ActiveTCPBinaryClientId := k, m_TCPBinaryCleintConnected := True\<rparr>"
    have "slot_conns (Some k) (m_Connections ?s2)"
      using slot_conns_replace [of a "m_Connections s" k ?client] s(4) other by (simp add: s1(2))
    then have "binary_inv ?L2" using s1(3,4) k by (simp add: binary_inv_def binary_slot_def)
    moreover have "binary_accept (Accepted k ip port) L =
        Inr (?L2, binary_said (Peer (Accepted k ip port)) (Some a))"
      using other(2) a s1(1,4) s(1) kick_binary_eq [of ?L1 s1 a]
      by (simp add: binary_accept_def OnTCPBinaryClientConnected_def Let_def)
    ultimately show ?thesis using other(1) by (auto simp: binary_slot_def)
  qed
qed

interpretation binary: client_slot binary_inv binary_slot binary_step binary_said
proof
  fix L :: "('a, 'b) ServerLayer" and oper
  assume inv: "binary_inv L" and valid: "valid_op oper"
  show "\<exists>L'. binary_step oper L = Inr (L', binary_said oper (binary_slot L)) \<and> binary_inv L' \<and>
             binary_slot L' = last_client oper (binary_slot L)"
  proof (cases oper)
    case (Kick k)
    then show ?thesis using binary_kick_step [OF inv] by simp
  next
    case (Peer r)
    show ?thesis
    proof (cases r)
      case Accept_Failed
      obtain s0 where s0: "m_TCPBinaryServer L = Some s0" using inv by (auto simp: binary_inv_def)
      have "binary_step oper L = Inr (L, binary_said oper (binary_slot L))"
        by (simp add: Peer Accept_Failed binary_accept_def AcceptConnectionThread_step_def flip: s0) (simp add: s0)
      then show ?thesis using inv by (simp add: Peer Accept_Failed)
    next
      case (Accepted k ip port)
      then show ?thesis using binary_accept_step [OF inv, of k ip port] valid Peer by simp
    qed
  qed
qed

text \<open>
  Property C6: one client at a time, the last one wins. From a layer whose servers have at
  most their one client, any sequence of accepted connections (on nonzero sockets), failed
  ones and lost ones is handled without leaving defined behaviour. Afterwards the command
  server has exactly the client that holds the control, and the binary server exactly the one
  that gets the frames: in both cases the last one accepted, if it was not lost since. What is
  sent and closed is determined: each newcomer's predecessor is told off and closed, and on
  the command server each newcomer gets the prompt; no storage is left in use.
\<close>

theorem last_client_wins:
  assumes "command_inv (blocks h) (L, h)" and "binary_inv L" and "list_all valid_op ops"
  shows "\<exists>L1 h1 L2. slot_run command_step ops (L, h) =
             Inr ((L1, h1), says command_said ops (command_slot (L, h))) \<and>
           slot_run binary_step ops L = Inr (L2, says binary_said ops (binary_slot L)) \<and>
           blocks h1 = blocks h \<and>
           command_slot (L1, h1) = fold last_client ops (command_slot (L, h)) \<and>
           binary_slot L2 = fold last_client ops (binary_slot L) \<and>
           map_keys (m_Connections (the (m_Server L1))) = (case command_slot (L1, h1) of None \<Rightarrow> [] | Some k \<Rightarrow> [k]) \<and>
           map_keys (m_Connections (the (m_TCPBinaryServer L2))) = (case binary_slot L2 of None \<Rightarrow> [] | Some k \<Rightarrow> [k])"
proof -
  have keys: "slot_conns c m \<Longrightarrow> map_keys m = (case c of None \<Rightarrow> [] | Some k \<Rightarrow> [k])" for c m
    by (cases c) (auto simp: map_keys_def)
  obtain L1 h1 where c: "slot_run command_step ops (L, h) =
      Inr ((L1, h1), says command_said ops (command_slot (L, h)))" "command_inv (blocks h) (L1, h1)"
    "command_slot (L1, h1) = fold last_client ops (command_slot (L, h))"
    using command.run [OF assms(1,3)] by force
  obtain L2 where b: "slot_run binary_step ops L = Inr (L2, says binary_said ops (binary_slot L))"
    "binary_inv L2" "binary_slot L2 = fold last_client ops (binary_slot L)"
    using binary.run [OF assms(2,3)] by blast
  have "map_keys (m_Connections (the (m_Server L1))) = (case command_slot (L1, h1) of None \<Rightarrow> [] | Some k \<Rightarrow> [k])"
    "blocks h1 = blocks h"
    using c(2) keys by (auto simp: command_inv_def)
  moreover have "map_keys (m_Connections (the (m_TCPBinaryServer L2))) =
      (case binary_slot L2 of None \<Rightarrow> [] | Some k \<Rightarrow> [k])"
    using b(2) keys by (auto simp: binary_inv_def)
  ultimately show ?thesis using c b by blast
qed

definition fresh_layer :: "(nat, bool) ServerLayer" where
  "fresh_layer = (ServerLayer 4264 ''127.0.0.1'' 23 False)\<lparr>
     m_Server := Some (with_callbacks (Server sample_info)),
     m_TCPBinaryServer := Some (with_callbacks (Server sample_info))\<rparr>"

lemma fresh_layer_inv: "command_inv (blocks sample_heap) (fresh_layer, sample_heap)" "binary_inv fresh_layer"
  using sample_heap_ok(1)
  by (simp_all add: command_inv_def binary_inv_def command_slot_def binary_slot_def fresh_layer_def
      ServerLayer_def Server_def map_ok_def)

theorem last_client_wins_witness:
  "\<exists>L1 h1. slot_run command_step [Peer (Accepted 7 ''10.0.0.9'' 80), Peer (Accepted 8 ''10.0.0.4'' 80), Kick 7]
       (fresh_layer, sample_heap) =
     Inr ((L1, h1), [On_Command (Client_Connected 7), On_Command (Sent 7 (bytes_of prompt)),
       On_Command (Client_Connected 8), On_Command (Client_Disconnected 7), On_Command (Closed 7),
       On_Command (Sent 8 (bytes_of prompt)), On_Command (Client_Disconnected 7), On_Command (Closed 7)]) \<and>
     command_slot (L1, h1) = Some 8"
proof -
  have "command_slot (fresh_layer, sample_heap) = None"
    by (simp add: command_slot_def fresh_layer_def ServerLayer_def)
  then show ?thesis
    using last_client_wins [OF fresh_layer_inv, of "[Peer (Accepted 7 ''10.0.0.9'' 80),
        Peer (Accepted 8 ''10.0.0.4'' 80), Kick 7]"] by auto
qed


subsection \<open>Commands typed key by key\<close>

text \<open>What is in the line when keys were typed after \<open>s\<close>; backspace takes the last one away.\<close>

fun edit :: "string \<Rightarrow> string \<Rightarrow> string" where
  "edit [] s = s"
| "edit (c # cs) s = edit cs (if c = BS then butlast s else s @ [c])"

fun type_keys :: "mps_protocol \<Rightarrow> ('g, 'd) random_lib \<Rightarrow> int \<Rightarrow> int \<Rightarrow> u64 \<Rightarrow> string \<Rightarrow> bool
    \<Rightarrow> ('g, 'd) ServerLayer \<Rightarrow> heap \<Rightarrow> ub + bool \<times> ('g, 'd) ServerLayer \<times> heap \<times> layer_event list" where
  "type_keys P R t1 t2 cid [] e L h = Inr (e, L, h, [])"
| "type_keys P R t1 t2 cid (c # cs) e L h =
     bind_ub (OnCommand P R t1 t2 cid [c] e L h) (\<lambda>(e1, L1, h1, ev1).
     bind_ub (type_keys P R t1 t2 cid cs e1 L1 h1) (\<lambda>(e2, L2, h2, ev2). Inr (e2, L2, h2, ev1 @ ev2)))"

definition unfinished :: "u64 \<Rightarrow> ('g, 'd) ServerLayer \<Rightarrow> string" where
  "unfinished cid L = (case map_of (m_Cmds L) cid of None \<Rightarrow> [] | Some str \<Rightarrow> str)"

definition has_control :: "u64 \<Rightarrow> ('g, 'd) ServerLayer \<Rightarrow> bool" where
  "has_control cid L \<longleftrightarrow> cid = m_ActiveTCPCommandClientId L \<or> cid = 0"

lemma bind_ub_Inr_right [simp]: "bind_ub r Inr = r"
  by (cases r) auto

lemma OnCommand_key:
  assumes "has_control cid L" and "c \<notin> {CR, ESC}"
  shows "OnCommand P R t1 t2 cid [c] e L h =
           Inr (e, L\<lparr>m_Cmds := map_put cid (edit [c] (unfinished cid L)) (m_Cmds L)\<rparr>, h, [])"
  using assms by (auto simp: OnCommand_def has_control_def build_command_def unfinished_def Let_def)

lemma OnCommand_complete:
  assumes "has_control cid L" and "build_command (unfinished cid L) cmd = (line, True)"
  shows "OnCommand P R t1 t2 cid cmd e L h =
           execute_command P R t1 t2 cid (SplitString line crlf ! 0) e
             (L\<lparr>m_Cmds := map_put cid [] (m_Cmds L)\<rparr>) h"
  using assms by (auto simp: OnCommand_def has_control_def unfinished_def Let_def)

lemma type_keys_partial:
  assumes "map_ok (m_Cmds L)" and "has_control cid L" and "CR \<notin> set keys" and "ESC \<notin> set keys"
  shows "\<exists>L'. (\<forall>last. type_keys P R t1 t2 cid (keys @ [last]) e L h = OnCommand P R t1 t2 cid [last] e L' h) \<and>
           has_control cid L' \<and> unfinished cid L' = edit keys (unfinished cid L) \<and>
           L'\<lparr>m_Cmds := map_put cid [] (m_Cmds L')\<rparr> = L\<lparr>m_Cmds := map_put cid [] (m_Cmds L)\<rparr>"
  using assms
proof (induction keys arbitrary: L)
  case Nil
  then show ?case by (intro exI [of _ L]) simp
next
  case (Cons c cs)
  let ?L1 = "L\<lparr>m_Cmds := map_put cid (edit [c] (unfinished cid L)) (m_Cmds L)\<rparr>"
  have k: "OnCommand P R t1 t2 cid [c] e L h = Inr (e, ?L1, h, [])"
    using OnCommand_key [OF Cons.prems(2)] Cons.prems(3,4) by auto
  have u: "unfinished cid ?L1 = edit [c] (unfinished cid L)"
    using smap.find_put [OF Cons.prems(1)] by (simp add: unfinished_def)
  obtain L' where L': "\<forall>last. type_keys P R t1 t2 cid (cs @ [last]) e ?L1 h = OnCommand P R t1 t2 cid [last] e L' h"
    "has_control cid L'" "unfinished cid L' = edit cs (unfinished cid ?L1)"
    "L'\<lparr>m_Cmds := map_put cid [] (m_Cmds L')\<rparr> = ?L1\<lparr>m_Cmds := map_put cid [] (m_Cmds ?L1)\<rparr>"
    using Cons.IH [of ?L1] Cons.prems smap.ok_put [OF Cons.prems(1)] by (auto simp: has_control_def)
  have "?L1\<lparr>m_Cmds := map_put cid [] (m_Cmds ?L1)\<rparr> = L\<lparr>m_Cmds := map_put cid [] (m_Cmds L)\<rparr>"
    using smap.put_put [OF Cons.prems(1)] by simp
  then show ?case
    using L' k u by (intro exI [of _ L']) (simp del: OnCommand_key)
qed

text \<open>
  Property C14: typing a command is sending it. However the controlling client types a command
  key by key, with backspaces, return runs exactly the command that stands in the line, as if
  it had been sent at once; nothing happens before. Escape drops what was typed and stops the
  scan at once. (A line of one character cannot be sent at once: it is a key.)
\<close>

theorem typed_command_is_sent_command:
  assumes "map_ok (m_Cmds L)" and "has_control cid L" and "CR \<notin> set keys" and "ESC \<notin> set keys"
  shows "type_keys P R t1 t2 cid (keys @ [CR]) e L h =
           execute_command P R t1 t2 cid (SplitString (edit keys (unfinished cid L)) crlf ! 0) e
             (L\<lparr>m_Cmds := map_put cid [] (m_Cmds L)\<rparr>) h \<and>
         (length (edit keys (unfinished cid L)) \<noteq> 1 \<longrightarrow>
           type_keys P R t1 t2 cid (keys @ [CR]) e L h =
             OnCommand P R t1 t2 cid (edit keys (unfinished cid L)) e L h) \<and>
         type_keys P R t1 t2 cid (keys @ [ESC]) e L h = OnCommand P R t1 t2 cid [ESC] e L h"
proof -
  let ?line = "edit keys (unfinished cid L)"
  obtain L' where L': "\<forall>last. type_keys P R t1 t2 cid (keys @ [last]) e L h = OnCommand P R t1 t2 cid [last] e L' h"
    "has_control cid L'" "unfinished cid L' = ?line"
    "L'\<lparr>m_Cmds := map_put cid [] (m_Cmds L')\<rparr> = L\<lparr>m_Cmds := map_put cid [] (m_Cmds L)\<rparr>"
    using type_keys_partial [OF assms] by blast
  have keys: "build_command s [CR] = (s, True)" "build_command s [ESC] = ([ESC], True)" for s
    by (simp_all add: build_command_def char_defs)
  have "type_keys P R t1 t2 cid (keys @ [CR]) e L h =
      execute_command P R t1 t2 cid (SplitString ?line crlf ! 0) e (L\<lparr>m_Cmds := map_put cid [] (m_Cmds L)\<rparr>) h"
    using L'(1) OnCommand_complete [OF L'(2) keys(1)] L'(3,4) by simp
  moreover have "type_keys P R t1 t2 cid (keys @ [ESC]) e L h = OnCommand P R t1 t2 cid [ESC] e L h"
    using L'(1) OnCommand_complete [OF L'(2) keys(2)] OnCommand_complete [OF assms(2) keys(2)] L'(4) by simp
  moreover have "OnCommand P R t1 t2 cid ?line e L h =
      execute_command P R t1 t2 cid (SplitString ?line crlf ! 0) e (L\<lparr>m_Cmds := map_put cid [] (m_Cmds L)\<rparr>) h"
    if "length ?line \<noteq> 1"
    by (rule OnCommand_complete [OF assms(2)]) (use that in \<open>simp add: build_command_def\<close>)
  ultimately show ?thesis by metis
qed

theorem typed_command_is_sent_command_witness:
  "type_keys sample_protocol sample_random 0 0 9 (''SX'' @ [BS] @ ''TOP'' @ [CR]) False sample_layer sample_heap =
     OnCommand sample_protocol sample_random 0 0 9 ''STOP'' False sample_layer sample_heap"
proof -
  have e: "edit (''SX'' @ [BS] @ ''TOP'') (unfinished 9 sample_layer) = ''STOP''"
    by (simp add: unfinished_def char_defs)
  have k: "has_control 9 sample_layer" "map_ok (m_Cmds sample_layer)"
    "CR \<notin> set (''SX'' @ [BS] @ ''TOP'')" "ESC \<notin> set (''SX'' @ [BS] @ ''TOP'')"
    by (simp_all add: has_control_def map_ok_def char_defs)
  note typed = typed_command_is_sent_command [OF k(2,1,3,4), THEN conjunct2, THEN conjunct1, unfolded e]
  show ?thesis using mp [OF typed] by (simp only: append_assoc) simp
qed

end
