(* ===== verification/MpsScan.thy ===== *)
theory MpsScan
  imports MpsDevice
begin

section \<open>Mps::ScanThreadFn: the frames of a scan\<close>

text \<open>
  The body of the inner loop of \<open>mps::Mps::ScanThreadFn\<close>, one frame, as \<open>scan_frame\<close>, in
  the steps of the code: the frame's times, the samples of its subframes, the averages, the
  LabVIEW frame, the binary packet, and the end-of-scan test. The arrays have the lengths of
  the code's and every access is checked against them. \<open>scan_run\<close> repeats the frame while
  the device scans; what other threads do meanwhile is in \<open>ScanThread\<close>.
\<close>

subsection \<open>Samples\<close>

definition clamp :: "'x::ord \<Rightarrow> 'x \<Rightarrow> 'x \<Rightarrow> 'x" where
  "clamp v lo hi = (if v < lo then lo else if hi < v then hi else v)"

definition trunc :: "rat \<Rightarrow> int" where
  "trunc q = (if q < 0 then - \<lfloor>- q\<rfloor> else \<lfloor>q\<rfloor>)"

definition RandomSampleCounts :: "mps_protocol \<Rightarrow> ('g, 'd) random_lib \<Rightarrow> 'd \<Rightarrow> 'g
    \<Rightarrow> int \<times> 'd \<times> 'g" where
  "RandomSampleCounts P R d g =
     (let (value, d1, g1) = normal_draw R d g
      in (trunc (clamp value (of_int (MPS_MIN_SIGNED_ADC_COUNTS P)) (of_int (MPS_MAX_SIGNED_ADC_COUNTS P))),
          d1, g1))"

text \<open>One subframe: a sample for each physical channel, added to the accumulators.\<close>

fun add_samples :: "mps_protocol \<Rightarrow> ('g, 'd) random_lib \<Rightarrow> int list \<Rightarrow> 'd \<Rightarrow> 'g
    \<Rightarrow> int list \<times> 'd \<times> 'g" where
  "add_samples P R [] d g = ([], d, g)"
| "add_samples P R (a # rest) d g =
     (let (x, d1, g1) = RandomSampleCounts P R d g; (xs, d2, g2) = add_samples P R rest d1 g1
      in ((a + x) # xs, d2, g2))"

fun add_subframes :: "mps_protocol \<Rightarrow> ('g, 'd) random_lib \<Rightarrow> nat \<Rightarrow> int list \<Rightarrow> 'd \<Rightarrow> 'g
    \<Rightarrow> int list \<times> 'd \<times> 'g" where
  "add_subframes P R 0 acc d g = (acc, d, g)"
| "add_subframes P R (Suc k) acc d g =
     (let (acc1, d1, g1) = add_samples P R acc d g in add_subframes P R k acc1 d1 g1)"

subsection \<open>Times\<close>

definition ns_per_s :: ieee where "ns_per_s = Num False (10 ^ 9)"

text \<open>\<open>(int)(1e9 / m_cfg.scan_rate_hz)\<close>: float operand, double division, cast to \<open>int\<close>.\<close>

definition frame_period :: "ieee \<Rightarrow> ub + int" where
  "frame_period rate = cast_i32 (fdiv binary64 ns_per_s (to_fformat binary64 rate))"

text \<open>\<open>(int)(1e9 / (m_cfg.scan_rate_hz * m_nSubFrameAverages))\<close>, with a float product.\<close>

definition subframe_period :: "ieee \<Rightarrow> u32 \<Rightarrow> ub + int" where
  "subframe_period rate n =
     frame_period (fmul binary32 rate (of_int_fl binary32 (uint n)))"

text \<open>\<open>duration_cast<seconds>\<close> of a difference of times, and the rest in nanoseconds.\<close>

definition split_ns :: "int \<Rightarrow> int \<times> int" where
  "split_ns dt = (let s = sgn dt * (\<bar>dt\<bar> div 10 ^ 9) in (s, dt - s * 10 ^ 9))"

subsection \<open>Averages\<close>

definition average_counts :: "mps_protocol \<Rightarrow> u32 \<Rightarrow> int list \<Rightarrow> ub + int list" where
  "average_counts P n acc =
     (if n = 0 \<and> acc \<noteq> [] then Inl Division_By_Zero
      else Inr (map (\<lambda>a. clamp (the (trunc_div a (uint n)))
                       (MPS_MIN_SIGNED_ADC_COUNTS P) (MPS_MAX_SIGNED_ADC_COUNTS P)) acc))"

definition counts_to_float :: "mps_protocol \<Rightarrow> int \<Rightarrow> ieee" where
  "counts_to_float P c =
     fdiv binary32 (of_int_fl binary32 c) (of_int_fl binary32 (MPS_MAX_SIGNED_ADC_COUNTS P))"

definition to_pressure :: "mps_protocol \<Rightarrow> int \<Rightarrow> int \<Rightarrow> ieee" where
  "to_pressure P u c = fmul binary32 (counts_to_float P c) (mps_units_conversion_factor P u)"

definition to_temperature :: "mps_protocol \<Rightarrow> int \<Rightarrow> ieee" where
  "to_temperature P c = fadd binary32 (Num False 32) (counts_to_float P c)"

text \<open>The arrays \<open>counts\<close>, \<open>p\<close> and \<open>t\<close>: zero beyond the physical channels.\<close>

record frame_data =
  fd_counts :: "int list"
  fd_p :: "ieee list"
  fd_t :: "ieee list"

definition pad_to :: "nat \<Rightarrow> 'x \<Rightarrow> 'x list \<Rightarrow> 'x list" where
  "pad_to n z xs = xs @ replicate (n - length xs) z"

text \<open>
  What the frame makes of the accumulators of the physical channels, and the whole acquisition.
\<close>

definition resolve :: "mps_protocol \<Rightarrow> ('g, 'd) mps \<Rightarrow> int list \<Rightarrow> ub + frame_data" where
  "resolve P m acc =
     bind_ub (average_counts P (m_nSubFrameAverages m) acc)
       (\<lambda>avg. let counts = pad_to (MPS_MAX_PRESSURE_CH_COUNT P) 0 avg in Inr
          \<lparr>fd_counts = counts,
           fd_p = pad_to (MPS_MAX_PRESSURE_CH_COUNT P) (Num False 0)
                    (map (to_pressure P (units (m_cfg m))) avg),
           fd_t = pad_to (MPS_MAX_TEMPERATURE_CH_COUNT P) (Num False 0)
                    (map (to_temperature P) (take (m_PhysicalTemperatureChannelCount m) counts))\<rparr>)"

definition beyond_arrays :: "mps_protocol \<Rightarrow> ('g, 'd) mps \<Rightarrow> bool" where
  "beyond_arrays P m \<longleftrightarrow>
     MPS_MAX_PRESSURE_CH_COUNT P < m_PhysicalPressureChannelCount m \<or>
     MPS_MAX_TEMPERATURE_CH_COUNT P < m_PhysicalTemperatureChannelCount m \<or>
     MPS_MAX_PRESSURE_CH_COUNT P < m_PhysicalTemperatureChannelCount m"

definition acquire :: "mps_protocol \<Rightarrow> ('g, 'd) random_lib \<Rightarrow> ('g, 'd) mps
    \<Rightarrow> ub + frame_data \<times> ('g, 'd) mps" where
  "acquire P R m =
     (if beyond_arrays P m then Inl Out_Of_Bounds
      else
        let (acc, d, g) = add_subframes P R (unat (m_nSubFrameAverages m))
              (replicate (m_PhysicalPressureChannelCount m) 0) (m_NormalDistribution m) (m_RandomGenerator m)
        in bind_ub (resolve P m acc)
             (\<lambda>fd. Inr (fd, m\<lparr>m_NormalDistribution := d, m_RandomGenerator := g\<rparr>)))"

subsection \<open>The LabVIEW frame\<close>

definition labview_size :: "mps_protocol \<Rightarrow> nat \<Rightarrow> nat" where
  "labview_size P n =
     (if n = 64 then MPS_PKT_64_LABVIEW_SIZE P
      else if n = 32 then MPS_PKT_32_LABVIEW_SIZE P
      else if n = 16 then MPS_PKT_16_LABVIEW_SIZE P else 0)"

definition labview_values :: "('g, 'd) mps \<Rightarrow> frame_data \<Rightarrow> u32 \<Rightarrow> ieee list" where
  "labview_values m fd frame =
     (let nt = m_PhysicalTemperatureChannelCount m;
          total = foldl (fadd binary32) (Num False 0) (take nt (fd_t fd))
      in of_int_fl binary32 (uint frame)
         # fdiv binary32 total (of_int_fl binary32 (int nt))
         # take (m_PacketPressureChannelCount m) (fd_p fd))"

definition labview_frame :: "mps_protocol \<Rightarrow> ('g, 'd) mps \<Rightarrow> frame_data \<Rightarrow> u32
    \<Rightarrow> ub + device_event list" where
  "labview_frame P m fd frame =
     (let n = m_PacketPressureChannelCount m; size = labview_size P n
      in if \<not> m_UseLabview m then Inr []
         else if MPS_MAX_LABVIEW_ELEMENTS P < n + 2 \<or> length (fd_p fd) < n \<or>
                 4 * MPS_MAX_LABVIEW_ELEMENTS P < size
         then Inl Out_Of_Bounds
         else if 0 < size \<and> m_OnLabviewFrame m
         then Inr [Labview_Ready
                (take size (concat (map (le_bytes32 \<circ> f32_bits)
                   (pad_to (MPS_MAX_LABVIEW_ELEMENTS P) (Num False 0) (labview_values m fd frame)))))]
         else Inr [])"

subsection \<open>The binary packet\<close>

definition raw_types :: "mps_protocol \<Rightarrow> int list" where
  "raw_types P = [MPS_PKT_16_RAW_TYPE P, MPS_PKT_32_RAW_TYPE P, MPS_PKT_64_RAW_TYPE P]"

definition eu_types :: "mps_protocol \<Rightarrow> int list" where
  "eu_types P = [MPS_PKT_16_TYPE P, MPS_PKT_32_TYPE P, MPS_PKT_64_TYPE P]"

text \<open>
  The header of the legacy packet; the PTP times are indeterminate before the first scan
  start.
\<close>

definition legacy_fields :: "mps_protocol \<Rightarrow> ('g, 'd) mps \<Rightarrow> ub + legacy_header" where
  "legacy_fields P m =
     (case (m_ScanStartTimePTPSeconds m, m_ScanStartTimePTPNanoseconds m) of
        (Some s, Some ns) \<Rightarrow> Inr \<lparr>
          lh_size = int (mps_packet_sizeof P (MPS_PKT_LEGACY_TYPE P)),
          lh_serial_number = serial_number (m_cfg m),
          lh_framerate = scan_rate_hz (m_cfg m),
          lh_valve_status = GetValveStatus m,
          lh_unit_index = word_of_int (units (m_cfg m)),
          lh_unit_conversion = mps_units_conversion_factor P (units (m_cfg m)),
          lh_ptp_scan_start_time_s = s, lh_ptp_scan_start_time_ns = ns,
          lh_external_trigger_time_us = 0, lh_external_trigger_time_s = 0,
          lh_external_trigger_time_ns = 0\<rparr>
      | _ \<Rightarrow> Inl Indeterminate_Read)"

definition packet_fields :: "mps_protocol \<Rightarrow> ('g, 'd) mps \<Rightarrow> frame_data \<Rightarrow> u32 \<Rightarrow> int
    \<Rightarrow> bool \<Rightarrow> legacy_header option \<Rightarrow> packet" where
  "packet_fields P m fd frame dt raw header = \<lparr>
     pkt_type = m_PacketType m,
     pkt_payload = (if raw then Counts (take (m_PacketPressureChannelCount m) (fd_counts fd))
                    else Pressures (take (m_PacketPressureChannelCount m) (fd_p fd))),
     pkt_temperature = take (m_PacketTemperatureChannelCount m) (fd_t fd),
     pkt_frame = frame,
     pkt_frame_time_s = word_of_int (fst (split_ns dt)),
     pkt_frame_time_ns = word_of_int (snd (split_ns dt)),
     pkt_header = header\<rparr>"

text \<open>
  The \<open>switch\<close> over the packet type: the packet, or none for \<open>MPS_PKT_UNDEFINED\<close> (and for
  a value that is no enumerator).
\<close>

definition build_packet :: "mps_protocol \<Rightarrow> ('g, 'd) mps \<Rightarrow> frame_data \<Rightarrow> u32 \<Rightarrow> int
    \<Rightarrow> ub + packet option" where
  "build_packet P m fd frame dt =
     (let ty = m_PacketType m
      in if ty = MPS_PKT_LEGACY_TYPE P
         then bind_ub (legacy_fields P m)
                (\<lambda>h. Inr (Some (packet_fields P m fd frame dt (m_UseRaw m) (Some h))))
         else if ty \<in> set (eu_types P) then Inr (Some (packet_fields P m fd frame dt False None))
         else if ty \<in> set (raw_types P) then Inr (Some (packet_fields P m fd frame dt True None))
         else Inr None)"

definition packet_size :: "mps_protocol \<Rightarrow> ('g, 'd) mps \<Rightarrow> nat" where
  "packet_size P m =
     (case m_PacketInfo m of Some n \<Rightarrow> n | None \<Rightarrow> mps_packet_sizeof P (m_PacketType m))"

definition binary_frame :: "mps_protocol \<Rightarrow> ('g, 'd) mps \<Rightarrow> frame_data \<Rightarrow> u32 \<Rightarrow> int
    \<Rightarrow> ub + device_event list" where
  "binary_frame P m fd frame dt =
     (if \<not> m_UseBinary m then Inr []
      else bind_ub (build_packet P m fd frame dt) (\<lambda>pkt. case pkt of
          None \<Rightarrow> Inr []
        | Some p \<Rightarrow>
            let np = m_PacketPressureChannelCount m; nt = m_PacketTemperatureChannelCount m;
                size = packet_size P m
            in if mps_packet_pressures P (m_PacketType m) < np \<or>
                  mps_packet_temperatures P (m_PacketType m) < nt \<or>
                  length (fd_p fd) < np \<or> length (fd_t fd) < nt \<or>
                  MPS_MAX_BINARY_PACKET_SIZE P < mps_packet_sizeof P (m_PacketType m) \<or>
                  MPS_MAX_BINARY_PACKET_SIZE P < size
               then Inl Out_Of_Bounds
               else if length (mps_packet_layout P p) < size then Inl Indeterminate_Read
               else if 0 < size \<and> m_OnFrame m
               then Inr [Frame_Ready (take size (mps_packet_layout P p))]
               else Inr []))"

subsection \<open>One frame\<close>

text \<open>
  The result: the device, the callbacks, and the next frame's start time and number. The
  subframe period is only computed when there is a subframe.
\<close>

definition scan_frame :: "mps_protocol \<Rightarrow> ('g, 'd) random_lib \<Rightarrow> int \<Rightarrow> u32 \<Rightarrow> ('g, 'd) mps
    \<Rightarrow> ub + ('g, 'd) mps \<times> device_event list \<times> int \<times> u32" where
  "scan_frame P R frame_start frame m =
     bind_ub (frame_period (scan_rate_hz (m_cfg m))) (\<lambda>period.
     bind_ub (if m_nSubFrameAverages m = 0 then Inr 0
              else subframe_period (scan_rate_hz (m_cfg m)) (m_nSubFrameAverages m)) (\<lambda>_.
     bind_ub (acquire P R m) (\<lambda>(fd, m1).
     bind_ub (labview_frame P m1 fd frame) (\<lambda>ev1.
     bind_ub (binary_frame P m1 fd frame (frame_start - m_ScanStartTime m)) (\<lambda>ev2.
       let fps = frames_per_scan (m_cfg m1);
           (m2, ev3) = (if fps \<noteq> 0 \<and> fps = frame then StopScan P m1 else (m1, []))
       in Inr (m2, ev1 @ ev2 @ ev3, frame_start + period, frame + 1))))))"

text \<open>
  The inner loop for at most \<open>k\<close> frames, while no other thread acts on the device. The
  result says whether the loop ended by itself (\<open>True\<close>) or the bound was reached.
\<close>

fun scan_run :: "mps_protocol \<Rightarrow> ('g, 'd) random_lib \<Rightarrow> nat \<Rightarrow> int \<Rightarrow> u32 \<Rightarrow> ('g, 'd) mps
    \<Rightarrow> ub + ('g, 'd) mps \<times> device_event list \<times> bool" where
  "scan_run P R k start frame m =
     (if \<not> m_Scanning m then Inr (m, [], True)
      else case k of
          0 \<Rightarrow> Inr (m, [], False)
        | Suc j \<Rightarrow>
            bind_ub (scan_frame P R start frame m) (\<lambda>(m1, ev, start1, frame1).
            bind_ub (scan_run P R j start1 frame1 m1) (\<lambda>(m2, ev2, fin).
              Inr (m2, ev @ ev2, fin))))"

declare scan_run.simps [simp del]

subsection \<open>Samples and averages stay in the converter's range\<close>

lemma clamp_range:
  fixes lo :: "'x::linorder"
  shows "lo \<le> hi \<Longrightarrow> lo \<le> clamp v lo hi \<and> clamp v lo hi \<le> hi"
  by (auto simp: clamp_def)

lemma clamp_id:
  fixes lo :: "'x::linorder"
  shows "lo \<le> v \<Longrightarrow> v \<le> hi \<Longrightarrow> clamp v lo hi = v"
  by (auto simp: clamp_def)

lemma trunc_range: "of_int lo \<le> q \<Longrightarrow> q \<le> of_int hi \<Longrightarrow> lo \<le> 0 \<Longrightarrow> 0 \<le> hi \<Longrightarrow> lo \<le> trunc q \<and> trunc q \<le> hi"
  unfolding trunc_def by (cases "q < 0") (auto; linarith)+

abbreviation in_adc :: "mps_protocol \<Rightarrow> int \<Rightarrow> bool" where
  "in_adc P x \<equiv> MPS_MIN_SIGNED_ADC_COUNTS P \<le> x \<and> x \<le> MPS_MAX_SIGNED_ADC_COUNTS P"

lemma RandomSampleCounts_range:
  assumes "adc_ok P" and "RandomSampleCounts P R d g = (x, d', g')"
  shows "in_adc P x"
proof -
  have x: "x = trunc (clamp (fst (normal_draw R d g)) (of_int (MPS_MIN_SIGNED_ADC_COUNTS P))
      (of_int (MPS_MAX_SIGNED_ADC_COUNTS P)))"
    using assms(2) by (auto simp: RandomSampleCounts_def split: prod.splits)
  have "(of_int (MPS_MIN_SIGNED_ADC_COUNTS P) :: rat) \<le> of_int (MPS_MAX_SIGNED_ADC_COUNTS P)"
    using assms(1) unfolding of_int_le_iff adc_ok_def by linarith
  note c = clamp_range [OF this]
  show ?thesis
    unfolding x by (rule trunc_range) (use c assms(1) in \<open>auto simp: adc_ok_def\<close>)
qed

lemma add_samples_range:
  assumes "adc_ok P" and "add_samples P R acc d g = (acc', d', g')"
  shows "list_all2 (\<lambda>a b. in_adc P (b - a)) acc acc'"
  using assms(2)
proof (induction acc arbitrary: acc' d g)
  case (Cons a rest)
  then show ?case
    using RandomSampleCounts_range [OF assms(1)] by (fastforce simp: Let_def split: prod.splits)
qed simp

lemma add_samples_length:
  "add_samples P R acc d g = (xs, e, h) \<Longrightarrow> length xs = length acc"
  by (induction acc arbitrary: xs d g) (auto simp: Let_def split: prod.splits)

lemma add_subframes_range:
  assumes "adc_ok P" and "add_subframes P R k acc d g = (acc', d', g')"
  shows "list_all2 (\<lambda>a b. int k * MPS_MIN_SIGNED_ADC_COUNTS P \<le> b - a \<and>
                         b - a \<le> int k * MPS_MAX_SIGNED_ADC_COUNTS P) acc acc'"
  using assms(2)
proof (induction k arbitrary: acc d g)
  case (Suc k)
  then obtain acc1 d1 g1 where s: "add_samples P R acc d g = (acc1, d1, g1)"
    and r: "add_subframes P R k acc1 d1 g1 = (acc', d', g')"
    by (auto split: prod.splits)
  have step: "int (Suc k) * MPS_MIN_SIGNED_ADC_COUNTS P \<le> c - a \<and>
      c - a \<le> int (Suc k) * MPS_MAX_SIGNED_ADC_COUNTS P"
    if "in_adc P (b - a)" and "int k * MPS_MIN_SIGNED_ADC_COUNTS P \<le> c - b \<and>
      c - b \<le> int k * MPS_MAX_SIGNED_ADC_COUNTS P" for a b c
  proof -
    have e: "int (Suc k) * z = z + int k * z" for z by (simp add: algebra_simps)
    show ?thesis using that unfolding e by auto
  qed
  have len: "length acc = length acc1" "length acc1 = length acc'"
    and s1: "\<forall>i < length acc. in_adc P (acc1 ! i - acc ! i)"
    and s2: "\<forall>i < length acc1. int k * MPS_MIN_SIGNED_ADC_COUNTS P \<le> acc' ! i - acc1 ! i \<and>
          acc' ! i - acc1 ! i \<le> int k * MPS_MAX_SIGNED_ADC_COUNTS P"
    using add_samples_range [OF assms(1) s] Suc.IH [OF r]
    unfolding list_all2_conv_all_nth by presburger+
  have "int (Suc k) * MPS_MIN_SIGNED_ADC_COUNTS P \<le> acc' ! i - acc ! i \<and>
      acc' ! i - acc ! i \<le> int (Suc k) * MPS_MAX_SIGNED_ADC_COUNTS P" if "i < length acc" for i
  proof -
    have i: "i < length acc1" using that len(1) by (simp only:)
    show ?thesis by (rule step [OF s1 [rule_format, OF that] s2 [rule_format, OF i]])
  qed
  moreover have "length acc = length acc'" using len by (rule trans)
  ultimately show ?case unfolding list_all2_conv_all_nth by blast
qed (simp add: list_all2_refl)

lemma add_subframes_length:
  assumes "adc_ok P" and "add_subframes P R k acc d g = (acc', d', g')"
  shows "length acc' = length acc"
  using list_all2_lengthD [OF add_subframes_range [OF assms]] by (rule sym)

lemma add_subframes_zero:
  assumes "adc_ok P" and "add_subframes P R k (replicate nc 0) d g = (acc, d', g')"
    and "a \<in> set acc"
  shows "int k * MPS_MIN_SIGNED_ADC_COUNTS P \<le> a \<and> a \<le> int k * MPS_MAX_SIGNED_ADC_COUNTS P"
proof -
  from assms(3) obtain i where i: "i < length acc" "a = acc ! i" by (auto simp: in_set_conv_nth)
  have "length acc = nc" using add_subframes_length [OF assms(1,2)] by simp
  then show ?thesis
    using add_subframes_range [OF assms(1,2)] i by (auto simp: list_all2_conv_all_nth)
qed

text \<open>So an average is in range before the code clamps it.\<close>

lemma average_in_range:
  assumes "adc_ok P" and "0 < n" and "n * MPS_MIN_SIGNED_ADC_COUNTS P \<le> a"
    and "a \<le> n * MPS_MAX_SIGNED_ADC_COUNTS P"
  shows "in_adc P (the (trunc_div a n))"
proof -
  obtain q where q: "trunc_div a n = Some q" using assms(2) by (simp add: trunc_div_def)
  with trunc_div_bounds [OF q assms(2), of "MPS_MIN_SIGNED_ADC_COUNTS P" "MPS_MAX_SIGNED_ADC_COUNTS P"]
    assms show ?thesis by (auto simp: adc_ok_def mult.commute)
qed

lemma average_counts_eq:
  assumes "adc_ok P" and "n \<noteq> 0"
    and "\<forall>a \<in> set acc. uint n * MPS_MIN_SIGNED_ADC_COUNTS P \<le> a \<and>
           a \<le> uint n * MPS_MAX_SIGNED_ADC_COUNTS P"
  shows "average_counts P n acc = Inr (map (\<lambda>a. the (trunc_div a (uint n))) acc)"
proof -
  have "0 < uint n" using assms(2) by (simp add: word_neq_0_conv word_less_def)
  then have "in_adc P (the (trunc_div a (uint n)))" if "a \<in> set acc" for a
    using average_in_range [OF assms(1)] assms(3) that by blast
  then show ?thesis using assms(2) by (auto simp: average_counts_def clamp_id)
qed

subsection \<open>One acquisition\<close>

text \<open>The accumulators after all subframes, the drawn state thrown away.\<close>

definition accumulated :: "mps_protocol \<Rightarrow> ('g, 'd) random_lib \<Rightarrow> ('g, 'd) mps \<Rightarrow> int list" where
  "accumulated P R m =
     fst (add_subframes P R (unat (m_nSubFrameAverages m))
            (replicate (m_PhysicalPressureChannelCount m) 0)
            (m_NormalDistribution m) (m_RandomGenerator m))"

lemma accumulated_bounds:
  assumes "adc_ok P"
  shows "length (accumulated P R m) = m_PhysicalPressureChannelCount m"
    and "\<forall>a \<in> set (accumulated P R m).
           uint (m_nSubFrameAverages m) * MPS_MIN_SIGNED_ADC_COUNTS P \<le> a \<and>
           a \<le> uint (m_nSubFrameAverages m) * MPS_MAX_SIGNED_ADC_COUNTS P"
proof -
  obtain acc d g where e: "add_subframes P R (unat (m_nSubFrameAverages m))
      (replicate (m_PhysicalPressureChannelCount m) 0) (m_NormalDistribution m)
      (m_RandomGenerator m) = (acc, d, g)" by (metis prod_cases3)
  then have acc: "accumulated P R m = acc" by (simp add: accumulated_def)
  show "length (accumulated P R m) = m_PhysicalPressureChannelCount m"
    using add_subframes_length [OF assms e] acc by simp
  show "\<forall>a \<in> set (accumulated P R m).
           uint (m_nSubFrameAverages m) * MPS_MIN_SIGNED_ADC_COUNTS P \<le> a \<and>
           a \<le> uint (m_nSubFrameAverages m) * MPS_MAX_SIGNED_ADC_COUNTS P"
    using add_subframes_zero [OF assms e] unfolding acc uint_nat by blast
qed

lemma pad_to_nth:
  "length xs \<le> n \<Longrightarrow> i < n \<Longrightarrow> pad_to n z xs ! i = (if i < length xs then xs ! i else z)"
  by (auto simp: pad_to_def nth_append)

lemma length_pad_to [simp]: "length (pad_to n z xs) = max n (length xs)"
  by (simp add: pad_to_def)

text \<open>What a successful acquisition is, when there is a subframe to average.\<close>

lemma acquire_Inr:
  assumes "adc_ok P" and "m_nSubFrameAverages m \<noteq> 0" and "acquire P R m = Inr (fd, m')"
  defines "avg \<equiv> map (\<lambda>a. the (trunc_div a (uint (m_nSubFrameAverages m)))) (accumulated P R m)"
  shows "length avg = m_PhysicalPressureChannelCount m"
    and "m_PhysicalPressureChannelCount m \<le> MPS_MAX_PRESSURE_CH_COUNT P"
    and "m_PhysicalTemperatureChannelCount m \<le> MPS_MAX_TEMPERATURE_CH_COUNT P"
    and "fd_counts fd = pad_to (MPS_MAX_PRESSURE_CH_COUNT P) 0 avg"
    and "fd_p fd = pad_to (MPS_MAX_PRESSURE_CH_COUNT P) (Num False 0)
                     (map (to_pressure P (units (m_cfg m))) avg)"
    and "fd_t fd = pad_to (MPS_MAX_TEMPERATURE_CH_COUNT P) (Num False 0)
                     (map (to_temperature P) (take (m_PhysicalTemperatureChannelCount m) (fd_counts fd)))"
    and "\<exists>d g. m' = m\<lparr>m_NormalDistribution := d, m_RandomGenerator := g\<rparr>"
proof -
  show "length avg = m_PhysicalPressureChannelCount m"
    using accumulated_bounds [OF assms(1)] by (simp add: avg_def)
  have av: "average_counts P (m_nSubFrameAverages m) (accumulated P R m) = Inr avg"
    unfolding avg_def by (intro average_counts_eq assms accumulated_bounds)
  from assms(3) show "m_PhysicalPressureChannelCount m \<le> MPS_MAX_PRESSURE_CH_COUNT P"
    and "m_PhysicalTemperatureChannelCount m \<le> MPS_MAX_TEMPERATURE_CH_COUNT P"
    by (auto simp: acquire_def beyond_arrays_def resolve_def Let_def split: if_splits)
  from assms(3) av show "fd_counts fd = pad_to (MPS_MAX_PRESSURE_CH_COUNT P) 0 avg"
    and "fd_p fd = pad_to (MPS_MAX_PRESSURE_CH_COUNT P) (Num False 0)
                     (map (to_pressure P (units (m_cfg m))) avg)"
    and "fd_t fd = pad_to (MPS_MAX_TEMPERATURE_CH_COUNT P) (Num False 0)
                     (map (to_temperature P) (take (m_PhysicalTemperatureChannelCount m) (fd_counts fd)))"
    and "\<exists>d g. m' = m\<lparr>m_NormalDistribution := d, m_RandomGenerator := g\<rparr>"
    by (auto simp: acquire_def beyond_arrays_def resolve_def accumulated_def Let_def split: if_splits prod.splits)
qed

subsection \<open>The frame periods\<close>

text \<open>
  The rates that the scanner can work with: those above \<open>10 ^ 9 / 2 ^ 31\<close> Hz, about 0.4657, for
  which a frame lasts fewer than \<open>2 ^ 31\<close> nanoseconds. \<open>slowest_rate\<close> is the least \<open>float\<close> of
  these: \<open>10 ^ 9 / 2 ^ 31\<close> is \<open>15625000 / 2 ^ 25\<close>, and the numbers of the format are \<open>2 ^ -25\<close>
  apart there. What goes wrong at any other rate is in \<open>SafeCommands\<close>.
\<close>

definition slowest_rate :: rat where
  "slowest_rate = 15625001 / 2 ^ 25"

fun usable_rate :: "ieee \<Rightarrow> bool" where
  "usable_rate (Num s r) = (\<not> s \<and> slowest_rate \<le> r)"
| "usable_rate (Infinity s) = (\<not> s)"
| "usable_rate NaN = False"

lemma slowest_rate_le [simp]: "slowest_rate \<le> 1" "slowest_rate \<le> numeral n"
proof -
  show "slowest_rate \<le> 1" by (simp add: slowest_rate_def)
  also have "(1 :: rat) \<le> numeral n" by (rule one_le_numeral)
  finally show "slowest_rate \<le> numeral n" .
qed

lemma slowest_rate_pos: "0 < slowest_rate"
  by (simp add: slowest_rate_def)

lemma rnd_mag_ge_1:
  assumes "f = binary32 \<or> f = binary64" and "1 \<le> r"
  shows "1 \<le> rnd_mag f r"
proof -
  have "rnd_mag f (of_nat 1) = of_nat 1" using assms(1) by (intro rnd_mag_nat) auto
  moreover have "rnd_mag f 1 \<le> rnd_mag f r" using assms by (intro rnd_mag_mono) auto
  ultimately show ?thesis by simp
qed

lemma rnd_mag_slowest:
  assumes "f = binary32 \<or> f = binary64" and "slowest_rate \<le> r"
  shows "slowest_rate \<le> rnd_mag f r"
proof -
  have e: "of_nat 15625001 * 2 powi (- 25) = slowest_rate"
    by (simp add: slowest_rate_def power_int_minus power_int_def field_simps)
  have "rnd_mag f (of_nat 15625001 * 2 powi (- 25)) = of_nat 15625001 * 2 powi (- 25)"
    by (rule rnd_mag_exact) (use assms(1) in auto)
  then have "rnd_mag f slowest_rate = slowest_rate" unfolding e .
  moreover have "rnd_mag f slowest_rate \<le> rnd_mag f r"
    using assms slowest_rate_pos by (intro rnd_mag_mono) auto
  ultimately show ?thesis by simp
qed

lemma usable_rate_fl:
  "f = binary32 \<or> f = binary64 \<Longrightarrow> slowest_rate \<le> r \<Longrightarrow> usable_rate (fl f False r)"
  using rnd_mag_slowest by (simp add: fl_def Let_def)

lemma usable_rate_double: "usable_rate x \<Longrightarrow> usable_rate (to_fformat binary64 x)"
  by (cases x) (auto intro: usable_rate_fl)

text \<open>A number of subframes as a \<open>float\<close> is at least 1, so that the product is usable too.\<close>

lemma usable_rate_mul:
  assumes "usable_rate x" and "n \<noteq> (0 :: u32)"
  shows "usable_rate (fmul binary32 x (of_int_fl binary32 (uint n)))"
proof -
  have "1 \<le> uint n" using assms(2) by (simp add: word_neq_0_conv word_less_def)
  then have "(1 :: rat) \<le> of_int (uint n)" by (metis of_int_1 of_int_le_iff)
  from rnd_mag_ge_1 [of binary32, OF _ this] obtain s where s: "1 \<le> s"
    "of_int_fl binary32 (uint n) \<in> {Num False s, Infinity False}"
    by (auto simp: of_int_fl_def fl_def Let_def)
  show ?thesis
  proof (cases x)
    case (Num b r)
    have "slowest_rate * 1 \<le> r * s"
      using assms(1) s(1) Num slowest_rate_pos by (intro mult_mono) auto
    then show ?thesis using assms(1) s(2) Num slowest_rate_pos by (auto intro: usable_rate_fl)
  qed (use assms(1) s in auto)
qed

text \<open>The period of such a rate fits an \<open>int\<close>.\<close>

lemma frame_period_usable:
  assumes "usable_rate rate"
  shows "\<exists>p. frame_period rate = Inr p \<and> 0 \<le> p \<and> p < 2 ^ 31"
proof (cases "to_fformat binary64 rate")
  case (Num b r)
  have r: "\<not> b" "slowest_rate \<le> r" using usable_rate_double [OF assms] by (simp_all add: Num)
  then have r0: "0 < r" using slowest_rate_pos by linarith
  let ?q = "rnd_mag binary64 (10 ^ 9 / r)"
  have e: "rnd_mag binary64 (of_nat 2147483511) = of_nat 2147483511" by (rule rnd_mag_nat) auto
  have "2147483511 * slowest_rate \<le> 2147483511 * r" using r(2) by (intro mult_left_mono) auto
  then have "(10 :: rat) ^ 9 \<le> 2147483511 * r" by (simp add: slowest_rate_def)
  then have "(10 :: rat) ^ 9 / r \<le> 2147483511" using r0 by (simp add: field_simps)
  then have "?q \<le> rnd_mag binary64 2147483511" using r0 by (intro rnd_mag_mono) auto
  then have q: "?q \<le> 2147483511" using e by simp
  have q0: "0 \<le> ?q" using r0 by (intro rnd_mag_nonneg) simp
  have "(2147483511 :: rat) < 2 powi 1024" by (simp add: power_int_def)
  then have fin: "fl binary64 False (10 ^ 9 / r) = Num False ?q"
    using q by (simp add: fl_def Let_def)
  have "\<lfloor>?q\<rfloor> \<le> 2147483511" using q by (simp add: floor_le_iff)
  moreover have "0 \<le> \<lfloor>?q\<rfloor>" using q0 by simp
  ultimately show ?thesis
    using r(1) r0 fin Num by (auto simp: frame_period_def ns_per_s_def cast_i32_def Let_def)
next
  case (Infinity b)
  then show ?thesis by (simp add: frame_period_def ns_per_s_def cast_i32_def Let_def)
qed (use usable_rate_double [OF assms] in simp)

lemma subframe_period_usable:
  "usable_rate rate \<Longrightarrow> n \<noteq> 0 \<Longrightarrow> is_defined (subframe_period rate n)"
  using frame_period_usable [OF usable_rate_mul, of rate n] by (auto simp: subframe_period_def)

text \<open>At any slower rate the period, in nanoseconds, does not fit.\<close>

lemma frame_period_slow:
  assumes "0 \<le> r" and "r * 2 ^ 31 \<le> 10 ^ 9"
  shows "frame_period (Num False r) = Inl Unrepresentable"
proof -
  let ?r = "rnd_mag binary64 r" and ?t = "15625000 / 2 ^ 25 :: rat"
  have e: "of_nat 15625000 * 2 powi (- 25) = ?t"
    by (simp add: power_int_minus power_int_def field_simps)
  have "rnd_mag binary64 (of_nat 15625000 * 2 powi (- 25)) = of_nat 15625000 * 2 powi (- 25)"
    by (rule rnd_mag_exact) auto
  then have "rnd_mag binary64 ?t = ?t" unfolding e .
  moreover have "r \<le> ?t" using assms(2) by simp
  ultimately have r: "?r \<le> ?t" using rnd_mag_mono [of binary64 r ?t] assms(1) by simp
  have r0: "0 \<le> ?r" by (rule rnd_mag_nonneg [OF assms(1)])
  have "?t < 2 powi 1024" by (simp add: power_int_def)
  then have fl: "to_fformat binary64 (Num False r) = Num False ?r" using r by (simp add: fl_def Let_def)
  show ?thesis
  proof (cases "?r = 0")
    case True
    then show ?thesis unfolding frame_period_def fl by (simp add: ns_per_s_def cast_i32_def)
  next
    case False
    let ?q = "rnd_mag binary64 (10 ^ 9 / ?r)"
    have "2 ^ 31 \<le> 10 ^ 9 / ?r" using r r0 False by (simp add: field_simps)
    then have "rnd_mag binary64 (2 ^ 31) \<le> ?q" by (intro rnd_mag_mono) auto
    moreover have "rnd_mag binary64 (of_nat (2 ^ 31)) = of_nat (2 ^ 31)" by (rule rnd_mag_nat) auto
    ultimately have "2 ^ 31 \<le> ?q" by simp
    then have "2 ^ 31 \<le> \<lfloor>?q\<rfloor>" by (simp add: le_floor_iff)
    then show ?thesis unfolding frame_period_def fl using False
      by (simp add: ns_per_s_def cast_i32_def fl_def Let_def)
  qed
qed

text \<open>
  For numbers of the format, \<open>usable_rate\<close> is what it says: above \<open>10 ^ 9 / 2 ^ 31\<close>.
\<close>

lemma rnd_mag_next:
  assumes "10 ^ 9 / 2 ^ 31 < rnd_mag binary32 q" and "0 \<le> q"
  shows "slowest_rate \<le> rnd_mag binary32 q"
proof -
  let ?t = "15625000 / 2 ^ 25 :: rat"
  have t: "(10 :: rat) ^ 9 / 2 ^ 31 = ?t" by simp
  have e: "of_nat 15625000 * 2 powi (- 25) = ?t"
    by (simp add: power_int_minus power_int_def field_simps)
  have "rnd_mag binary32 (of_nat 15625000 * 2 powi (- 25)) = of_nat 15625000 * 2 powi (- 25)"
    by (rule rnd_mag_exact) auto
  then have rt: "rnd_mag binary32 ?t = ?t" unfolding e .
  have low: "?t < q"
  proof (rule ccontr)
    assume "\<not> ?t < q"
    then show False using rnd_mag_mono [of binary32 q ?t] assms rt t by simp
  qed
  show ?thesis
  proof (cases "slowest_rate \<le> q")
    case True
    then show ?thesis using rnd_mag_slowest by blast
  next
    case False
    have "ilog 2 q = -2"
      using low False by (intro ilog_unique) (simp_all add: slowest_rate_def power_int_minus)
    then have r: "rnd_mag binary32 q = of_int (rne (q * 2 ^ 25)) / 2 ^ 25"
      using low by (simp add: rnd_mag_def ulp_exp_def Let_def power_int_minus power_int_def field_simps)
    have "15625000 < rne (q * 2 ^ 25)"
    proof -
      have "15625000 < (of_int (rne (q * 2 ^ 25)) :: rat)" using assms(1) unfolding r t by (simp add: field_simps)
      then show ?thesis by (metis of_int_less_iff of_int_numeral)
    qed
    then have "15625001 \<le> rne (q * 2 ^ 25)" by linarith
    then have "(15625001 :: rat) \<le> of_int (rne (q * 2 ^ 25))" by (metis of_int_le_iff of_int_numeral)
    then show ?thesis unfolding r by (simp add: slowest_rate_def divide_right_mono)
  qed
qed

lemma usable_rate_above:
  "0 \<le> q \<Longrightarrow> usable_rate (fl binary32 s q) \<longleftrightarrow> Num False (10 ^ 9 / 2 ^ 31) < fl binary32 s q"
proof -
  assume q: "0 \<le> q"
  have "10 ^ 9 / 2 ^ 31 < slowest_rate" by (simp add: slowest_rate_def)
  then have "slowest_rate \<le> rnd_mag binary32 q \<longleftrightarrow> 10 ^ 9 / 2 ^ 31 < rnd_mag binary32 q"
    using rnd_mag_next [OF _ q] by auto
  moreover have "\<not> 10 ^ 9 / 2 ^ 31 < - rnd_mag binary32 q" using rnd_mag_nonneg [OF q, of binary32] by simp
  ultimately show ?thesis by (simp add: fl_def Let_def)
qed

subsection \<open>Nothing in a frame is undefined\<close>

text \<open>
  What the frames of a scan rely on: the layout, a packet type of its device, and the values
  that a scan start sets. \<open>StartScan\<close> establishes it and every frame keeps it.
\<close>

definition packet_ok :: "mps_protocol \<Rightarrow> ('g, 'd) mps \<Rightarrow> bool" where
  "packet_ok P m \<longleftrightarrow>
     (m_PacketType m \<in> set (tl (packet_types P)) \<and>
      m_PacketPressureChannelCount m \<le> mps_packet_pressures P (m_PacketType m) \<and>
      m_PacketTemperatureChannelCount m \<le> mps_packet_temperatures P (m_PacketType m) \<or>
      m_PacketType m = MPS_PKT_UNDEFINED P) \<and>
     m_PacketInfo m \<in> {None, mps_packet_info_size P (m_PacketType m)}"

definition scan_ok :: "mps_protocol \<Rightarrow> ('g, 'd) mps \<Rightarrow> bool" where
  "scan_ok P m \<longleftrightarrow>
     layout_ok P m \<and> packet_ok P m \<and> m_nSubFrameAverages m \<noteq> 0 \<and>
     usable_rate (scan_rate_hz (m_cfg m)) \<and>
     m_ScanStartTimePTPSeconds m \<noteq> None \<and> m_ScanStartTimePTPNanoseconds m \<noteq> None"

lemma layout_counts:
  assumes "layout_ok P m" and "sizes_ok P"
  shows "m_PhysicalPressureChannelCount m \<le> 64" "m_PhysicalTemperatureChannelCount m \<le> 8"
    and "m_PacketPressureChannelCount m \<in> {64, 32, 16}" "m_PacketTemperatureChannelCount m \<le> 8"
    and "MPS_MAX_PRESSURE_CH_COUNT P = 64" "MPS_MAX_TEMPERATURE_CH_COUNT P = 8"
  using assms by (auto simp: layout_ok_def sizes_ok_def split: if_splits)

lemma acquire_defined:
  assumes "adc_ok P" and "sizes_ok P" and "layout_ok P m" and "m_nSubFrameAverages m \<noteq> 0"
  shows "is_defined (acquire P R m)"
proof -
  have "average_counts P (m_nSubFrameAverages m) acc \<noteq> Inl e" for acc e
    using assms(4) by (auto simp: average_counts_def)
  then have "is_defined (average_counts P (m_nSubFrameAverages m) acc)" for acc
    by (simp add: is_defined_def split: sum.splits) 
  then show ?thesis
    using layout_counts [OF assms(3,2)]
    by (auto simp: acquire_def beyond_arrays_def resolve_def Let_def is_defined_bind split: prod.splits)
qed

lemma labview_frame_defined:
  assumes "sizes_ok P" and "layout_ok P m" and "length (fd_p fd) = 64"
  shows "is_defined (labview_frame P m fd frame)"
proof -
  have "m_PacketPressureChannelCount m + 2 \<le> MPS_MAX_LABVIEW_ELEMENTS P"
    and "labview_size P (m_PacketPressureChannelCount m) \<le> 4 * MPS_MAX_LABVIEW_ELEMENTS P"
    and "m_PacketPressureChannelCount m \<le> 64"
    using layout_counts [OF assms(2,1)] assms(1) by (auto simp: labview_size_def sizes_ok_def)
  then show ?thesis using assms(3) by (simp add: labview_frame_def Let_def)
qed

lemma packet_fields_simps [simp]:
  "pkt_type (packet_fields P m fd frame dt raw h) = m_PacketType m"
  "pkt_frame (packet_fields P m fd frame dt raw h) = frame"
  "pkt_frame_time_s (packet_fields P m fd frame dt raw h) = word_of_int (fst (split_ns dt))"
  "pkt_frame_time_ns (packet_fields P m fd frame dt raw h) = word_of_int (snd (split_ns dt))"
  by (simp_all add: packet_fields_def)

text \<open>The packet types that have a \<open>case\<close> with a packet.\<close>

lemma sending_types:
  "set (tl (packet_types P)) = insert (MPS_PKT_LEGACY_TYPE P) (set (eu_types P) \<union> set (raw_types P))"
  by (simp add: packet_types_def eu_types_def raw_types_def insert_commute)

lemma build_packet_Some:
  assumes "build_packet P m fd frame dt = Inr (Some p)"
  shows "m_PacketType m \<in> set (tl (packet_types P)) \<and> (\<exists>raw h. p = packet_fields P m fd frame dt raw h)"
proof -
  consider (legacy) "m_PacketType m = MPS_PKT_LEGACY_TYPE P"
    | (eu) "m_PacketType m \<noteq> MPS_PKT_LEGACY_TYPE P" "m_PacketType m \<in> set (eu_types P)"
    | (raw) "m_PacketType m \<noteq> MPS_PKT_LEGACY_TYPE P" "m_PacketType m \<notin> set (eu_types P)"
        "m_PacketType m \<in> set (raw_types P)"
    | (none) "m_PacketType m \<noteq> MPS_PKT_LEGACY_TYPE P" "m_PacketType m \<notin> set (eu_types P)"
        "m_PacketType m \<notin> set (raw_types P)" by blast
  then show ?thesis
  proof cases
    case legacy
    then show ?thesis using assms
      by (auto simp: build_packet_def Let_def bind_ub_Inr_iff sending_types)
  qed (use assms in \<open>auto simp: build_packet_def Let_def sending_types\<close>)
qed

lemma binary_frame_defined:
  assumes "enums_ok P" and "sizes_ok P" and "scan_ok P m" and "length (fd_p fd) = 64"
    and "length (fd_t fd) = 8"
  shows "is_defined (binary_frame P m fd frame dt)"
proof -
  have lay: "layout_ok P m" and pk: "packet_ok P m"
    and ptp: "m_ScanStartTimePTPSeconds m \<noteq> None" "m_ScanStartTimePTPNanoseconds m \<noteq> None"
    using assms(3) by (auto simp: scan_ok_def)
  have hdr: "is_defined (legacy_fields P m)" using ptp by (auto simp: legacy_fields_def)
  have "is_defined (build_packet P m fd frame dt)"
    using hdr by (auto simp: build_packet_def Let_def)
  then obtain pkt where pkt: "build_packet P m fd frame dt = Inr pkt"
    by (auto simp: is_defined_def split: sum.splits)
  have np: "m_PacketPressureChannelCount m \<le> 64" "m_PacketTemperatureChannelCount m \<le> 8"
    using layout_counts [OF lay assms(2)] by auto
  show ?thesis
  proof (cases pkt)
    case (Some p)
    have ty: "pkt_type p = m_PacketType m" and t: "m_PacketType m \<in> set (tl (packet_types P))"
      using build_packet_Some pkt Some by fastforce+
    have len: "length (mps_packet_layout P p) = mps_packet_sizeof P (m_PacketType m)"
      and fit: "mps_packet_sizeof P (m_PacketType m) \<le> MPS_MAX_BINARY_PACKET_SIZE P"
      and info: "mps_packet_info_size P (m_PacketType m) \<in> {None, Some (mps_packet_sizeof P (m_PacketType m))}"
      using sizes_ok_packet [OF assms(2) tl_packet_types [OF t]] sizes_ok_layout [OF assms(2), of p] ty
      by simp_all
    have size: "packet_size P m = mps_packet_sizeof P (m_PacketType m)"
      using pk info by (auto simp: packet_size_def packet_ok_def)
    have "m_PacketType m \<noteq> MPS_PKT_UNDEFINED P"
      using tl_packet_types_defined [OF assms(1) t] .
    then have "m_PacketPressureChannelCount m \<le> mps_packet_pressures P (m_PacketType m)"
      and "m_PacketTemperatureChannelCount m \<le> mps_packet_temperatures P (m_PacketType m)"
      using pk by (auto simp: packet_ok_def)
    then show ?thesis
      using pkt Some len fit size np assms(4,5) by (simp add: binary_frame_def Let_def)
  qed (use pkt in \<open>simp add: binary_frame_def\<close>)
qed

text \<open>The drawn samples leave everything else of the device alone.\<close>

abbreviation with_draws :: "('g, 'd) mps \<Rightarrow> 'd \<Rightarrow> 'g \<Rightarrow> ('g, 'd) mps" where
  "with_draws m d g \<equiv> m\<lparr>m_NormalDistribution := d, m_RandomGenerator := g\<rparr>"

lemma scan_ok_with_draws [simp]: "scan_ok P (with_draws m d g) = scan_ok P m"
  by (simp add: scan_ok_def layout_ok_def packet_ok_def)

lemma scan_ok_stopped [simp]:
  "scan_ok P (m\<lparr>m_Scanning := b, m_Status := s\<rparr>) = scan_ok P m"
  by (simp add: scan_ok_def layout_ok_def packet_ok_def)

lemma is_defined_Inr: "is_defined r \<Longrightarrow> \<exists>x. r = Inr x"
  by (cases r) auto

lemma frame_data_lengths:
  assumes "adc_ok P" and "sizes_ok P" and "layout_ok P m" and "m_nSubFrameAverages m \<noteq> 0"
    and "acquire P R m = Inr (fd, m')"
  shows "length (fd_counts fd) = 64" and "length (fd_p fd) = 64" and "length (fd_t fd) = 8"
  using acquire_Inr [OF assms(1,4,5)] layout_counts [OF assms(3,2)] by simp_all

text \<open>The end of a frame: the test for the last frame of the scan.\<close>

definition end_of_frame :: "mps_protocol \<Rightarrow> u32 \<Rightarrow> ('g, 'd) mps \<Rightarrow> ('g, 'd) mps \<times> device_event list" where
  "end_of_frame P frame m =
     (if frames_per_scan (m_cfg m) \<noteq> 0 \<and> frames_per_scan (m_cfg m) = frame
      then StopScan P m else (m, []))"

text \<open>A frame of a well-formed scan runs to its end and is composed of these parts.\<close>

lemma scan_frame_parts:
  assumes "enums_ok P" and "adc_ok P" and "sizes_ok P" and "scan_ok P m"
    and per: "frame_period (scan_rate_hz (m_cfg m)) = Inr period"
  shows "\<exists>fd d g ev1 ev2. acquire P R m = Inr (fd, with_draws m d g) \<and>
           labview_frame P (with_draws m d g) fd frame = Inr ev1 \<and>
           binary_frame P (with_draws m d g) fd frame (start - m_ScanStartTime m) = Inr ev2 \<and>
           scan_frame P R start frame m =
             Inr (fst (end_of_frame P frame (with_draws m d g)),
                  ev1 @ ev2 @ snd (end_of_frame P frame (with_draws m d g)),
                  start + period, frame + 1)"
proof -
  have lay: "layout_ok P m" and n: "m_nSubFrameAverages m \<noteq> 0"
    and rate: "usable_rate (scan_rate_hz (m_cfg m))" using assms(4) by (auto simp: scan_ok_def)
  obtain sp where sp: "subframe_period (scan_rate_hz (m_cfg m)) (m_nSubFrameAverages m) = Inr sp"
    using is_defined_Inr [OF subframe_period_usable [OF rate n]] by blast
  obtain fd m1 where acq: "acquire P R m = Inr (fd, m1)"
    using is_defined_Inr [OF acquire_defined [OF assms(2,3) lay n, of R]] by auto
  obtain d g where m1: "m1 = with_draws m d g" using acquire_Inr(7) [OF assms(2) n acq] by blast
  note len = frame_data_lengths [OF assms(2,3) lay n acq]
  have ok1: "scan_ok P m1" "layout_ok P m1" using assms(4) by (auto simp: m1 scan_ok_def layout_ok_def packet_ok_def)
  obtain ev1 where ev1: "labview_frame P m1 fd frame = Inr ev1"
    using is_defined_Inr [OF labview_frame_defined [OF assms(3) ok1(2) len(2)]] by blast
  obtain ev2 where ev2: "binary_frame P m1 fd frame (start - m_ScanStartTime m) = Inr ev2"
    using is_defined_Inr [OF binary_frame_defined [OF assms(1,3) ok1(1) len(2,3)]] by blast
  have "scan_frame P R start frame m =
      Inr (fst (end_of_frame P frame m1), ev1 @ ev2 @ snd (end_of_frame P frame m1),
           start + period, frame + 1)"
    using per sp n acq ev1 ev2
    by (simp add: scan_frame_def end_of_frame_def Let_def split: prod.splits)
  then show ?thesis using acq ev1 ev2 unfolding m1 by blast
qed

lemma scan_ok_end_of_frame:
  "scan_ok P m \<Longrightarrow> scan_ok P (fst (end_of_frame P frame m))"
  by (auto simp: end_of_frame_def StopScan_def Let_def scan_ok_def layout_ok_def packet_ok_def)

lemma end_of_frame_simps [simp]:
  "m_cfg (fst (end_of_frame P frame m)) = m_cfg m"
  "m_PacketType (fst (end_of_frame P frame m)) = m_PacketType m"
  "m_PacketInfo (fst (end_of_frame P frame m)) = m_PacketInfo m"
  "m_UseBinary (fst (end_of_frame P frame m)) = m_UseBinary m"
  "m_OnFrame (fst (end_of_frame P frame m)) = m_OnFrame m"
  "m_OnStatusChanged (fst (end_of_frame P frame m)) = m_OnStatusChanged m"
  "m_ScanStartTime (fst (end_of_frame P frame m)) = m_ScanStartTime m"
  by (simp_all add: end_of_frame_def StopScan_def Let_def)

lemma scan_frame_scan_ok:
  assumes "enums_ok P" and "adc_ok P" and "sizes_ok P" and "scan_ok P m"
  shows "\<exists>m' ev start' . scan_frame P R start frame m = Inr (m', ev, start', frame + 1) \<and>
           scan_ok P m' \<and> m_cfg m' = m_cfg m"
proof -
  obtain period where per: "frame_period (scan_rate_hz (m_cfg m)) = Inr period"
    using frame_period_usable assms(4) by (auto simp: scan_ok_def)
  from scan_frame_parts [OF assms per, of R frame start] obtain d g ev1 ev2 where
    "scan_frame P R start frame m =
       Inr (fst (end_of_frame P frame (with_draws m d g)),
            ev1 @ ev2 @ snd (end_of_frame P frame (with_draws m d g)),
            start + period, frame + 1)" by blast
  moreover have "scan_ok P (fst (end_of_frame P frame (with_draws m d g)))"
    using assms(4) by (intro scan_ok_end_of_frame) simp
  ultimately show ?thesis by fastforce
qed

subsection \<open>A scan start makes a well-formed scan\<close>

lemma UpdateScanAverages_usable:
  assumes "usable_rate (scan_rate_hz (m_cfg m))"
  shows "\<exists>n. n \<noteq> 0 \<and> UpdateScanAverages m = Inr (m\<lparr>m_nSubFrameAverages := n\<rparr>)"
proof (cases "scan_rate_hz (m_cfg m)")
  case (Num b r)
  have r: "\<not> b" "slowest_rate \<le> r" using assms by (simp_all add: Num)
  then have r0: "0 < r" using slowest_rate_pos by linarith
  show ?thesis
  proof (cases "500 \<le> r")
    case True
    then show ?thesis using Num r(1) by (intro exI [of _ 1]) (simp add: UpdateScanAverages_def Let_def)
  next
    case False
    let ?q = "rnd_mag binary32 (500 / r)"
    have "1074 * slowest_rate \<le> 1074 * r" using r(2) by (intro mult_left_mono) auto
    then have "500 \<le> 1074 * r" by (simp add: slowest_rate_def)
    then have "500 / r \<le> 1074" "1 \<le> 500 / r" using r0 False by (simp_all add: field_simps)
    then have q: "?q \<le> rnd_mag binary32 (of_nat 1074)" "1 \<le> ?q"
      using rnd_mag_mono [of binary32 "500 / r" 1074] rnd_mag_ge_1 [of binary32 "500 / r"] r0 by auto
    have "rnd_mag binary32 (of_nat 1074) = of_nat 1074" by (rule rnd_mag_nat) auto
    with q have "?q \<le> 1074" by simp
    then have c: "1 \<le> \<lceil>?q\<rceil>" "\<lceil>?q\<rceil> \<le> 1074"
      using q(2) by (simp_all add: ceiling_le_iff le_ceiling_iff)
    have "(1074 :: rat) < 2 powi 128" by (simp add: power_int_def)
    with \<open>?q \<le> 1074\<close> have "fl binary32 False (500 / r) = Num False ?q"
      by (simp add: fl_def Let_def)
    moreover have "cast_u32 (Num False (of_int \<lceil>?q\<rceil>)) = Inr (word_of_int \<lceil>?q\<rceil>)"
      using c by (simp add: cast_u32_def Let_def)
    ultimately have "UpdateScanAverages m = Inr (m\<lparr>m_nSubFrameAverages := word_of_int \<lceil>?q\<rceil>\<rparr>)"
      using Num r(1) r0 False by (simp add: UpdateScanAverages_def Let_def)
    moreover have "(word_of_int \<lceil>?q\<rceil> :: u32) \<noteq> 0"
    proof
      assume "word_of_int \<lceil>?q\<rceil> = (0 :: u32)"
      moreover have "int (unat (word_of_int \<lceil>?q\<rceil> :: u32)) = \<lceil>?q\<rceil>"
        by (rule int_unat_word32) (use c in simp_all)
      ultimately have "\<lceil>?q\<rceil> = 0" by (simp only: unsigned_0 of_nat_0)
      with c show False by linarith
    qed
    ultimately show ?thesis by blast
  qed
next
  case (Infinity b)
  then show ?thesis using assms by (intro exI [of _ 1]) (simp add: UpdateScanAverages_def Let_def)
qed (use assms in simp)

lemma ConfigureScanLayout_packet_ok:
  assumes "sizes_ok P" and "supported P (device_id (m_cfg m))"
  shows "packet_ok P (ConfigureScanLayout P m)"
proof -
  have dev: "device_id (m_cfg m) \<in> {MPS_4264 P, MPS_4232 P, MPS_4216 P}"
    using assms(2) by (simp add: supported_def device_types_def)
  note ar = sizes_ok_arrays [OF assms(1), unfolded packet_types_def list.sel list.map list.inject prod.inject]
  show ?thesis
    unfolding packet_ok_def ConfigureScanLayout_fields packet_types_def
    using dev ar by (auto simp: binary_packet_type_known [OF dev] physical_channels_def)
qed

lemma StartScan_scan_ok:
  assumes "sizes_ok P" and "supported P (device_id (m_cfg m))"
    and "usable_rate (scan_rate_hz (m_cfg m))" and "\<not> m_Scanning m"
  shows "\<exists>m' ev. StartScan P R now_sys now_steady m = Inr (m', ev) \<and> scan_ok P m' \<and> m_Scanning m'"
proof -
  let ?s = "ptp_seconds now_sys"
  define m1 where "m1 = m\<lparr>m_RandomGenerator := mt19937 R (ucast (hash_string R (m_Name m))),
      m_ScanStartTime := now_steady, m_ScanStartTimePTPSeconds := Some (word_of_int ?s),
      m_ScanStartTimePTPNanoseconds := Some (word_of_int (now_sys - ?s * 10 ^ 9))\<rparr>"
  let ?c = "ConfigureScanLayout P m1"
  have "usable_rate (scan_rate_hz (m_cfg ?c))" using assms(3) by (simp add: m1_def)
  then obtain n where n: "n \<noteq> 0" and u: "UpdateScanAverages ?c = Inr (?c\<lparr>m_nSubFrameAverages := n\<rparr>)"
    using UpdateScanAverages_usable by blast
  have sup: "supported P (device_id (m_cfg m1))" using assms(2) by (simp add: m1_def)
  have lay: "layout_ok P ?c" by (rule ConfigureScanLayout_ok [OF disjI1 [OF sup]])
  have pk: "packet_ok P ?c" by (rule ConfigureScanLayout_packet_ok [OF assms(1) sup])
  have "scan_ok P (?c\<lparr>m_nSubFrameAverages := n, m_Scanning := True, m_Status := MPS_STATUS_SCAN P\<rparr>)"
    using lay pk n assms(3) by (simp add: scan_ok_def layout_ok_def packet_ok_def m1_def)
  moreover have "StartScan P R now_sys now_steady m =
      Inr (?c\<lparr>m_nSubFrameAverages := n, m_Scanning := True, m_Status := MPS_STATUS_SCAN P\<rparr>,
           notify (?c\<lparr>m_nSubFrameAverages := n, m_Scanning := True, m_Status := MPS_STATUS_SCAN P\<rparr>))"
    using assms(4) u by (simp add: StartScan_def Let_def m1_def)
  ultimately show ?thesis by fastforce
qed

text \<open>Any number of frames of a well-formed scan is defined.\<close>

lemma scan_run_defined:
  assumes "enums_ok P" and "adc_ok P" and "sizes_ok P" and "scan_ok P m"
  shows "is_defined (scan_run P R k start frame m)"
  using assms(4)
proof (induction k arbitrary: start frame m)
  case (Suc k)
  obtain m' ev start' where f: "scan_frame P R start frame m = Inr (m', ev, start', frame + 1)"
    and ok: "scan_ok P m'"
    using scan_frame_scan_ok [OF assms(1-3) Suc.prems] by blast
  show ?case
    using is_defined_Inr [OF Suc.IH [OF ok, of start' "frame + 1"]]
    by (auto simp: scan_run.simps [of P R "Suc k"] f)
qed (simp add: scan_run.simps)

subsection \<open>Properties of the frames\<close>

lemma bounded_product:
  fixes a n lo hi :: int
  assumes "n * lo \<le> a" and "a \<le> n * hi" and "0 \<le> n" and "n < 2 ^ 32"
    and "- (2 ^ 31) \<le> lo" and "hi < 2 ^ 31"
  shows "\<bar>a\<bar> < 2 ^ 63"
proof -
  have "n * hi \<le> n * 2 ^ 31" using assms by (intro mult_left_mono) auto
  moreover have "n * (- (2 ^ 31)) \<le> n * lo" using assms by (intro mult_left_mono) auto
  moreover have "n * 2 ^ 31 < 2 ^ 32 * 2 ^ 31" using assms(4) by simp
  ultimately show ?thesis using assms(1,2) by (simp add: abs_if)
qed

text \<open>
  Property C19: the data of a frame. The 64-bit accumulators do not overflow; a channel's
  value is the truncated mean of its samples, which lies in the converter's range without
  the code's clamp; the pressures are the conversions of these counts, and the channels the
  device does not have are zero.
\<close>

theorem acquired_data:
  assumes "adc_ok P" and "m_nSubFrameAverages m \<noteq> 0" and "acquire P R m = Inr (fd, m')"
  shows "(\<forall>a \<in> set (accumulated P R m). \<bar>a\<bar> < 2 ^ 63) \<and>
         (\<forall>i < m_PhysicalPressureChannelCount m.
            fd_counts fd ! i = the (trunc_div (accumulated P R m ! i) (uint (m_nSubFrameAverages m))) \<and>
            fd_p fd ! i = to_pressure P (units (m_cfg m)) (fd_counts fd ! i)) \<and>
         (\<forall>c \<in> set (fd_counts fd). in_adc P c) \<and>
         (\<forall>i. m_PhysicalPressureChannelCount m \<le> i \<and> i < MPS_MAX_PRESSURE_CH_COUNT P \<longrightarrow>
            fd_counts fd ! i = 0 \<and> fd_p fd ! i = Num False 0)"
proof -
  note q = acquire_Inr [OF assms] and b = accumulated_bounds [OF assms(1), of R m]
  let ?n = "uint (m_nSubFrameAverages m)"
  define avg where "avg = map (\<lambda>a. the (trunc_div a ?n)) (accumulated P R m)"
  have n: "0 < ?n" using assms(2) by (simp add: word_neq_0_conv word_less_def)
  have small: "\<bar>a\<bar> < 2 ^ 63" if "a \<in> set (accumulated P R m)" for a
    by (rule bounded_product [of ?n "MPS_MIN_SIGNED_ADC_COUNTS P" _ "MPS_MAX_SIGNED_ADC_COUNTS P"])
      (use b(2) that assms(1) uint_lt2p [of "m_nSubFrameAverages m"] in \<open>auto simp: adc_ok_def\<close>)
  have av: "in_adc P c" if "c \<in> set avg" for c
    using that b(2) average_in_range [OF assms(1) n] by (auto simp: avg_def)
  have zero: "in_adc P 0" using assms(1) by (simp add: adc_ok_def)
  have counts: "fd_counts fd = pad_to (MPS_MAX_PRESSURE_CH_COUNT P) 0 avg"
    and p: "fd_p fd = pad_to (MPS_MAX_PRESSURE_CH_COUNT P) (Num False 0) (map (to_pressure P (units (m_cfg m))) avg)"
    and len: "length avg = m_PhysicalPressureChannelCount m"
    using q by (simp_all only: avg_def)
  have "in_adc P c" if "c \<in> set (fd_counts fd)" for c
    using that av zero unfolding counts pad_to_def by auto
  moreover have "fd_counts fd ! i = avg ! i \<and> fd_p fd ! i = to_pressure P (units (m_cfg m)) (avg ! i)"
    if "i < m_PhysicalPressureChannelCount m" for i
    using that q(2) len unfolding counts p by (simp add: pad_to_nth)
  moreover have "avg ! i = the (trunc_div (accumulated P R m ! i) ?n)"
    if "i < m_PhysicalPressureChannelCount m" for i
    using that b(1) by (simp add: avg_def)
  moreover have "fd_counts fd ! i = 0 \<and> fd_p fd ! i = Num False 0"
    if "m_PhysicalPressureChannelCount m \<le> i" "i < MPS_MAX_PRESSURE_CH_COUNT P" for i
    using that q(2) len unfolding counts p by (simp add: pad_to_nth)
  ultimately show ?thesis using small by auto
qed

theorem acquired_data_witness:
  "\<exists>fd m'. acquire sample_protocol sample_random (sample_device (Num False 500)) = Inr (fd, m') \<and>
     (\<forall>c \<in> set (fd_counts fd). in_adc sample_protocol c)"
proof -
  let ?m = "sample_device (Num False 500)"
  have n: "m_nSubFrameAverages ?m \<noteq> 0" by (simp add: sample_device_def Mps_def)
  have "layout_ok sample_protocol ?m" by (simp add: sample_device_def Mps_layout_ok)
  then obtain fd m' where "acquire sample_protocol sample_random ?m = Inr (fd, m')"
    using is_defined_Inr [OF acquire_defined [OF sample_adc_ok sample_sizes_ok _ n]] by fastforce
  with acquired_data [OF sample_adc_ok n this] show ?thesis by blast
qed

text \<open>
  Property C10: on a supported device with a rate that the scanner can work with (anything from
  about 0.4657 Hz on) a scan that starts never leaves defined behaviour: no array is overrun,
  every cast holds its value, nothing uninitialised is read, whatever the formats, units and SIM
  flags, for any number of frames.
\<close>

theorem scans_are_defined:
  assumes "enums_ok P" and "adc_ok P" and "sizes_ok P" and "supported P (device_id (m_cfg m))"
    and "usable_rate (scan_rate_hz (m_cfg m))" and "\<not> m_Scanning m"
  shows "\<exists>m' ev. StartScan P R now_sys now_steady m = Inr (m', ev) \<and>
           (\<forall>k start frame. is_defined (scan_run P R k start frame m'))"
  using StartScan_scan_ok [OF assms(3-6), of R now_sys now_steady] scan_run_defined [OF assms(1-3)]
  by blast

theorem scans_are_defined_witness:
  "\<exists>m' ev. StartScan sample_protocol sample_random 0 0 (sample_device (Num False (5 / 2))) = Inr (m', ev) \<and>
     is_defined (scan_run sample_protocol sample_random 1000 0 1 m')"
proof -
  let ?m = "sample_device (Num False (5 / 2))"
  have "supported sample_protocol (device_id (m_cfg ?m))"
    by (simp add: sample_device_def Mps_def sample_config_def supported_def device_types_def
        sample_protocol_def)
  moreover have "usable_rate (scan_rate_hz (m_cfg ?m))" by (auto simp: slowest_rate_def)
  moreover have "\<not> m_Scanning ?m" by (simp add: sample_device_def Mps_def)
  ultimately show ?thesis
    using scans_are_defined [OF sample_enums_ok sample_adc_ok sample_sizes_ok, of ?m] by blast
qed

end
