(* ===== verification/MpsRun.thy ===== *)
theory MpsRun
  imports MpsScan
begin

section \<open>Mps::ScanThreadFn: whole scans\<close>

text \<open>
  What the frames of a scan add up to when no other thread acts on the device: a scan of
  \<open>frames_per_scan\<close> frames sends exactly these, numbered and timed, and stops.
\<close>

subsection \<open>A scan of a fixed number of frames\<close>

fun frames_of :: "device_event list \<Rightarrow> u8 list list" where
  "frames_of [] = []"
| "frames_of (Frame_Ready b # ev) = b # frames_of ev"
| "frames_of (Status_Changed # ev) = frames_of ev"
| "frames_of (Labview_Ready b # ev) = frames_of ev"

lemma frames_of_append [simp]: "frames_of (xs @ ys) = frames_of xs @ frames_of ys"
  by (induction xs rule: frames_of.induct) simp_all

lemma frames_of_notify [simp]: "frames_of (notify m) = []"
  by (simp add: notify_def)

lemma labview_frame_events:
  "labview_frame P m fd frame = Inr ev \<Longrightarrow> frames_of ev = [] \<and> Status_Changed \<notin> set ev"
  by (auto simp: labview_frame_def Let_def split: if_splits)

text \<open>A device whose scan sends binary packets.\<close>

definition sends_binary :: "mps_protocol \<Rightarrow> ('g, 'd) mps \<Rightarrow> bool" where
  "sends_binary P m \<longleftrightarrow>
     m_UseBinary m \<and> m_OnFrame m \<and> m_PacketType m \<in> set (tl (packet_types P)) \<and> 0 < packet_size P m"

lemma packet_size_keep [simp]:
  "packet_size P (with_draws m d g) = packet_size P m"
  "packet_size P (fst (end_of_frame P frame m)) = packet_size P m"
  by (simp_all add: packet_size_def split: option.split)

lemma sends_binary_keep [simp]:
  "sends_binary P (with_draws m d g) = sends_binary P m"
  "sends_binary P (fst (end_of_frame P frame m)) = sends_binary P m"
  by (simp_all add: sends_binary_def)

text \<open>The frame number and times of the \<open>k\<close>-th frame, counted from 1.\<close>

definition stamp :: "int \<Rightarrow> nat \<Rightarrow> u32 \<times> u32 \<times> u32" where
  "stamp period k =
     (of_nat k, word_of_int (fst (split_ns (int (k - 1) * period))),
      word_of_int (snd (split_ns (int (k - 1) * period))))"

definition stamp_of :: "packet \<Rightarrow> u32 \<times> u32 \<times> u32" where
  "stamp_of p = (pkt_frame p, pkt_frame_time_s p, pkt_frame_time_ns p)"

lemma build_packet_sending:
  assumes "m_PacketType m \<in> set (tl (packet_types P))" and "build_packet P m fd frame dt = Inr r"
  shows "\<exists>p. r = Some p \<and> stamp_of p =
           (frame, word_of_int (fst (split_ns dt)), word_of_int (snd (split_ns dt)))"
proof -
  have "r \<noteq> None"
    using assms unfolding sending_types
    by (auto simp: build_packet_def Let_def bind_ub_Inr_iff split: if_split_asm)
  then obtain p where "r = Some p" by blast
  with build_packet_Some assms(2) show ?thesis by (fastforce simp: stamp_of_def)
qed

lemma binary_frame_events:
  assumes "sends_binary P m" and "binary_frame P m fd frame dt = Inr ev"
  shows "\<exists>p. ev = [Frame_Ready (take (packet_size P m) (mps_packet_layout P p))] \<and>
           stamp_of p = (frame, word_of_int (fst (split_ns dt)), word_of_int (snd (split_ns dt)))"
proof -
  have s: "m_UseBinary m" "m_OnFrame m" "m_PacketType m \<in> set (tl (packet_types P))"
    "0 < packet_size P m" using assms(1) by (auto simp: sends_binary_def)
  from assms(2) s(1) obtain r where r: "build_packet P m fd frame dt = Inr r"
    by (auto simp: binary_frame_def bind_ub_Inr_iff)
  from build_packet_sending [OF s(3) r] obtain p where p: "r = Some p"
    "stamp_of p = (frame, word_of_int (fst (split_ns dt)), word_of_int (snd (split_ns dt)))" by blast
  with assms(2) r s(1,2,4) show ?thesis
    by (auto simp: binary_frame_def Let_def split: if_split_asm)
qed

text \<open>One frame of a scan that sends binary packets.\<close>

lemma scan_frame_binary:
  assumes "enums_ok P" and "adc_ok P" and "sizes_ok P" and "scan_ok P m" and "sends_binary P m"
    and "frame_period (scan_rate_hz (m_cfg m)) = Inr period"
  shows "\<exists>d g ev p. scan_frame P R (m_ScanStartTime m + dt) frame m =
           Inr (fst (end_of_frame P frame (with_draws m d g)),
                ev @ snd (end_of_frame P frame (with_draws m d g)),
                m_ScanStartTime m + dt + period, frame + 1) \<and>
           Status_Changed \<notin> set ev \<and>
           frames_of ev = [take (packet_size P m) (mps_packet_layout P p)] \<and>
           stamp_of p = (frame, word_of_int (fst (split_ns dt)), word_of_int (snd (split_ns dt)))"
proof -
  obtain fd d g ev1 ev2 where lv: "labview_frame P (with_draws m d g) fd frame = Inr ev1"
    and bin: "binary_frame P (with_draws m d g) fd frame dt = Inr ev2"
    and r: "scan_frame P R (m_ScanStartTime m + dt) frame m =
        Inr (fst (end_of_frame P frame (with_draws m d g)),
             ev1 @ ev2 @ snd (end_of_frame P frame (with_draws m d g)),
             m_ScanStartTime m + dt + period, frame + 1)"
    using scan_frame_parts [OF assms(1-4,6), of R frame "m_ScanStartTime m + dt"]
    unfolding add_diff_cancel_left' by blast
  obtain p where p: "ev2 = [Frame_Ready (take (packet_size P m) (mps_packet_layout P p))]"
    "stamp_of p = (frame, word_of_int (fst (split_ns dt)), word_of_int (snd (split_ns dt)))"
    using binary_frame_events [OF _ bin] assms(5) by auto
  show ?thesis
    by (rule exI [of _ d], rule exI [of _ g], rule exI [of _ "ev1 @ ev2"], rule exI [of _ p])
      (use r p labview_frame_events [OF lv] in simp)
qed

lemma of_nat_u32_inj: "f < 2 ^ 32 \<Longrightarrow> n < 2 ^ 32 \<Longrightarrow> of_nat f = (of_nat n :: u32) \<longleftrightarrow> f = n"
  by (auto simp: word_unat_eq_iff unat_of_nat take_bit_nat_eq_self)

lemma notify_with_draws: "notify (with_draws m d g) = notify m"
  by (simp add: notify_def)

lemma end_of_frame_last:
  assumes "frames_per_scan (m_cfg m) = frame" and "frame \<noteq> 0" and "m_Scanning m"
  shows "end_of_frame P frame m =
           (m\<lparr>m_Scanning := False, m_Status := MPS_STATUS_READY P\<rparr>,
            if m_Status m = MPS_STATUS_READY P then [] else notify m)"
  using assms by (simp add: end_of_frame_def StopScan_scanning)

lemma end_of_frame_inner:
  "frames_per_scan (m_cfg m) \<noteq> frame \<Longrightarrow> end_of_frame P frame m = (m, [])"
  by (simp add: end_of_frame_def)

lemma scan_run_Suc:
  "m_Scanning m \<Longrightarrow> scan_frame P R start frame m = Inr (m1, ev, start1, frame1) \<Longrightarrow>
   scan_run P R j start1 frame1 m1 = Inr (m2, ev2, fin) \<Longrightarrow>
   scan_run P R (Suc j) start frame m = Inr (m2, ev @ ev2, fin)"
  by (simp add: scan_run.simps [of P R "Suc j"])

lemma scan_run_stopped: "\<not> m_Scanning m \<Longrightarrow> scan_run P R k start frame m = Inr (m, [], True)"
  by (simp add: scan_run.simps)

text \<open>
  The frames from the \<open>f\<close>-th to the last: the induction behind the property. The fuel is the
  number of frames.
\<close>

lemma fixed_length_run:
  assumes ok: "enums_ok P" "adc_ok P" "sizes_ok P" and n: "0 < n" "n < 2 ^ 32"
    and "scan_ok P m" and "sends_binary P m" and "m_Scanning m"
    and "frame_period (scan_rate_hz (m_cfg m)) = Inr period"
    and "frames_per_scan (m_cfg m) = of_nat n" and "1 \<le> f" and "f \<le> n"
    and "n - f < k"
  shows "\<exists>m' ev ps.
           scan_run P R k (m_ScanStartTime m + int (f - 1) * period) (of_nat f) m =
             Inr (m', ev @ (if m_Status m = MPS_STATUS_READY P then [] else notify m), True) \<and>
           \<not> m_Scanning m' \<and> m_Status m' = MPS_STATUS_READY P \<and> Status_Changed \<notin> set ev \<and>
           frames_of ev = map (\<lambda>p. take (packet_size P m) (mps_packet_layout P p)) ps \<and>
           map stamp_of ps = map (stamp period) [f..<n + 1]"
  using assms(6-)
proof (induction "n - f" arbitrary: f k m)
  case 0
  then have fn: "f = n" by simp
  obtain j where k: "k = Suc j" using 0 by (cases k) auto
  obtain d g ev p where
    fr: "scan_frame P R (m_ScanStartTime m + int (f - 1) * period) (of_nat f) m =
           Inr (fst (end_of_frame P (of_nat f) (with_draws m d g)),
                ev @ snd (end_of_frame P (of_nat f) (with_draws m d g)),
                m_ScanStartTime m + int (f - 1) * period + period, of_nat f + 1)"
    and ev: "Status_Changed \<notin> set ev"
      "frames_of ev = [take (packet_size P m) (mps_packet_layout P p)]" "stamp_of p = stamp period f"
    using scan_frame_binary [OF ok 0(2,3,5), of R "int (f - 1) * period" "of_nat f"]
    unfolding stamp_def by blast
  have "of_nat n \<noteq> (0 :: u32)" using of_nat_u32_inj [of n 0] n by simp
  then have eof: "end_of_frame P (of_nat f) (with_draws m d g) =
      (with_draws m d g\<lparr>m_Scanning := False, m_Status := MPS_STATUS_READY P\<rparr>,
       if m_Status m = MPS_STATUS_READY P then [] else notify m)"
    using 0(4,6) fn by (subst end_of_frame_last) (simp_all add: notify_def)
  show ?case
    unfolding k
    by (rule exI, rule exI [of _ ev], rule exI [of _ "[p]"], intro conjI,
        rule scan_run_Suc [OF 0(4) fr [unfolded eof fst_conv snd_conv] scan_run_stopped,
          unfolded append_Nil2])
      (use ev fn in simp_all)
next
  case (Suc x)
  obtain j where k: "k = Suc j" using Suc.prems by (cases k) auto
  have less: "f < n" and x: "x = n - Suc f" using Suc.hyps(2) by simp_all
  obtain d g ev p where
    fr: "scan_frame P R (m_ScanStartTime m + int (f - 1) * period) (of_nat f) m =
           Inr (fst (end_of_frame P (of_nat f) (with_draws m d g)),
                ev @ snd (end_of_frame P (of_nat f) (with_draws m d g)),
                m_ScanStartTime m + int (f - 1) * period + period, of_nat f + 1)"
    and ev: "Status_Changed \<notin> set ev"
      "frames_of ev = [take (packet_size P m) (mps_packet_layout P p)]" "stamp_of p = stamp period f"
    using scan_frame_binary [OF ok Suc.prems(1,2,4), of R "int (f - 1) * period" "of_nat f"]
    unfolding stamp_def by blast
  have "of_nat n \<noteq> (of_nat f :: u32)" using of_nat_u32_inj [of n f] n less by simp
  then have eof: "end_of_frame P (of_nat f) (with_draws m d g) = (with_draws m d g, [])"
    using Suc.prems(5) by (simp add: end_of_frame_inner)
  have t: "m_ScanStartTime m + int (f - 1) * period + period =
      m_ScanStartTime m + int (Suc f - 1) * period"
    using Suc.prems(6) by (simp add: algebra_simps of_nat_diff)
  have j: "n - Suc f < j" using Suc.prems(8) k less by arith
  obtain m' ev2 ps where
    run: "scan_run P R j (m_ScanStartTime m + int (Suc f - 1) * period) (of_nat (Suc f)) (with_draws m d g) =
           Inr (m', ev2 @ (if m_Status m = MPS_STATUS_READY P then [] else notify m), True)"
    and rest: "\<not> m_Scanning m'" "m_Status m' = MPS_STATUS_READY P" "Status_Changed \<notin> set ev2"
      "frames_of ev2 = map (\<lambda>p. take (packet_size P m) (mps_packet_layout P p)) ps"
      "map stamp_of ps = map (stamp period) [Suc f..<n + 1]"
    using Suc.hyps(1) [OF x, of "with_draws m d g" j, unfolded notify_with_draws] Suc.prems(1-6) j less
    by auto
  have run': "scan_run P R j (m_ScanStartTime m + int (f - 1) * period + period) (of_nat f + 1) (with_draws m d g) =
      Inr (m', ev2 @ (if m_Status m = MPS_STATUS_READY P then [] else notify m), True)"
    using run unfolding t by (simp add: add.commute)
  have up: "[f..<Suc n] = f # [Suc f..<Suc n]" using less by (simp add: upt_conv_Cons)
  show ?case
    unfolding k
    by (rule exI [of _ m'], rule exI [of _ "ev @ ev2"], rule exI [of _ "p # ps"], intro conjI,
        unfold append_assoc, rule scan_run_Suc [OF Suc.prems(3) fr [unfolded eof fst_conv snd_conv append_Nil2] run'])
      (use ev rest in \<open>simp_all add: up del: upt_Suc\<close>)
qed

lemma StartScan_sends:
  assumes "StartScan P R now_sys now_steady m = Inr (m', ev)" and "\<not> m_Scanning m"
  shows "m_UseBinary m' = m_UseBinary (ConfigureScanLayout P m)"
    and "m_PacketType m' = m_PacketType (ConfigureScanLayout P m)"
    and "m_PacketInfo m' = m_PacketInfo (ConfigureScanLayout P m)"
    and "m_OnFrame m' = m_OnFrame m"
  using assms
  by (auto simp: StartScan_def Let_def bind_ub_Inr_iff ConfigureScanLayout_def split: prod.splits
      dest!: UpdateScanAverages_Inr)

lemma StartScan_sends_binary:
  assumes "enums_ok P" and "sizes_ok P" and "supported P (device_id (m_cfg m))"
    and "\<forall>t \<in> set (tl (packet_types P)). 0 < mps_packet_sizeof P t"
    and "binary_format (m_cfg m) = MPS_FMT_BINARY P" and "m_OnFrame m" and "\<not> m_Scanning m"
    and "StartScan P R now_sys now_steady m = Inr (m', ev)"
  shows "sends_binary P m'"
proof -
  note s = StartScan_sends [OF assms(8,7)]
  let ?c = "ConfigureScanLayout P m"
  have bin: "m_UseBinary ?c" using assms(5) by (simp add: ConfigureScanLayout_fields)
  have dev: "device_id (m_cfg m) \<in> {MPS_4264 P, MPS_4232 P, MPS_4216 P}"
    using assms(3) by (simp add: supported_def device_types_def)
  have ty: "m_PacketType ?c \<in> set (tl (packet_types P))"
    unfolding ConfigureScanLayout_fields(9) using bin
    by (simp add: binary_packet_type_known [OF dev] packet_types_def)
  have "mps_packet_info_size P (m_PacketType ?c) \<in> {None, Some (mps_packet_sizeof P (m_PacketType ?c))}"
    using sizes_ok_packet(2) [OF assms(2) tl_packet_types [OF ty]] .
  then have "packet_size P m' = mps_packet_sizeof P (m_PacketType ?c)"
    using bin by (auto simp: packet_size_def s ConfigureScanLayout_fields(10))
  then show ?thesis using s bin ty assms(4,6) by (simp add: sends_binary_def)
qed

text \<open>A started scan of \<open>n\<close> frames.\<close>

lemma scan_of_n_frames:
  assumes "enums_ok P" and "adc_ok P" and "sizes_ok P"
    and "\<forall>t \<in> set (tl (packet_types P)). 0 < mps_packet_sizeof P t"
    and "supported P (device_id (m_cfg m))" and "usable_rate (scan_rate_hz (m_cfg m))"
    and "binary_format (m_cfg m) = MPS_FMT_BINARY P" and "m_OnFrame m" and "\<not> m_Scanning m"
    and "frames_per_scan (m_cfg m) = of_nat n" and "0 < n" and "n < 2 ^ 32"
    and "StartScan P R now_sys now_steady m = Inr (m1, ev1)"
  shows "\<exists>m' ev ps period.
           frame_period (scan_rate_hz (m_cfg m)) = Inr period \<and>
           scan_run P R n now_steady 1 m1 = Inr (m', ev @ notify m, True) \<and>
           \<not> m_Scanning m' \<and> m_Status m' = MPS_STATUS_READY P \<and> Status_Changed \<notin> set ev \<and>
           frames_of ev = map (\<lambda>p. take (packet_size P m1) (mps_packet_layout P p)) ps \<and>
           map stamp_of ps = map (stamp period) [1..<n + 1]"
proof -
  note s = StartScan_Inr [OF assms(9,13)]
  have ok: "scan_ok P m1" using StartScan_scan_ok [OF assms(3,5,6,9), of R now_sys now_steady] assms(13) by auto
  have sb: "sends_binary P m1"
    by (rule StartScan_sends_binary [OF assms(1,3,5,4,7,8,9,13)])
  obtain period where per: "frame_period (scan_rate_hz (m_cfg m)) = Inr period"
    using frame_period_usable [OF assms(6)] by blast
  have st: "m_Status m1 \<noteq> MPS_STATUS_READY P" using s assms(1) by (auto simp: enums_ok_def)
  have nt: "notify m1 = notify m" using s by (simp add: notify_def)
  have "m_ScanStartTime m1 + int (1 - 1) * period = now_steady" "(of_nat 1 :: u32) = 1" using s by simp_all
  moreover have "n - 1 < n" "1 \<le> (1 :: nat)" "1 \<le> n" using assms(11) by simp_all
  moreover have "m_Scanning m1" "frame_period (scan_rate_hz (m_cfg m1)) = Inr period"
    "frames_per_scan (m_cfg m1) = of_nat n" using s per assms(10) by simp_all
  ultimately show ?thesis
    using fixed_length_run [OF assms(1-3,11,12) ok sb, of period 1 n R] st nt per by simp
qed

text \<open>
  Property C9: a scan of \<open>n\<close> frames. Started on a supported device with binary format and a
  frame callback, and left alone, the scan thread hands exactly \<open>n\<close> binary packets to the
  callback, numbered from 1 and stamped with whole multiples of the frame period since the
  start, then stops by itself, with the device ready and one status notification at the end.
\<close>

theorem fixed_length_scan:
  assumes "enums_ok P" and "adc_ok P" and "sizes_ok P"
    and "\<forall>t \<in> set (tl (packet_types P)). 0 < mps_packet_sizeof P t"
    and "supported P (device_id (m_cfg m))" and "usable_rate (scan_rate_hz (m_cfg m))"
    and "binary_format (m_cfg m) = MPS_FMT_BINARY P" and "m_OnFrame m" and "\<not> m_Scanning m"
    and "frames_per_scan (m_cfg m) = of_nat n" and "0 < n" and "n < 2 ^ 32"
    and "StartScan P R now_sys now_steady m = Inr (m1, ev1)"
  shows "\<exists>m' ev ps period.
           frame_period (scan_rate_hz (m_cfg m)) = Inr period \<and>
           scan_run P R n now_steady 1 m1 = Inr (m', ev @ notify m, True) \<and>
           \<not> m_Scanning m' \<and> m_Status m' = MPS_STATUS_READY P \<and> Status_Changed \<notin> set ev \<and>
           frames_of ev = map (\<lambda>p. take (packet_size P m1) (mps_packet_layout P p)) ps \<and>
           map stamp_of ps = map (stamp period) [1..<n + 1]"
  by (rule scan_of_n_frames [OF assms])

theorem fixed_length_scan_witness:
  "\<exists>m1 ev1 m' ev (ps :: packet list). StartScan sample_protocol sample_random 0 7
       (sample_device (Num False 10)\<lparr>m_cfg := sample_config (Num False 10)\<lparr>frames_per_scan := 3\<rparr>\<rparr>)
       = Inr (m1, ev1) \<and>
     scan_run sample_protocol sample_random 3 7 1 m1 = Inr (m', ev @ [Status_Changed], True) \<and>
     map pkt_frame ps = [1, 2, 3] \<and> length (frames_of ev) = length ps"
proof -
  let ?m = "sample_device (Num False 10)\<lparr>m_cfg := sample_config (Num False 10)\<lparr>frames_per_scan := 3\<rparr>\<rparr>"
  have sup: "supported sample_protocol (device_id (m_cfg ?m))"
    by (simp add: sample_config_def supported_def device_types_def sample_protocol_def)
  have rate: "usable_rate (scan_rate_hz (m_cfg ?m))"
    by (auto simp: sample_config_def simp: slowest_rate_def)
  have idle: "\<not> m_Scanning ?m" and cb: "m_OnFrame ?m" "notify ?m = [Status_Changed]"
    by (simp_all add: sample_device_def Mps_def notify_def)
  have fmt: "binary_format (m_cfg ?m) = MPS_FMT_BINARY sample_protocol"
    by (simp add: sample_config_def sample_protocol_def)
  have pos: "\<forall>t \<in> set (tl (packet_types sample_protocol)). 0 < mps_packet_sizeof sample_protocol t"
    by (simp add: packet_types_def sample_protocol_def sample_sizeof_def)
  obtain m1 ev1 where st: "StartScan sample_protocol sample_random 0 7 ?m = Inr (m1, ev1)"
    using StartScan_scan_ok [OF sample_sizes_ok sup rate idle] by blast
  have "frames_per_scan (m_cfg ?m) = of_nat 3" "0 < (3 :: nat)" "3 < (2 :: nat) ^ 32" by simp_all
  from fixed_length_scan [OF sample_enums_ok sample_adc_ok sample_sizes_ok pos sup rate fmt cb(1) idle this st]
  obtain m' ev ps period where r: "scan_run sample_protocol sample_random 3 7 1 m1 = Inr (m', ev @ notify ?m, True)"
    "frames_of ev = map (\<lambda>p. take (packet_size sample_protocol m1) (mps_packet_layout sample_protocol p)) ps"
    "map stamp_of ps = map (stamp period) [1..<3 + 1]" by blast
  have "map pkt_frame ps = map fst (map stamp_of ps)" by (simp add: stamp_of_def)
  also have "\<dots> = [1, 2, 3]" unfolding r(3) by (simp add: stamp_def upt_rec)
  finally have num: "map pkt_frame ps = [1, 2, 3]" .
  have len: "length (frames_of ev) = length ps" using r(2) by simp
  show ?thesis
    by (intro exI conjI) (rule st, rule r(1) [unfolded cb(2)], rule num, rule len)
qed

end
