(* ===== verification/LayerFrames.thy ===== *)
theory LayerFrames
  imports ServerLayer MpsRun
begin

section \<open>From the scanner to the clients\<close>

text \<open>
  How \<open>ServerLayer\<close> passes on what the scanner reports: the routing of the frames through the
  copies of their buffers, the datagram queue and the binary server, and with it what a binary
  client gets from the start of a scan to its end.
\<close>

subsection \<open>Frames reach the clients they are for\<close>

text \<open>
  The contract: what each event of the scanner \<open>m\<close> sends, with the command server \<open>s\<close> and the
  binary server \<open>t\<close>, and the datagrams it queues.
\<close>

definition wants :: "int \<Rightarrow> ('g, 'd) ServerLayer \<Rightarrow> ('g, 'd) mps \<Rightarrow> bool" where
  "wants fmt L m \<longleftrightarrow> m_TCPBinaryCleintConnected L \<and> binary_format (m_cfg m) = fmt"

fun routed :: "mps_protocol \<Rightarrow> ('g, 'd) ServerLayer \<Rightarrow> ('g, 'd) mps \<Rightarrow> Server \<Rightarrow> Server \<Rightarrow> device_event
    \<Rightarrow> layer_event list" where
  "routed P L m s t Status_Changed =
     (if m_Status m = MPS_STATUS_READY P \<and> m_TCPCommandClientConnected L \<and> m_ActiveTCPCommandClientId L \<noteq> 0
      then told (m_ActiveTCPCommandClientId L) prompt s else [])"
| "routed P L m s t (Frame_Ready bs) =
     (if wants (MPS_FMT_BINARY P) L m
      then map (\<lambda>k. On_Binary (Sent k bs)) (recipients (m_ActiveTCPBinaryClientId L) t) else [])"
| "routed P L m s t (Labview_Ready bs) =
     (if wants (MPS_FMT_LABVIEW P) L m
      then map (\<lambda>k. On_Binary (Sent k (swap_words bs))) (recipients (m_ActiveTCPBinaryClientId L) t) else [])"

fun queued :: "mps_protocol \<Rightarrow> ('g, 'd) mps \<Rightarrow> device_event \<Rightarrow> (string \<times> u16 \<times> u8 list) list" where
  "queued P m (Frame_Ready bs) =
     (if udp_enabled (m_cfg m) \<and> ftp_udp_format (m_cfg m) = MPS_FMT_BINARY P
      then [(udp_target_ip (m_cfg m), udp_target_port (m_cfg m), bs)] else [])"
| "queued P m _ = []"

fun whole_words :: "device_event \<Rightarrow> bool" where
  "whole_words (Labview_Ready bs) = (length bs mod 4 = 0)"
| "whole_words _ = True"

lemma Copy_holds: "heap_ok h \<Longrightarrow> holds h b bs \<Longrightarrow> Copy (buf_data b) (buf_size b) h = Inr (copied h bs)"
  using Copy_buffer_eq by (simp add: Copy_buffer_def)

lemma send_copy:
  assumes "heap_ok h" and "holds h b bs" and "connections_ok t"
  shows "\<exists>h'. bind_ub (Copy (buf_data b) (buf_size b) h) (\<lambda>(c, h1). SendBuffer cid c t h1) =
             Inr (h', map (\<lambda>k. Sent k bs) (recipients cid t)) \<and> blocks h' = blocks h \<and> heap_ok h'"
proof -
  obtain c h1 where c: "copied h bs = (c, h1)" by fastforce
  note k = copied_holds [OF assms(1) c]
  have "(blocks h1)(buf_data c := None) = blocks h" using k(4,5) by auto
  then show ?thesis
    using Copy_holds [OF assms(1,2)] SendBuffer_eq [OF k(2,1) assms(3)] c heap_ok_free [OF k(2), of "buf_data c"]
    by simp
qed

lemma stream_copy:
  assumes "heap_ok h" and "holds h b bs"
  shows "bind_ub (Copy (buf_data b) (buf_size b) h) (\<lambda>(c, h1). StreamTo ip port c s h1) = stream_frame ip port bs s h"
  using Copy_holds [OF assms] by (simp add: stream_frame_def Copy_bytes_eq)

lemma holds_not_owned:
  "heap_ok h \<Longrightarrow> holds h b bs \<Longrightarrow> \<forall>a \<in> set (owned ps). blocks h a = None \<Longrightarrow> buf_data b \<notin> set (owned ps)"
  by (auto simp: holds_def owned_def split: if_splits)

text \<open>What a layer's buffers and queue are when a frame is delivered.\<close>

definition frame_ready :: "heap \<Rightarrow> buffer \<Rightarrow> u8 list \<Rightarrow> Server \<Rightarrow> (string \<times> u16 \<times> u8 list) list \<Rightarrow> bool" where
  "frame_ready h b bs s ds \<longleftrightarrow> heap_ok h \<and> holds h b bs \<and> queue_holds h (m_DataQueue s) ds \<and>
     buf_data b \<notin> set (owned (m_DataQueue s))"

text \<open>The queue has grown by packets whose storage was free.\<close>

definition new_packets :: "heap \<Rightarrow> DataPacket list \<Rightarrow> DataPacket list \<Rightarrow> bool" where
  "new_packets h q q' \<longleftrightarrow> (\<exists>r. q' = q @ r \<and> (\<forall>a \<in> set (owned r). blocks h a = None))"

lemma new_packets_refl [simp]: "new_packets h q q"
  by (simp add: new_packets_def)

lemma new_packets_cong: "new_packets h q q' \<Longrightarrow> (\<And>a. blocks h a = None \<Longrightarrow> blocks h' a = None) \<Longrightarrow> new_packets h' q q'"
  by (auto simp: new_packets_def)

lemma new_packets_trans:
  assumes "new_packets h q q1" and "new_packets h1 q1 q2" and "queue_holds h1 q1 ds"
    and "\<forall>a. a \<notin> set (owned q1) \<longrightarrow> blocks h1 a = blocks h a"
  shows "new_packets h q q2"
proof -
  obtain r1 r2 where r: "q1 = q @ r1" "\<forall>a \<in> set (owned r1). blocks h a = None"
    "q2 = q1 @ r2" "\<forall>a \<in> set (owned r2). blocks h1 a = None"
    using assms(1,2) by (auto simp: new_packets_def)
  have "blocks h a = None" if "a \<in> set (owned r2)" for a
  proof -
    have "blocks h1 a = None" using r(4) that by blast
    moreover from this have "a \<notin> set (owned q1)" using queue_holds_dom [OF assms(3)] by blast
    ultimately show ?thesis using assms(4) by simp
  qed
  then show ?thesis using r by (auto simp: new_packets_def)
qed

lemma frame_streamed:
  assumes "frame_ready h b bs s ds"
  shows "\<exists>q h'. bind_ub (Copy (buf_data b) (buf_size b) h) (\<lambda>(c, h1). StreamTo ip port c s h1) =
             Inr (s\<lparr>m_DataQueue := q\<rparr>, h') \<and>
           frame_ready h' b bs (s\<lparr>m_DataQueue := q\<rparr>) (ds @ [(ip, port, bs)]) \<and>
           new_packets h (m_DataQueue s) q \<and> (\<forall>a. a \<notin> set (owned q) \<longrightarrow> blocks h' a = blocks h a)"
proof -
  note f = assms [unfolded frame_ready_def]
  obtain p h' where p: "stream_frame ip port bs s h = Inr (s\<lparr>m_DataQueue := m_DataQueue s @ [p]\<rparr>, h')"
    "heap_ok h'" "queue_holds h' (m_DataQueue s @ [p]) (ds @ [(ip, port, bs)])"
    "\<forall>a. a \<notin> set (owned [p]) \<longrightarrow> blocks h' a = blocks h a" "\<forall>a \<in> set (owned [p]). blocks h a = None"
    using stream_frame_step [of h s ds ip port bs] f by blast
  have b: "buf_data b \<notin> set (owned [p])" using holds_not_owned f p(5) by blast
  have "holds h' b bs" by (rule holds_cong [of b h' h]) (use f p(4) b in auto)
  then have "frame_ready h' b bs (s\<lparr>m_DataQueue := m_DataQueue s @ [p]\<rparr>) (ds @ [(ip, port, bs)])"
    using p(2,3) f b by (simp add: frame_ready_def)
  then show ?thesis using stream_copy [of h b bs ip port s] f p(1,4,5) by (auto simp: new_packets_def)
qed

lemma frame_released:
  assumes "frame_ready h b bs s ds"
  shows "\<exists>h'. Release b h = Inr (empty_buffer, h') \<and> heap_ok h' \<and> queue_holds h' (m_DataQueue s) ds \<and>
           blocks h' = (blocks h)(buf_data b := None)"
proof -
  note f = assms [unfolded frame_ready_def]
  let ?h = "h\<lparr>blocks := (blocks h)(buf_data b := None)\<rparr>"
  have "queue_holds ?h (m_DataQueue s) ds"
    by (rule queue_holds_cong [of h]) (use f in auto)
  then show ?thesis using Release_eq [of h b bs] heap_ok_free [of h] f by simp
qed

lemma OnScanFrame_routed:
  assumes f: "frame_ready h b bs s ds" and L: "m_Device L = Some m" "m_Server L = Some s"
    "m_TCPBinaryServer L = Some t" and t: "connections_ok t"
  shows "\<exists>q h'. OnScanFrame P b L h =
             Inr (L\<lparr>m_Server := Some (s\<lparr>m_DataQueue := q\<rparr>)\<rparr>, h', routed P L m s t (Frame_Ready bs)) \<and>
           heap_ok h' \<and> queue_holds h' q (ds @ queued P m (Frame_Ready bs)) \<and>
           new_packets h (m_DataQueue s) q \<and> (\<forall>a. a \<notin> set (owned q) \<longrightarrow> blocks h' a = ((blocks h)(buf_data b := None)) a)"
proof -
  let ?cfg = "m_cfg m"
  let ?udp = "udp_enabled ?cfg \<and> ftp_udp_format ?cfg = MPS_FMT_BINARY P"
  let ?L = "\<lambda>q. L\<lparr>m_Server := Some (s\<lparr>m_DataQueue := q\<rparr>)\<rparr>"
  have same: "?L (m_DataQueue s) = L" by (simp flip: L(2))
  have "\<exists>q h1. stream_scan_frame P b L h = Inr (?L q, h1) \<and>
      frame_ready h1 b bs (s\<lparr>m_DataQueue := q\<rparr>) (ds @ queued P m (Frame_Ready bs)) \<and>
      new_packets h (m_DataQueue s) q \<and> (\<forall>a. a \<notin> set (owned q) \<longrightarrow> blocks h1 a = blocks h a)"
  proof (cases ?udp)
    case True
    obtain q h1 where q: "bind_ub (Copy (buf_data b) (buf_size b) h) (\<lambda>(c, h1).
        StreamTo (udp_target_ip ?cfg) (udp_target_port ?cfg) c s h1) = Inr (s\<lparr>m_DataQueue := q\<rparr>, h1)"
      "frame_ready h1 b bs (s\<lparr>m_DataQueue := q\<rparr>) (ds @ [(udp_target_ip ?cfg, udp_target_port ?cfg, bs)])"
      "new_packets h (m_DataQueue s) q" "\<forall>a. a \<notin> set (owned q) \<longrightarrow> blocks h1 a = blocks h a"
      using frame_streamed [OF f] by blast
    show ?thesis
      by (rule exI [of _ q], rule exI [of _ h1])
        (use q True L in \<open>simp add: stream_scan_frame_def Let_def\<close>)
  next
    case False
    then show ?thesis using f same L
      by (intro exI [of _ "m_DataQueue s"] exI [of _ h]) (auto simp: stream_scan_frame_def Let_def)
  qed
  then obtain q h1 where q: "stream_scan_frame P b L h = Inr (?L q, h1)"
    "frame_ready h1 b bs (s\<lparr>m_DataQueue := q\<rparr>) (ds @ queued P m (Frame_Ready bs))"
    "new_packets h (m_DataQueue s) q" "\<forall>a. a \<notin> set (owned q) \<longrightarrow> blocks h1 a = blocks h a" by blast
  note f1 = q(2) [unfolded frame_ready_def]
  obtain h2 where h2: "send_scan_frame P b (?L q) h1 = Inr (h2, if wants (MPS_FMT_BINARY P) L m
        then map (\<lambda>k. Sent k bs) (recipients (m_ActiveTCPBinaryClientId L) t) else [])"
    "blocks h2 = blocks h1" "heap_ok h2"
    using send_copy [of h1 b bs t "m_ActiveTCPBinaryClientId L"] f1 t L
    by (cases "wants (MPS_FMT_BINARY P) L m") (auto simp: send_scan_frame_def wants_def)
  have f2: "frame_ready h2 b bs (s\<lparr>m_DataQueue := q\<rparr>) (ds @ queued P m (Frame_Ready bs))"
    using f1 h2(2,3) queue_holds_cong [of h1 q _ h2] by (auto simp: frame_ready_def holds_def)
  obtain h3 where h3: "Release b h2 = Inr (empty_buffer, h3)" "heap_ok h3"
    "queue_holds h3 q (ds @ queued P m (Frame_Ready bs))" "blocks h3 = (blocks h2)(buf_data b := None)"
    using frame_released [OF f2] by auto
  have "OnScanFrame P b L h = Inr (?L q, h3, routed P L m s t (Frame_Ready bs))"
    using q(1) h2(1) h3(1) by (simp add: OnScanFrame_def)
  then show ?thesis using h3(2-4) h2(2) q(3,4) by auto
qed


lemma OnLabviewFrame_routed:
  assumes f: "frame_ready h b bs s ds" and L: "m_Device L = Some m" "m_Server L = Some s"
    "m_TCPBinaryServer L = Some t" and t: "connections_ok t"
    and words: "wants (MPS_FMT_LABVIEW P) L m \<Longrightarrow> length bs mod 4 = 0"
  shows "\<exists>h'. OnLabviewFrame P b L h = Inr (L, h', routed P L m s t (Labview_Ready bs)) \<and>
           heap_ok h' \<and> queue_holds h' (m_DataQueue s) ds \<and> blocks h' = (blocks h)(buf_data b := None)"
proof (cases "wants (MPS_FMT_LABVIEW P) L m")
  case True
  note f0 = f [unfolded frame_ready_def]
  let ?h1 = "if bs = [] then h else h\<lparr>blocks := (blocks h)(buf_data b \<mapsto> map Some (swap_words bs))\<rparr>"
  have swap: "SwapToNetworkOrderInPlace b h = Inr ?h1" using Swap_eq [of h b bs] f0 words [OF True] by simp
  have b1: "holds ?h1 b (swap_words bs)" by (rule Swap_holds [OF _ words [OF True] swap]) (use f0 in simp)
  have ok1: "heap_ok ?h1" using f0 holds_not_null [of h b bs]
    by (auto simp: heap_ok_def holds_def domIff split: if_splits)
  have q1: "queue_holds ?h1 (m_DataQueue s) ds"
    by (rule queue_holds_cong [of h]) (use f0 in auto)
  have f1: "frame_ready ?h1 b (swap_words bs) s ds" using b1 ok1 q1 f0 by (simp add: frame_ready_def)
  obtain h2 where h2: "bind_ub (Copy (buf_data b) (buf_size b) ?h1)
        (\<lambda>(c, h2). SendBuffer (m_ActiveTCPBinaryClientId L) c t h2) =
      Inr (h2, map (\<lambda>k. Sent k (swap_words bs)) (recipients (m_ActiveTCPBinaryClientId L) t))"
    "blocks h2 = blocks ?h1" "heap_ok h2"
    using send_copy [OF ok1 b1 t, of "m_ActiveTCPBinaryClientId L"] by blast
  have "frame_ready h2 b (swap_words bs) s ds"
    using f1 h2(2,3) queue_holds_cong [of ?h1 "m_DataQueue s" ds h2] by (auto simp: frame_ready_def holds_def)
  then obtain h3 where h3: "Release b h2 = Inr (empty_buffer, h3)" "heap_ok h3"
    "queue_holds h3 (m_DataQueue s) ds" "blocks h3 = (blocks h2)(buf_data b := None)"
    using frame_released by blast
  have "OnLabviewFrame P b L h = Inr (L, h3, routed P L m s t (Labview_Ready bs))"
    using True swap h2(1) h3(1) L by (simp add: OnLabviewFrame_def wants_def)
  moreover have "(blocks h2)(buf_data b := None) = (blocks h)(buf_data b := None)"
    unfolding h2(2) by simp
  ultimately show ?thesis using h3(2-4) by simp
next
  case False
  obtain h3 where h3: "Release b h = Inr (empty_buffer, h3)" "heap_ok h3"
    "queue_holds h3 (m_DataQueue s) ds" "blocks h3 = (blocks h)(buf_data b := None)"
    using frame_released [OF f] by blast
  then show ?thesis using False L by (auto simp: OnLabviewFrame_def wants_def)
qed

lemma OnStatusChanged_routed:
  assumes "heap_ok h" and L: "m_Device L = Some m" "m_Server L = Some s" and "connections_ok s"
  shows "\<exists>h'. OnStatusChanged P L h = Inr (h', routed P L m s t Status_Changed) \<and>
           blocks h' = blocks h \<and> heap_ok h'"
  using send_string_eq [OF assms(1,3,4), of "m_ActiveTCPCommandClientId L" prompt] assms(1) L
  by (auto simp: OnStatusChanged_def)

lemma copied_frame_ready:
  assumes "heap_ok h" and "queue_holds h (m_DataQueue s) ds" and "copied h bs = (b, h1)"
  shows "frame_ready h1 b bs s ds" and "(blocks h1)(buf_data b := None) = blocks h"
proof -
  note k = copied_holds [OF assms(1,3)]
  have b: "a \<noteq> buf_data b" if "a \<in> set (owned (m_DataQueue s))" for a
    using queue_holds_dom [OF assms(2) that] k(5) by auto
  then have "queue_holds h1 (m_DataQueue s) ds"
    using k(4) by (intro queue_holds_cong [OF assms(2,1)]) auto
  then show "frame_ready h1 b bs s ds" using k(1,2) b by (auto simp: frame_ready_def)
  show "(blocks h1)(buf_data b := None) = blocks h" using k(4,5) by auto
qed

text \<open>One event, with the storage and the queue it leaves.\<close>

definition delivers :: "mps_protocol \<Rightarrow> device_event list \<Rightarrow> ('g, 'd) ServerLayer \<Rightarrow> ('g, 'd) mps \<Rightarrow> Server
    \<Rightarrow> Server \<Rightarrow> heap \<Rightarrow> (string \<times> u16 \<times> u8 list) list \<Rightarrow> bool" where
  "delivers P es L m s t h ds \<longleftrightarrow>
     (\<exists>q h'. device_events P es L h =
          Inr (L\<lparr>m_Server := Some (s\<lparr>m_DataQueue := q\<rparr>)\<rparr>, h', concat (map (routed P L m s t) es)) \<and>
        heap_ok h' \<and> queue_holds h' q (ds @ concat (map (queued P m) es)) \<and>
        new_packets h (m_DataQueue s) q \<and> (\<forall>a. a \<notin> set (owned q) \<longrightarrow> blocks h' a = blocks h a))"

lemma device_events_single:
  "device_events P [e] L h =
     (case e of
          Status_Changed \<Rightarrow> bind_ub (OnStatusChanged P L h) (\<lambda>(h1, ev). Inr (L, h1, ev))
        | Frame_Ready bs \<Rightarrow> bind_ub (Copy_bytes bs h) (\<lambda>(b, h1). OnScanFrame P b L h1)
        | Labview_Ready bs \<Rightarrow> bind_ub (Copy_bytes bs h) (\<lambda>(b, h1). OnLabviewFrame P b L h1))"
  by (simp add: bind_ub_Inr_right [unfolded fun_eq_iff] cong: device_event.case_cong)

lemma event_delivered:
  assumes h: "heap_ok h" and q: "queue_holds h (m_DataQueue s) ds" and L: "m_Device L = Some m"
    "m_Server L = Some s" "m_TCPBinaryServer L = Some t" and c: "connections_ok s" "connections_ok t"
    and w: "wants (MPS_FMT_LABVIEW P) L m \<longrightarrow> whole_words e"
  shows "delivers P [e] L m s t h ds"
proof -
  have same: "L\<lparr>m_Server := Some (s\<lparr>m_DataQueue := m_DataQueue s\<rparr>)\<rparr> = L" by (simp flip: L(2))
  show ?thesis
  proof (cases e)
    case Status_Changed
    obtain h' where h': "OnStatusChanged P L h = Inr (h', routed P L m s t Status_Changed)"
      "blocks h' = blocks h" "heap_ok h'" using OnStatusChanged_routed [OF h L(1,2) c(1), where t = t] by blast
    have "queue_holds h' (m_DataQueue s) ds" by (rule queue_holds_cong [OF q h]) (simp add: h'(2))
    then show ?thesis unfolding delivers_def device_events_single Status_Changed
      using h' same by (intro exI [of _ "m_DataQueue s"] exI [of _ h']) simp
  next
    case (Frame_Ready bs)
    obtain b h1 where b: "copied h bs = (b, h1)" by fastforce
    note f = copied_frame_ready [OF h q b]
    have free: "blocks h a = None" if "blocks h1 a = None" for a
      using fun_cong [OF f(2), of a] that by (auto split: if_splits)
    show ?thesis unfolding delivers_def device_events_single Frame_Ready
      using OnScanFrame_routed [OF f(1) L c(2), of P] new_packets_cong [OF _ free] f(2) b
      by (fastforce simp: Copy_bytes_eq)
  next
    case (Labview_Ready bs)
    obtain b h1 where b: "copied h bs = (b, h1)" by fastforce
    note f = copied_frame_ready [OF h q b]
    obtain h' where h': "OnLabviewFrame P b L h1 = Inr (L, h', routed P L m s t (Labview_Ready bs))"
      "heap_ok h'" "queue_holds h' (m_DataQueue s) ds" "blocks h' = blocks h"
      using OnLabviewFrame_routed [OF f(1) L c(2), of P] w Labview_Ready f(2) by auto
    then show ?thesis unfolding delivers_def device_events_single Labview_Ready
      using same b by (intro exI [of _ "m_DataQueue s"] exI [of _ h']) (simp add: Copy_bytes_eq)
  qed
qed


lemma routed_queue [simp]:
  "routed P (L\<lparr>m_Server := r\<rparr>) m (s\<lparr>m_DataQueue := q\<rparr>) t = routed P L m s t"
proof
  show "routed P (L\<lparr>m_Server := r\<rparr>) m (s\<lparr>m_DataQueue := q\<rparr>) t e = routed P L m s t e" for e
    by (cases e) (simp_all add: wants_def told_def recipients_def IsClientConnected_def)
qed

lemma wants_queue [simp]: "wants fmt (L\<lparr>m_Server := r\<rparr>) m = wants fmt L m"
  by (simp add: wants_def)

lemma connections_ok_queue [simp]: "connections_ok (s\<lparr>m_DataQueue := q\<rparr>) = connections_ok s"
  by (simp add: connections_ok_def)

lemma events_delivered:
  assumes "heap_ok h" and "queue_holds h (m_DataQueue s) ds" and "m_Device L = Some m"
    and "m_Server L = Some s" and "m_TCPBinaryServer L = Some t" and "connections_ok s" and "connections_ok t"
    and "wants (MPS_FMT_LABVIEW P) L m \<longrightarrow> list_all whole_words es"
  shows "delivers P es L m s t h ds"
  using assms
proof (induction es arbitrary: L s h ds)
  case Nil
  have "L\<lparr>m_Server := Some (s\<lparr>m_DataQueue := m_DataQueue s\<rparr>)\<rparr> = L" by (simp flip: Nil(4))
  then show ?case using Nil(1,2) unfolding delivers_def
    by (intro exI [of _ "m_DataQueue s"] exI [of _ h]) simp
next
  case (Cons e es)
  have "delivers P [e] L m s t h ds"
    by (rule event_delivered) (use Cons.prems in auto)
  then obtain q h1 where one: "device_events P [e] L h =
      Inr (L\<lparr>m_Server := Some (s\<lparr>m_DataQueue := q\<rparr>)\<rparr>, h1, routed P L m s t e)" "heap_ok h1"
    "queue_holds h1 q (ds @ queued P m e)" "new_packets h (m_DataQueue s) q"
    "\<forall>a. a \<notin> set (owned q) \<longrightarrow> blocks h1 a = blocks h a"
    by (auto simp: delivers_def simp del: device_events.simps)
  let ?s = "s\<lparr>m_DataQueue := q\<rparr>"
  let ?L = "L\<lparr>m_Server := Some ?s\<rparr>"
  have "delivers P es ?L m ?s t h1 (ds @ queued P m e)"
    by (rule Cons.IH) (use one Cons.prems in auto)
  then obtain q2 h2 where q2: "device_events P es ?L h1 = Inr (?L\<lparr>m_Server := Some (?s\<lparr>m_DataQueue := q2\<rparr>)\<rparr>,
        h2, concat (map (routed P ?L m ?s t) es))" "heap_ok h2"
    "queue_holds h2 q2 ((ds @ queued P m e) @ concat (map (queued P m) es))"
    "new_packets h1 (m_DataQueue ?s) q2" "\<forall>a. a \<notin> set (owned q2) \<longrightarrow> blocks h2 a = blocks h1 a"
    unfolding delivers_def by blast
  have rest: "device_events P es ?L h1 =
      Inr (L\<lparr>m_Server := Some (s\<lparr>m_DataQueue := q2\<rparr>)\<rparr>, h2, concat (map (routed P L m s t) es))" "heap_ok h2"
    "queue_holds h2 q2 (ds @ queued P m e @ concat (map (queued P m) es))"
    "\<forall>a. a \<notin> set (owned q2) \<longrightarrow> blocks h2 a = blocks h1 a"
    using q2 by simp_all
  have new: "new_packets h (m_DataQueue s) q2"
    using new_packets_trans [OF one(4) _ one(3,5)] q2(4) by simp
  have "set (owned q) \<subseteq> set (owned q2)" using q2(4) by (auto simp: new_packets_def)
  then have same: "\<forall>a. a \<notin> set (owned q2) \<longrightarrow> blocks h2 a = blocks h a" using rest(4) one(5) by auto
  have "device_events P (e # es) L h =
      Inr (L\<lparr>m_Server := Some (s\<lparr>m_DataQueue := q2\<rparr>)\<rparr>, h2, concat (map (routed P L m s t) (e # es)))"
    using one(1) rest(1) by (simp add: device_events_single)
  then show ?case unfolding delivers_def
    using rest(2,3) new same by (intro exI [of _ q2] exI [of _ h2]) simp
qed

text \<open>
  Property C7: the routing of frames. Whatever events the scanner reports, the layer handles
  them all without leaving defined behaviour: each binary frame is queued once as a datagram to
  the configured address if UDP is enabled in binary format, and sent once to the binary
  client if there is one and its format is binary; a LabVIEW frame goes there with its words
  in network order if that is its format; a status change to ready prompts the controlling
  client. Both the copies and the frames themselves are freed: only the queue owns new storage.
\<close>

theorem frames_are_routed:
  assumes "heap_ok h" and "queue_holds h (m_DataQueue s) ds" and "m_Device L = Some m"
    and "m_Server L = Some s" and "m_TCPBinaryServer L = Some t" and "connections_ok s" and "connections_ok t"
    and "wants (MPS_FMT_LABVIEW P) L m \<longrightarrow> list_all whole_words es"
  shows "\<exists>q h'. device_events P es L h =
            Inr (L\<lparr>m_Server := Some (s\<lparr>m_DataQueue := q\<rparr>)\<rparr>, h', concat (map (routed P L m s t) es)) \<and>
          queue_holds h' q (ds @ concat (map (queued P m) es)) \<and>
          (\<forall>a. a \<notin> set (owned q) \<longrightarrow> blocks h' a = blocks h a)"
  using events_delivered [OF assms] by (auto simp: delivers_def)

theorem frames_are_routed_witness:
  "\<exists>L' h' q. device_events sample_protocol [Frame_Ready [1, 2, 3], Labview_Ready [1, 2, 3, 4], Frame_Ready [4]]
       sample_layer sample_heap =
     Inr (L', h', [On_Binary (Sent 9 [1, 2, 3]), On_Binary (Sent 9 [4])]) \<and>
     queue_holds h' q [(''127.0.0.1'', 23, [1, 2, 3]), (''127.0.0.1'', 23, [4])]"
proof -
  let ?es = "[Frame_Ready [1, 2, 3], Labview_Ready [1, 2, 3, 4], Frame_Ready [4]]"
  let ?s = "with_callbacks sample_server" and ?m = "sample_device (Num False 10)"
  have q: "queue_holds sample_heap (m_DataQueue ?s) []"
    by (simp add: queue_holds_def sample_server_def Server_def)
  have w: "wants (MPS_FMT_LABVIEW sample_protocol) sample_layer ?m \<longrightarrow> list_all whole_words ?es" by simp
  have r: "recipients 9 sample_server = [9]" using sample_connected by (simp add: recipients_def)
  have "concat (map (routed sample_protocol sample_layer ?m ?s ?s) ?es) =
      [On_Binary (Sent 9 [1, 2, 3]), On_Binary (Sent 9 [4])]"
    "concat (map (queued sample_protocol ?m) ?es) = [(''127.0.0.1'', 23, [1, 2, 3]), (''127.0.0.1'', 23, [4])]"
    using r by (simp_all add: wants_def sample_device_def Mps_def sample_config_def sample_protocol_def)
  then show ?thesis
    using frames_are_routed [OF sample_heap_ok(1) q, of sample_layer ?m ?s sample_protocol ?es] w sample_server_ok
    by fastforce
qed


subsection \<open>A scan from the binary port, end to end\<close>

text \<open>The data that client \<open>k\<close> of the binary server receives.\<close>

fun received_by :: "u64 \<Rightarrow> layer_event list \<Rightarrow> u8 list list" where
  "received_by k (On_Binary (Sent j bs) # ev) = (if j = k then bs # received_by k ev else received_by k ev)"
| "received_by k (_ # ev) = received_by k ev"
| "received_by k [] = []"

lemma received_by_append [simp]: "received_by k (xs @ ys) = received_by k xs @ received_by k ys"
  by (induction k xs rule: received_by.induct) simp_all

lemma received_by_commands [simp]: "received_by k (told j str s) = []"
proof -
  have "received_by k (map (\<lambda>k. On_Command (Sent k bs)) ks) = []" for bs ks
    by (induction ks) simp_all
  then show ?thesis by (simp add: told_def)
qed

lemma received_by_routed:
  assumes "wants (MPS_FMT_BINARY P) L m" and "\<not> wants (MPS_FMT_LABVIEW P) L m"
    and "recipients (m_ActiveTCPBinaryClientId L) t = [k]"
  shows "received_by k (concat (map (routed P L m s t) es)) = frames_of es"
  using assms by (induction es rule: frames_of.induct) simp_all

lemma acquire_cfg: "acquire P R m = Inr r \<Longrightarrow> m_cfg (snd r) = m_cfg m"
  by (auto simp: acquire_def beyond_arrays_def resolve_def Let_def bind_ub_Inr_iff split: prod.splits if_splits)

lemma scan_frame_cfg:
  "scan_frame P R start frame m = Inr (m1, ev, start1, frame1) \<Longrightarrow> m_cfg m1 = m_cfg m"
  by (auto simp: scan_frame_def Let_def bind_ub_Inr_iff case_prod_beta dest!: acquire_cfg split: if_splits)

lemma scan_run_cfg: "scan_run P R k start frame m = Inr (m', ev, fin) \<Longrightarrow> m_cfg m' = m_cfg m"
proof (induction k arbitrary: start frame m ev)
  case (Suc k)
  then show ?case
    by (auto simp: scan_run.simps [of P R "Suc k"] bind_ub_Inr_iff dest: scan_frame_cfg split: if_splits)
qed (simp add: scan_run.simps split: if_splits)


text \<open>
  Property C2: from the binary port to the client. When the binary client sends the byte 1 and
  the scanner is idle, set to \<open>n\<close> binary frames and otherwise left alone, the scanner starts,
  stops by itself, and the client receives exactly the \<open>n\<close> packets of the scan, in order,
  numbered from 1 and stamped with multiples of the frame period; the same packets are the
  datagrams queued for UDP if that is enabled. Nothing on the way leaves defined behaviour or
  keeps storage other than the queue's. (The layer handles the events one by one as they come;
  it only looks at the device's configuration, which a scan does not change, and, in the last
  event, at its final status.)
\<close>

theorem binary_client_gets_the_scan:
  assumes "enums_ok P" and "adc_ok P" and "sizes_ok P"
    and "\<forall>t \<in> set (tl (packet_types P)). 0 < mps_packet_sizeof P t"
    and "supported P (device_id (m_cfg m))" and "usable_rate (scan_rate_hz (m_cfg m))"
    and "binary_format (m_cfg m) = MPS_FMT_BINARY P" and "m_OnFrame m" and "\<not> m_Scanning m"
    and "frames_per_scan (m_cfg m) = of_nat n" and "0 < n" and "n < 2 ^ 32"
    and "frame_ready h buf [1] s ds" and "m_Device L = Some m" and "m_Server L = Some s"
    and "m_TCPBinaryServer L = Some t" and "connections_ok s" and "connections_ok t"
    and "binary_slot L = Some k" and "k \<noteq> 0" and "IsClientConnected k t"
  shows "\<exists>h1 m1 m' ev q h2 out ps period.
     OnTCPBinaryDataReceived P R t1 t2 k buf L h = Inr (L\<lparr>m_Device := Some m1\<rparr>, h1, []) \<and>
     frame_period (scan_rate_hz (m_cfg m)) = Inr period \<and>
     scan_run P R n t2 1 m1 = Inr (m', ev, True) \<and> m_Status m' = MPS_STATUS_READY P \<and>
     device_events P ev (L\<lparr>m_Device := Some m'\<rparr>) h1 =
       Inr (L\<lparr>m_Device := Some m', m_Server := Some (s\<lparr>m_DataQueue := q\<rparr>)\<rparr>, h2, out) \<and>
     received_by k out = map (\<lambda>p. take (packet_size P m1) (mps_packet_layout P p)) ps \<and>
     map stamp_of ps = map (stamp period) [1..<n + 1] \<and>
     queue_holds h2 q (ds @ (if udp_enabled (m_cfg m) \<and> ftp_udp_format (m_cfg m) = MPS_FMT_BINARY P
       then map (\<lambda>bs. (udp_target_ip (m_cfg m), udp_target_port (m_cfg m), bs)) (received_by k out) else [])) \<and>
     (\<forall>a. a \<notin> set (owned q) \<longrightarrow> blocks h2 a = ((blocks h)(buf_data buf := None)) a)"
proof -
  obtain m1 ev1 where st: "StartScan P R t1 t2 m = Inr (m1, ev1)"
    using StartScan_scan_ok [OF assms(3,5,6,9)] by blast
  note s = StartScan_Inr [OF assms(9) st]
  have stat: "m_Status m1 \<noteq> MPS_STATUS_READY P" and fmts: "MPS_FMT_BINARY P \<noteq> MPS_FMT_LABVIEW P"
    using s assms(1) by (auto simp: enums_ok_def)
  obtain m' ev ps period where per: "frame_period (scan_rate_hz (m_cfg m)) = Inr period"
    and run: "scan_run P R n t2 1 m1 = Inr (m', ev @ notify m, True)" "m_Status m' = MPS_STATUS_READY P"
      "frames_of ev = map (\<lambda>p. take (packet_size P m1) (mps_packet_layout P p)) ps"
      "map stamp_of ps = map (stamp period) [1..<n + 1]"
    using scan_of_n_frames [OF assms(1-12) st] by blast
  have cfg: "m_cfg m' = m_cfg m" using scan_run_cfg [OF run(1)] s by simp
  have start: "device_events P ev1 (L\<lparr>m_Device := Some m1\<rparr>) h = Inr (L\<lparr>m_Device := Some m1\<rparr>, h, [])"
    using s stat by (simp add: notify_def OnStatusChanged_def)
  obtain h1 where h1: "Release buf h = Inr (empty_buffer, h1)" "heap_ok h1" "queue_holds h1 (m_DataQueue s) ds"
    "blocks h1 = (blocks h)(buf_data buf := None)"
    using frame_released [OF assms(13)] by blast
  have byte: "buf_size buf = 1" "load_bytes (buf_data buf) 1 h = Inr [1]"
    using assms(13) load_bytes_holds [of h buf "[1]"] by (auto simp: frame_ready_def holds_def)
  have recv: "OnTCPBinaryDataReceived P R t1 t2 k buf L h = Inr (L\<lparr>m_Device := Some m1\<rparr>, h1, [])"
    using assms(14) byte st start h1(1) by (simp add: OnTCPBinaryDataReceived_def)
  let ?L = "L\<lparr>m_Device := Some m'\<rparr>"
  have w: "wants (MPS_FMT_BINARY P) ?L m'" "\<not> wants (MPS_FMT_LABVIEW P) ?L m'"
    "recipients (m_ActiveTCPBinaryClientId ?L) t = [k]"
    using assms(7,19-21) cfg fmts by (auto simp: wants_def binary_slot_def recipients_def split: if_splits)
  let ?out = "concat (map (routed P ?L m' s t) (ev @ notify m))"
  have frames: "received_by k ?out = frames_of ev"
    using received_by_routed [OF w, of s "ev @ notify m"] by simp
  have "delivers P (ev @ notify m) ?L m' s t h1 ds"
    by (rule events_delivered [OF h1(2,3)]) (use assms(15-18) w(2) in auto)
  then obtain q h2 where ev: "device_events P (ev @ notify m) ?L h1 =
      Inr (?L\<lparr>m_Server := Some (s\<lparr>m_DataQueue := q\<rparr>)\<rparr>, h2, ?out)"
    "queue_holds h2 q (ds @ concat (map (queued P m') (ev @ notify m)))"
    "\<forall>a. a \<notin> set (owned q) \<longrightarrow> blocks h2 a = blocks h1 a" unfolding delivers_def by blast
  have queued: "concat (map (queued P m') es) = (if udp_enabled (m_cfg m) \<and> ftp_udp_format (m_cfg m) = MPS_FMT_BINARY P
      then map (\<lambda>bs. (udp_target_ip (m_cfg m), udp_target_port (m_cfg m), bs)) (frames_of es) else [])" for es
    using cfg by (induction es rule: frames_of.induct) auto
  show ?thesis
    by (intro exI conjI) (rule recv, rule per, rule run(1), rule run(2), rule ev(1),
      rule frames [unfolded run(3)], rule run(4),
      use ev(2) in \<open>unfold queued frames frames_of_append frames_of_notify append_Nil2\<close>, assumption,
      use ev(3) h1(4) in simp)
qed


theorem binary_client_gets_the_scan_witness:
  "\<exists>h1 m1 m' ev L2 h2 out.
     OnTCPBinaryDataReceived sample_protocol sample_random 0 7 9 (fst (copied sample_heap [1]))
       (sample_layer\<lparr>m_Device := Some (sample_device (Num False 10)
          \<lparr>m_cfg := sample_config (Num False 10)\<lparr>frames_per_scan := 3\<rparr>\<rparr>)\<rparr>) (snd (copied sample_heap [1])) =
       Inr (sample_layer\<lparr>m_Device := Some m1\<rparr>, h1, []) \<and>
     scan_run sample_protocol sample_random 3 7 1 m1 = Inr (m', ev, True) \<and>
     device_events sample_protocol ev (sample_layer\<lparr>m_Device := Some m'\<rparr>) h1 = Inr (L2, h2, out) \<and>
     length (received_by 9 out) = 3"
proof -
  let ?m = "sample_device (Num False 10)\<lparr>m_cfg := sample_config (Num False 10)\<lparr>frames_per_scan := 3\<rparr>\<rparr>"
  let ?s = "with_callbacks sample_server" and ?L = "sample_layer\<lparr>m_Device := Some ?m\<rparr>"
  have sup: "supported sample_protocol (device_id (m_cfg ?m))"
    by (simp add: sample_config_def supported_def device_types_def sample_protocol_def)
  have rate: "usable_rate (scan_rate_hz (m_cfg ?m))"
    by (auto simp: sample_config_def simp: slowest_rate_def)
  have idle: "\<not> m_Scanning ?m" and cb: "m_OnFrame ?m" by (simp_all add: sample_device_def Mps_def)
  have fmt: "binary_format (m_cfg ?m) = MPS_FMT_BINARY sample_protocol"
    by (simp add: sample_config_def sample_protocol_def)
  have pos: "\<forall>t \<in> set (tl (packet_types sample_protocol)). 0 < mps_packet_sizeof sample_protocol t"
    by (simp add: packet_types_def sample_protocol_def sample_sizeof_def)
  have n: "frames_per_scan (m_cfg ?m) = of_nat 3" "0 < (3 :: nat)" "3 < (2 :: nat) ^ 32" by simp_all
  have "queue_holds sample_heap (m_DataQueue ?s) []" by (simp add: queue_holds_def sample_server_def Server_def)
  from copied_frame_ready(1) [OF sample_heap_ok(1) this, of "[1]"]
  have f: "frame_ready (snd (copied sample_heap [1])) (fst (copied sample_heap [1])) [1] ?s []" by simp
  have L: "m_Device ?L = Some ?m" "m_Server ?L = Some ?s" "m_TCPBinaryServer ?L = Some ?s" by simp_all
  have k: "binary_slot ?L = Some 9" "(9 :: u64) \<noteq> 0" "IsClientConnected 9 ?s" "connections_ok ?s"
    using sample_connected sample_server_ok by (simp_all add: binary_slot_def)
  obtain h1 m1 m' ev q h2 out and ps :: "packet list" and period where r:
    "OnTCPBinaryDataReceived sample_protocol sample_random 0 7 9 (fst (copied sample_heap [1])) ?L
       (snd (copied sample_heap [1])) = Inr (?L\<lparr>m_Device := Some m1\<rparr>, h1, [])"
    "scan_run sample_protocol sample_random 3 7 1 m1 = Inr (m', ev, True)"
    "device_events sample_protocol ev (?L\<lparr>m_Device := Some m'\<rparr>) h1 =
       Inr (?L\<lparr>m_Device := Some m', m_Server := Some (?s\<lparr>m_DataQueue := q\<rparr>)\<rparr>, h2, out)"
    "received_by 9 out = map (\<lambda>p. take (packet_size sample_protocol m1) (mps_packet_layout sample_protocol p)) ps"
    "map stamp_of ps = map (stamp period) [1..<3 + 1]"
    using binary_client_gets_the_scan [OF sample_enums_ok sample_adc_ok sample_sizes_ok pos sup rate fmt cb idle n
        f L k(4,4,1,2,3), of sample_random 0 7] by blast
  have "length ps = length (map stamp_of ps)" by simp
  also have "\<dots> = 3" unfolding r(5) by simp
  finally have "length (received_by 9 out) = 3" using r(4) by simp
  then show ?thesis using r(1-3) by (intro exI conjI) (simp_all (no_asm_use))
qed

end
