(* ===== verification/Lifecycle.thy ===== *)
theory Lifecycle
  imports Args LayerFrames
begin

section \<open>From the command line to the end: Application, main and the layer's life\<close>

text \<open>
  \<open>mps-emulator.cpp\<close>, \<open>aero/core/application.cpp\<close> and \<open>aero/core/entrypoint.h\<close>: how the
  layer is made from the command line, attached, updated by the main loop and detached, with
  what \<open>shutdown\<close> and \<open>restart\<close> do to the loop.
\<close>

subsection \<open>The application is made from the command line\<close>

text \<open>
  \<open>CreateApplication\<close> with \<open>PushLayer\<close>: the layer that it makes and attaches, or nothing when
  the program is to close; and the text it prints.
\<close>

definition CreateApplication :: "mps_protocol \<Rightarrow> ('g, 'd) random_lib \<Rightarrow> net_env \<Rightarrow> net_env \<Rightarrow> wsa
    \<Rightarrow> string list \<Rightarrow> (('g, 'd) ServerLayer \<times> wsa \<times> layer_event list) option \<times> string" where
  "CreateApplication P R env1 env2 w args =
     (let (opts, out) = ParseAguments P args
      in if opt_should_close opts then (None, out)
         else
           (Some (OnAttach P R env1 env2 w
              (ServerLayer (opt_device_type opts) (opt_bind_ip opts) (opt_port opts) (opt_enable_console opts))),
            out))"

lemma Start_server_fields:
  "Start_server env w s = (s1, w1, ev) \<Longrightarrow>
     m_Connections s1 = m_Connections s \<and> m_ClientConnectCallback s1 = m_ClientConnectCallback s \<and>
     m_ClientDisconnectCallback s1 = m_ClientDisconnectCallback s \<and> m_ServerInfo s1 = m_ServerInfo s \<and>
     m_DataReceivedCallback s1 = m_DataReceivedCallback s \<and> m_DataQueue s1 = m_DataQueue s"
  by (auto simp: Start_server_def start_stream_def enqueue_task_def Let_def split: prod.splits if_splits)

lemma OnAttach_parts:
  fixes L :: "('g, 'd) ServerLayer"
  assumes "OnAttach P R env1 env2 w (ServerLayer dev ip port con) = (L, w1, ev)"
  shows "\<exists>s t. m_Server L = Some s \<and> m_TCPBinaryServer L = Some t \<and>
       m_Device L = Some (Start (Mps P R (attach_config P (inet_pton env1)
         (ServerLayer dev ip port con :: ('g, 'd) ServerLayer)) True True True)) \<and>
       m_Connections s = [] \<and> m_ClientConnectCallback s \<and> m_ClientDisconnectCallback s \<and> m_DataReceivedCallback s \<and>
       m_Connections t = [] \<and> m_ClientConnectCallback t \<and> m_ClientDisconnectCallback t \<and> m_DataReceivedCallback t \<and>
       info_port (m_ServerInfo s) = port \<and> info_port (m_ServerInfo t) = 503 \<and>
       \<not> m_TCPCommandClientConnected L \<and> \<not> m_TCPBinaryCleintConnected L \<and>
       m_ActiveTCPCommandClientId L = 0 \<and> m_ActiveTCPBinaryClientId L = 0 \<and> m_Cmds L = [] \<and>
       m_EnableConsole L = con"
  using assms
  by (auto simp: OnAttach_def ServerLayer_def Let_def Server_def command_info_def binary_info_def
      dest!: Start_server_fields split: prod.splits)

lemma last_octet_of_address:
  assumes "pton (c_str ip) = Some (in_addr a b c d)"
  shows "extract_last_octet_ip pton ip = ucast d"
  using assms last_octet_in_addr by (simp add: extract_last_octet_ip_def ipv4_string_to_network_u32_def)

text \<open>
  Property C25: from the command line to a scanner that works. For a supported type and an
  address to bind, the program starts with a running scanner with the name of that type and the
  last number of the address as serial number, which can be scanned at once for any number of
  frames without leaving defined behaviour; the servers listen on the port given and on 503,
  nobody is connected, and the state is one from which the last client wins.
\<close>

theorem command_line_to_scanner:
  assumes "enums_ok P" and "adc_ok P" and "sizes_ok P"
    and "prog \<notin> option_words" and "opt_bind_ip opts \<notin> option_words" and "\<not> opt_should_close opts"
    and "supported P (uint (opt_device_type opts))"
    and "inet_pton env1 (c_str (opt_bind_ip opts)) = Some (in_addr a b c d)"
    and "heap_ok h"
  shows "\<exists>L w1 ev m s t. CreateApplication P R env1 env2 w (command_line prog opts) = (Some (L, w1, ev), []) \<and>
     m_Device L = Some m \<and> m_Running m \<and>
     m_Name m = ''Virtual-MPS-'' @ show_nat (unat (opt_device_type opts)) @ ''-SN'' @ show_nat (unat d) \<and>
     (\<exists>m1 ev1. StartScan P R t1 t2 m = Inr (m1, ev1) \<and>
        (\<forall>k start frame. is_defined (scan_run P R k start frame m1))) \<and>
     m_Server L = Some s \<and> info_port (m_ServerInfo s) = opt_port opts \<and>
     m_TCPBinaryServer L = Some t \<and> info_port (m_ServerInfo t) = 503 \<and>
     command_inv (blocks h) (L, h) \<and> command_slot (L, h) = None \<and> binary_inv L \<and> binary_slot L = None"
proof -
  let ?L0 = "ServerLayer (opt_device_type opts) (opt_bind_ip opts) (opt_port opts) (opt_enable_console opts)
    :: ('a, 'b) ServerLayer"
  let ?cfg = "attach_config P (inet_pton env1) ?L0"
  let ?m = "Start (Mps P R ?cfg True True True)"
  obtain L w1 ev where L: "OnAttach P R env1 env2 w ?L0 = (L, w1, ev)" by (metis prod_cases3)
  have create: "CreateApplication P R env1 env2 w (command_line prog opts) = (Some (L, w1, ev), [])"
    using command_line_parsed [OF assms(4,5), of P] assms(6) L by (simp add: CreateApplication_def)
  have cfg: "device_id ?cfg = uint (opt_device_type opts)" "scan_rate_hz ?cfg = Num False 10"
    "serial_number ?cfg = ucast d"
    using last_octet_of_address [of "inet_pton env1" "opt_bind_ip opts"] assms(8)
    by (simp_all add: attach_config_def ServerLayer_def)
  have m: "m_cfg ?m = ?cfg" "\<not> m_Scanning ?m" "m_Running ?m"
    "m_Name ?m = device_name (device_id ?cfg) (serial_number ?cfg)"
    by (simp_all add: Start_def Mps_def)
  have "unat d < 2 ^ LENGTH(8)" by (rule unsigned_less)
  then have "unat (ucast d :: u32) = unat d" by (simp add: unsigned_ucast_eq take_bit_nat_eq_self)
  then have name: "m_Name ?m = ''Virtual-MPS-'' @ show_nat (unat (opt_device_type opts)) @ ''-SN'' @ show_nat (unat d)"
    by (simp add: m(4) cfg device_name_def)
  have rate: "usable_rate (scan_rate_hz (m_cfg ?m))" unfolding m(1) cfg(2) by (auto simp: slowest_rate_def)
  have "supported P (device_id (m_cfg ?m))" using assms(7) by (simp add: m(1) cfg(1))
  then obtain m1 ev1 where scan: "StartScan P R t1 t2 ?m = Inr (m1, ev1)" "scan_ok P m1"
    using StartScan_scan_ok [OF assms(3) _ rate m(2), of R t1 t2] by blast
  have "is_defined (scan_run P R k start frame m1)" for k start frame
    by (rule scan_run_defined [OF assms(1-3) scan(2)])
  moreover have "command_inv (blocks h) (L, h)" "command_slot (L, h) = None" "binary_inv L" "binary_slot L = None"
    using OnAttach_parts [OF L] assms(9)
    by (auto simp: command_inv_def command_slot_def binary_inv_def binary_slot_def map_ok_def)
  ultimately show ?thesis using create OnAttach_parts [OF L] m(3) name scan(1) by blast
qed


definition sample_options :: Options where
  "sample_options = \<lparr>opt_device_type = 4264, opt_port = 2323, opt_bind_ip = ''10.0.0.12'',
     opt_should_close = False, opt_enable_console = True\<rparr>"

definition sample_os :: net_env where
  "sample_os = sample_net\<lparr>inet_pton := (\<lambda>ip. if ip = ''10.0.0.12'' then Some (in_addr 10 0 0 12) else None)\<rparr>"

definition no_wsa :: wsa where "no_wsa = \<lparr>s_WSAInstances = 0, s_WSAInitialized = False\<rparr>"

theorem command_line_to_scanner_witness:
  "\<exists>L w1 ev m. CreateApplication sample_protocol sample_random sample_os sample_os no_wsa
       (command_line ''mps'' sample_options) = (Some (L, w1, ev), []) \<and>
     m_Device L = Some m \<and> m_Name m = ''Virtual-MPS-'' @ show_nat 4264 @ ''-SN'' @ show_nat 12"
proof -
  have o: "''mps'' \<notin> option_words" "opt_bind_ip sample_options \<notin> option_words" "\<not> opt_should_close sample_options"
    by (simp_all add: option_words_def sample_options_def)
  have sup: "supported sample_protocol (uint (opt_device_type sample_options))"
    by (simp add: supported_def device_types_def sample_protocol_def sample_options_def)
  have ip: "inet_pton sample_os (c_str (opt_bind_ip sample_options)) = Some (in_addr 10 0 0 12)"
    by (simp add: sample_os_def sample_options_def c_str_def NUL_def)
  have "unat (opt_device_type sample_options) = 4264" "unat (12 :: u8) = 12" by (simp_all add: sample_options_def)
  then show ?thesis
    using command_line_to_scanner [OF sample_enums_ok sample_adc_ok sample_sizes_ok o sup ip sample_heap_ok(1),
        of sample_random sample_os no_wsa] by metis
qed

subsection \<open>Updating\<close>

text \<open>The operating system lets a server with this address start.\<close>

definition os_grants :: "net_env \<Rightarrow> string \<Rightarrow> bool" where
  "os_grants env ip \<longleftrightarrow> wsa_startup_ok env \<and> 0 \<le> bind_rc env \<and> (\<forall>t. new_socket env t \<noteq> INVALID_SOCKET) \<and>
     (ip \<in> {[], ''0.0.0.0''} \<or> inet_pton env (c_str ip) \<noteq> None)"

lemma CreateSocket_granted: "os_grants env ip \<Longrightarrow> \<exists>s'. CreateSocket env s t port ip = (True, s')"
  by (auto simp: os_grants_def CreateSocket_def Let_def)

lemma Start_server_granted:
  assumes "os_grants env (info_bind_ip (m_ServerInfo s))"
  shows "\<exists>s' w' ev. Start_server env w s = (s', w', ev) \<and> m_ServerIsRunning s' \<and>
           s_WSAInstances w' = s_WSAInstances w + 1 \<and> m_Connections s' = m_Connections s"
proof -
  let ?info = "m_ServerInfo s"
  have "wsa_startup_ok env" using assms by (simp add: os_grants_def)
  then have "\<exists>w1 ev1. InitializeNetworking (wsa_startup_ok env) w = (True, w1, ev1) \<and>
      s_WSAInstances w1 = s_WSAInstances w + 1"
    by (cases "s_WSAInitialized w") (simp_all add: InitializeNetworking_def Let_def)
  then obtain w1 ev1 where w1: "InitializeNetworking (wsa_startup_ok env) w = (True, w1, ev1)"
    "s_WSAInstances w1 = s_WSAInstances w + 1" by blast
  obtain a where a: "CreateSocket env (m_ServerSocket s) TCP (info_port ?info) (info_bind_ip ?info) = (True, a)"
    using CreateSocket_granted [OF assms] by blast
  obtain b where b: "CreateSocket env (m_StreamSocket s) UDP (info_port ?info) (info_bind_ip ?info) = (True, b)"
    using CreateSocket_granted [OF assms] by blast
  have "BindSocket env sock" for sock using assms by (simp add: os_grants_def BindSocket_def)
  then show ?thesis using w1 a b
    by (simp add: Start_server_def start_stream_def enqueue_task_def Let_def)
qed

lemma restart_if_down:
  assumes "os_grants env (info_bind_ip (m_ServerInfo s))"
  shows "\<exists>s' w' ev. (if m_ServerIsRunning s then (s, w, []) else Start_server env w s) = (s', w', ev) \<and>
           m_ServerIsRunning s' \<and> m_Connections s' = m_Connections s \<and>
           s_WSAInstances w' = s_WSAInstances w + (if m_ServerIsRunning s then 0 else 1)"
  using Start_server_granted [OF assms, of w] by (cases "m_ServerIsRunning s") auto

text \<open>
  Property C33: the update brings the servers up. As soon as the operating system grants the
  sockets, one update has both servers running, whichever of them was not, with their clients
  as they were and one WinSock instance more for each that was started; every further update
  then changes nothing, whatever the operating system says.
\<close>

theorem update_restarts_servers:
  assumes "m_Server L = Some s" and "m_TCPBinaryServer L = Some t"
    and "os_grants env1 (info_bind_ip (m_ServerInfo s))" and "os_grants env2 (info_bind_ip (m_ServerInfo t))"
  shows "\<exists>s' t' w' ev. OnUpdate env1 env2 w L = Inr (L\<lparr>m_Server := Some s', m_TCPBinaryServer := Some t'\<rparr>, w', ev) \<and>
     m_ServerIsRunning s' \<and> m_ServerIsRunning t' \<and>
     m_Connections s' = m_Connections s \<and> m_Connections t' = m_Connections t \<and>
     s_WSAInstances w' = s_WSAInstances w + (if m_ServerIsRunning s then 0 else 1) + (if m_ServerIsRunning t then 0 else 1) \<and>
     (\<forall>e1 e2. OnUpdate e1 e2 w' (L\<lparr>m_Server := Some s', m_TCPBinaryServer := Some t'\<rparr>) =
        Inr (L\<lparr>m_Server := Some s', m_TCPBinaryServer := Some t'\<rparr>, w', []))"
proof -
  obtain s' w1 ev1 where s': "(if m_ServerIsRunning s then (s, w, []) else Start_server env1 w s) = (s', w1, ev1)"
    "m_ServerIsRunning s'" "m_Connections s' = m_Connections s"
    "s_WSAInstances w1 = s_WSAInstances w + (if m_ServerIsRunning s then 0 else 1)"
    using restart_if_down [OF assms(3), of w] by blast
  obtain t' w2 ev2 where t': "(if m_ServerIsRunning t then (t, w1, []) else Start_server env2 w1 t) = (t', w2, ev2)"
    "m_ServerIsRunning t'" "m_Connections t' = m_Connections t"
    "s_WSAInstances w2 = s_WSAInstances w1 + (if m_ServerIsRunning t then 0 else 1)"
    using restart_if_down [OF assms(4), of w1] by blast
  have "OnUpdate env1 env2 w L = Inr (L\<lparr>m_Server := Some s', m_TCPBinaryServer := Some t'\<rparr>, w2,
      map On_Command ev1 @ map On_Binary ev2)"
    unfolding OnUpdate_def IsRunning_def assms(1,2) deref.simps bind_ub.simps s'(1) Let_def prod.case t'(1) ..
  moreover have "OnUpdate e1 e2 w2 (L\<lparr>m_Server := Some s', m_TCPBinaryServer := Some t'\<rparr>) =
      Inr (L\<lparr>m_Server := Some s', m_TCPBinaryServer := Some t'\<rparr>, w2, [])" for e1 e2
    using s'(2) t'(2) by (simp add: OnUpdate_def IsRunning_def)
  ultimately show ?thesis using s'(2-4) t'(2-4) by (intro exI conjI allI) (assumption | simp)+
qed

theorem update_restarts_servers_witness:
  "\<exists>s' t' w' ev. OnUpdate (sample_os\<lparr>new_socket := (\<lambda>_. 100)\<rparr>) (sample_os\<lparr>new_socket := (\<lambda>_. 100)\<rparr>) no_wsa fresh_layer =
       Inr (fresh_layer\<lparr>m_Server := Some s', m_TCPBinaryServer := Some t'\<rparr>, w', ev) \<and>
     m_ServerIsRunning s' \<and> m_ServerIsRunning t' \<and> s_WSAInstances w' = 2"
proof -
  let ?env = "sample_os\<lparr>new_socket := (\<lambda>_. 100)\<rparr>" and ?s = "with_callbacks (Server sample_info)"
  have "m_Server fresh_layer = Some ?s" "m_TCPBinaryServer fresh_layer = Some ?s"
    by (simp_all add: fresh_layer_def)
  moreover have "os_grants ?env (info_bind_ip (m_ServerInfo ?s))"
    by (simp add: os_grants_def sample_os_def sample_net_def Server_def sample_info_def INVALID_SOCKET_def)
  moreover have "\<not> m_ServerIsRunning ?s" "s_WSAInstances no_wsa = 0" by (simp_all add: Server_def no_wsa_def)
  ultimately show ?thesis
    using update_restarts_servers [of fresh_layer ?s ?s ?env ?env no_wsa] by auto
qed

subsection \<open>Detaching\<close>

lemma Shutdown_idle: "\<not> m_Scanning m \<Longrightarrow> Shutdown P m = (m\<lparr>m_Running := False\<rparr>, [])"
  by (simp add: Shutdown_def StopScan_idle)

lemma Shutdown_events:
  assumes "Shutdown P m = (m1, es)"
  shows "\<not> m_Scanning m1" and "es = [] \<or> es = [Status_Changed]"
  using assms by (auto simp: Shutdown_def StopScan_def notify_def Let_def split: if_splits)

lemma detach_device_eq:
  assumes h: "heap_ok h" and L: "m_Server L = Some s" and c: "connections_ok s"
  shows "\<exists>h' ev. detach_device P L h = Inr (L\<lparr>m_Device := None\<rparr>, h', ev) \<and> blocks h' = blocks h"
proof (cases "m_Device L")
  case None
  have "L\<lparr>m_Device := None\<rparr> = L" by (simp flip: None)
  then show ?thesis using None by (simp add: detach_device_def)
next
  case (Some m)
  obtain m1 es where m1: "Shutdown P m = (m1, es)" by fastforce
  have m2: "Shutdown P m1 = (m1\<lparr>m_Running := False\<rparr>, [])"
    by (rule Shutdown_idle [OF Shutdown_events(1) [OF m1]])
  let ?L1 = "L\<lparr>m_Device := Some m1\<rparr>"
  obtain h1 ev where h1: "OnStatusChanged P ?L1 h = Inr (h1, ev)" "blocks h1 = blocks h"
    using send_string_eq [OF h _ c, of ?L1 "m_ActiveTCPCommandClientId L" prompt] L
    by (cases "m_Status m1 = MPS_STATUS_READY P \<and> m_TCPCommandClientConnected L \<and> m_ActiveTCPCommandClientId L \<noteq> 0")
      (auto simp: OnStatusChanged_def)
  have "\<exists>h1 ev. device_events P es ?L1 h = Inr (?L1, h1, ev) \<and> blocks h1 = blocks h"
    using Shutdown_events(2) [OF m1] h1 by auto
  then show ?thesis using Some m1 m2 by (auto simp: detach_device_def)
qed

lemma stop_and_delete_eq:
  "stop_and_delete w (Some s) =
     (if m_Connections s \<noteq> [] then Inl Invalid_Iterator
      else let (w1, ev1) = CleanupNetworking w; (w2, ev2) = CleanupNetworking w1;
               closed = CloseSocket (socket_fd (m_ServerSocket s)) @ CloseSocket (socket_fd (m_StreamSocket s))
           in Inr (w2, closed @ ev1 @ closed @ ev2))"
  by (cases "m_Connections s") (simp_all add: stop_and_delete_def Stop_def Let_def split: prod.splits)

lemma CleanupNetworking_count:
  "CleanupNetworking w = (v, ev) \<Longrightarrow> s_WSAInstances v = s_WSAInstances w - 1 \<and>
     (s_WSAInstances w \<le> 1 \<longrightarrow> WSA_Cleaned \<in> set ev)"
  by (auto simp: CleanupNetworking_def Let_def split: if_splits)

lemma stop_and_delete_idle:
  assumes "m_Connections s = []"
  shows "\<exists>w1 ev. stop_and_delete w (Some s) = Inr (w1, ev) \<and> s_WSAInstances w1 = s_WSAInstances w - 2 \<and>
           (s_WSAInstances w \<le> 2 \<longrightarrow> WSA_Cleaned \<in> set ev) \<and> Closed (socket_fd (m_ServerSocket s)) \<in> set ev"
proof -
  obtain w1 ev1 where w1: "CleanupNetworking w = (w1, ev1)" by fastforce
  obtain w2 ev2 where w2: "CleanupNetworking w1 = (w2, ev2)" by fastforce
  show ?thesis
    using CleanupNetworking_count [OF w1] CleanupNetworking_count [OF w2] assms
    by (simp add: stop_and_delete_eq w1 w2 CloseSocket_def)
qed

lemma OnDetach_eq:
  assumes "heap_ok h" and "m_Server L = Some s" and "connections_ok s" and "m_TCPBinaryServer L = Some t"
  shows "\<exists>h' ev. blocks h' = blocks h \<and>
     OnDetach P w L h = bind_ub (stop_and_delete w (Some s)) (\<lambda>(w1, ev2).
       bind_ub (stop_and_delete w1 (Some t)) (\<lambda>(w2, ev3).
         Inr (L\<lparr>m_Device := None, m_Server := None, m_TCPBinaryServer := None\<rparr>, w2, h',
              ev @ map On_Command ev2 @ map On_Binary ev3)))"
  using detach_device_eq [OF assms(1-3), of P] assms(2,4) by (fastforce simp: OnDetach_def)

lemma detach_with_clients:
  assumes "heap_ok h" and "m_Server L = Some s" and "connections_ok s" and "m_TCPBinaryServer L = Some t"
    and "m_Connections s \<noteq> [] \<or> m_Connections t \<noteq> []"
  shows "OnDetach P w L h = Inl Invalid_Iterator"
  using OnDetach_eq [OF assms(1-4), of P w] assms(5) by (auto simp: stop_and_delete_eq Let_def split: prod.splits)

lemma detach_without_clients:
  assumes "heap_ok h" and "m_Server L = Some s" and "connections_ok s" and "m_TCPBinaryServer L = Some t"
    and none: "m_Connections s = []" "m_Connections t = []"
  shows "\<exists>w' h' ev ev2 ev3. OnDetach P w L h = Inr (L\<lparr>m_Device := None, m_Server := None, m_TCPBinaryServer := None\<rparr>,
             w', h', ev @ map On_Command ev2 @ map On_Binary ev3) \<and> blocks h' = blocks h \<and>
           s_WSAInstances w' = s_WSAInstances w - 4 \<and>
           (s_WSAInstances w \<le> 2 \<longrightarrow> WSA_Cleaned \<in> set ev2) \<and>
           Closed (socket_fd (m_ServerSocket t)) \<in> set ev3"
proof -
  obtain w1 ev2 where c1: "stop_and_delete w (Some s) = Inr (w1, ev2)" "s_WSAInstances w1 = s_WSAInstances w - 2"
    "s_WSAInstances w \<le> 2 \<longrightarrow> WSA_Cleaned \<in> set ev2"
    using stop_and_delete_idle none by blast
  obtain w2 ev3 where c2: "stop_and_delete w1 (Some t) = Inr (w2, ev3)" "s_WSAInstances w2 = s_WSAInstances w1 - 2"
    "Closed (socket_fd (m_ServerSocket t)) \<in> set ev3"
    using stop_and_delete_idle none by blast
  obtain h' ev where "blocks h' = blocks h" "OnDetach P w L h =
      Inr (L\<lparr>m_Device := None, m_Server := None, m_TCPBinaryServer := None\<rparr>, w2, h',
           ev @ map On_Command ev2 @ map On_Binary ev3)"
    using OnDetach_eq [OF assms(1-4), of P w] by (auto simp: c1(1) c2(1))
  then show ?thesis using c1(2,3) c2(2,3) by (intro exI conjI) (assumption, auto)
qed

lemma shutdown_command:
  assumes "heap_ok h" and "m_Server L = Some s" and "connections_ok s" and "has_control cid L"
  shows "\<exists>h1 ev. OnCommand P R t1 t2 cid (''shutdown'' @ crlf) errno L h =
             Inr (errno, L\<lparr>m_Cmds := map_put cid [] (m_Cmds L)\<rparr>, h1, ev @ [App_Shutdown]) \<and> heap_ok h1"
proof -
  let ?L1 = "L\<lparr>m_Cmds := map_put cid [] (m_Cmds L)\<rparr>"
  let ?say = "''Shuting down server: Requires manually stopping from the server console'' @ crlf"
  have tok: "SplitString (''shutdown'' @ crlf) crlf ! 0 = ''shutdown''" by code_simp
  have line: "build_command (unfinished cid L) (''shutdown'' @ crlf) = (''shutdown'' @ crlf, True)"
    by (simp add: build_command_def)
  have run: "OnCommand P R t1 t2 cid (''shutdown'' @ crlf) errno L h =
      execute_command P R t1 t2 cid ''shutdown'' errno ?L1 h"
    by (rule OnCommand_complete [OF assms(4) line, unfolded tok])
  obtain h2 ev2 where "send_string cid ?say ?L1 h = Inr (h2, ev2)" "heap_ok h2"
    using send_string_eq [OF assms(1) _ assms(3), of ?L1 cid ?say] assms(2) by auto
  then show ?thesis unfolding run using assms(1)
    by (cases "m_EnableConsole L") (auto simp: execute_command_def char0_def CR_def)
qed

text \<open>
  Property C34: shutting down. Detaching the layer leaves defined behaviour exactly if neither
  server has a client. Without clients all goes well except for the WinSock count: each server
  gives its instance back twice (by \<open>Stop\<close> and by the destructor), so that of the two
  instances four are given back, and WinSock is cleaned up when the binary server still runs.
  The command \<open>shutdown\<close> is accepted from the controlling client, which is connected then: if
  it still is when the main loop has ended, detaching is undefined.
\<close>

theorem shutting_down:
  assumes "heap_ok h" and "m_Server L = Some s" and "connections_ok s" and "m_TCPBinaryServer L = Some t"
  shows "is_defined (OnDetach P w L h) = (m_Connections s = [] \<and> m_Connections t = []) \<and>
     (m_Connections s = [] \<and> m_Connections t = [] \<longrightarrow>
        (\<exists>w' h' ev ev2 ev3. OnDetach P w L h = Inr (L\<lparr>m_Device := None, m_Server := None, m_TCPBinaryServer := None\<rparr>,
             w', h', ev @ map On_Command ev2 @ map On_Binary ev3) \<and> blocks h' = blocks h \<and>
           s_WSAInstances w' = s_WSAInstances w - 4 \<and>
           (s_WSAInstances w \<le> 2 \<longrightarrow> WSA_Cleaned \<in> set ev2) \<and>
           Closed (socket_fd (m_ServerSocket t)) \<in> set ev3)) \<and>
     (\<forall>cid t1 t2 R errno. cid \<noteq> 0 \<and> cid = m_ActiveTCPCommandClientId L \<and> IsClientConnected cid s \<longrightarrow>
        (\<exists>e1 L1 h1 ev. OnCommand P R t1 t2 cid (''shutdown'' @ crlf) errno L h = Inr (e1, L1, h1, ev) \<and>
           App_Shutdown \<in> set ev \<and> OnDetach P w L1 h1 = Inl Invalid_Iterator))"
proof (intro conjI impI allI)
  show "is_defined (OnDetach P w L h) = (m_Connections s = [] \<and> m_Connections t = [])"
    using detach_with_clients [OF assms, of P w] detach_without_clients [OF assms, of P w]
    by (metis is_defined_simps)
  show "m_Connections s = [] \<and> m_Connections t = [] \<Longrightarrow>
        \<exists>w' h' ev ev2 ev3. OnDetach P w L h = Inr (L\<lparr>m_Device := None, m_Server := None, m_TCPBinaryServer := None\<rparr>,
             w', h', ev @ map On_Command ev2 @ map On_Binary ev3) \<and> blocks h' = blocks h \<and>
           s_WSAInstances w' = s_WSAInstances w - 4 \<and>
           (s_WSAInstances w \<le> 2 \<longrightarrow> WSA_Cleaned \<in> set ev2) \<and>
           Closed (socket_fd (m_ServerSocket t)) \<in> set ev3"
    using detach_without_clients [OF assms] by blast
next
  fix cid t1 t2 R errno
  assume k: "cid \<noteq> 0 \<and> cid = m_ActiveTCPCommandClientId L \<and> IsClientConnected cid s"
  then have "has_control cid L" by (simp add: has_control_def)
  then obtain h1 ev where e: "OnCommand P R t1 t2 cid (''shutdown'' @ crlf) errno L h =
      Inr (errno, L\<lparr>m_Cmds := map_put cid [] (m_Cmds L)\<rparr>, h1, ev @ [App_Shutdown])" "heap_ok h1"
    using shutdown_command [OF assms(1-3)] by blast
  have "m_Connections s \<noteq> []" using k by (auto simp: IsClientConnected_def)
  then have "OnDetach P w (L\<lparr>m_Cmds := map_put cid [] (m_Cmds L)\<rparr>) h1 = Inl Invalid_Iterator"
    using assms(2,4) by (intro detach_with_clients [OF e(2) _ assms(3)]) simp_all
  then show "\<exists>e1 L1 h1 ev. OnCommand P R t1 t2 cid (''shutdown'' @ crlf) errno L h = Inr (e1, L1, h1, ev) \<and>
           App_Shutdown \<in> set ev \<and> OnDetach P w L1 h1 = Inl Invalid_Iterator"
    using e(1) by auto
qed

theorem shutting_down_witness:
  "\<exists>e1 L1 h1 ev. OnCommand sample_protocol sample_random 0 0 9 (''shutdown'' @ crlf) False sample_layer sample_heap =
       Inr (e1, L1, h1, ev) \<and> App_Shutdown \<in> set ev \<and>
     OnDetach sample_protocol no_wsa L1 h1 = Inl Invalid_Iterator"
proof -
  have k: "(9 :: u64) \<noteq> 0" "IsClientConnected 9 (with_callbacks sample_server)" "connections_ok (with_callbacks sample_server)"
    using sample_connected sample_server_ok by simp_all
  show ?thesis
    using shutting_down [OF sample_heap_ok(1) _ k(3), of sample_layer "with_callbacks sample_server" sample_protocol no_wsa]
      k(1,2) by simp
qed

subsection \<open>The main loop\<close>

text \<open>
  \<open>Application\<close> and \<open>main\<close>: \<open>m_Running\<close> of the application and the global
  \<open>g_ApplicationRunning\<close>. Commands set them from other threads, so what comes in between two
  turns of the loop of \<open>Run\<close> is an argument, as is what comes after the application was made
  and before \<open>Run\<close> starts. A turn updates every layer, which is one.
\<close>

record application =
  m_AppRunning :: bool
  g_ApplicationRunning :: bool

datatype app_request = Restart_Request | Shutdown_Request

definition Restart :: "application \<Rightarrow> application" where
  "Restart a = a\<lparr>m_AppRunning := False\<rparr>"

definition Shutdown_app :: "application \<Rightarrow> application" where
  "Shutdown_app a = (Restart a)\<lparr>g_ApplicationRunning := False\<rparr>"

fun request :: "app_request \<Rightarrow> application \<Rightarrow> application" where
  "request Restart_Request a = Restart a"
| "request Shutdown_Request a = Shutdown_app a"

text \<open>
  The loop of \<open>Run\<close>, whose turns are given by the requests during each; the number of turns,
  and the turns left when it returned (\<open>None\<close> if it runs on).
\<close>

fun run_turns :: "app_request list list \<Rightarrow> application \<Rightarrow> application \<times> nat \<times> app_request list list option" where
  "run_turns [] a = (a, 0, if m_AppRunning a then None else Some [])"
| "run_turns (r # rs) a =
     (if \<not> m_AppRunning a then (a, 0, Some (r # rs))
      else let (a1, n, left) = run_turns rs (fold request r a) in (a1, Suc n, left))"

definition Run :: "app_request list list \<Rightarrow> application \<Rightarrow> application \<times> nat \<times> app_request list list option" where
  "Run rs a = run_turns rs (a\<lparr>m_AppRunning := True\<rparr>)"

text \<open>
  \<open>Main\<close>: how many applications it runs, for lives that are the requests before \<open>Run\<close> and
  those of its turns; \<open>None\<close> if it runs on. \<open>closes\<close> is whether the command line makes
  \<open>CreateApplication\<close> return the null pointer, each time as it is always the same.
\<close>

fun Main :: "bool \<Rightarrow> (app_request list \<times> app_request list list) list \<Rightarrow> application \<Rightarrow> nat \<times> application option" where
  "Main closes lives a =
     (if \<not> g_ApplicationRunning a then (0, Some a)
      else if closes then (0, Some a)
      else case lives of
          [] \<Rightarrow> (0, None)
        | (early, rs) # others \<Rightarrow>
            let (a1, n, left) = Run rs (fold request early (a\<lparr>m_AppRunning := False\<rparr>))
            in case left of
                 None \<Rightarrow> (1, None)
               | Some _ \<Rightarrow> let (k, res) = Main closes others a1 in (Suc k, res))"

declare Main.simps [simp del]

lemma fold_request:
  "m_AppRunning (fold request r a) = (m_AppRunning a \<and> r = [])"
  "g_ApplicationRunning (fold request r a) = (g_ApplicationRunning a \<and> Shutdown_Request \<notin> set r)"
proof (induction r arbitrary: a)
  case (Cons x r)
  { case 1 show ?case using Cons.IH by (cases x) (simp_all add: Restart_def Shutdown_app_def)
  next case 2 show ?case using Cons.IH by (cases x) (auto simp: Restart_def Shutdown_app_def) }
qed simp_all

text \<open>Turns without requests before the first one with some.\<close>

lemma run_turns_quiet:
  assumes "m_AppRunning a" and "\<forall>r \<in> set quiet. r = []"
  shows "run_turns (quiet @ rs) a =
           (let (a1, n, left) = run_turns rs a in (a1, length quiet + n, left))"
  using assms(2) by (induction quiet) (auto simp: assms(1) split: prod.splits)

lemma Run_ends:
  assumes "\<forall>r \<in> set quiet. r = []" and "r \<noteq> []"
  shows "Run (quiet @ r # rs) a = (fold request r (a\<lparr>m_AppRunning := True\<rparr>), Suc (length quiet), Some rs)"
proof -
  let ?a = "a\<lparr>m_AppRunning := True\<rparr>"
  have "\<not> m_AppRunning (fold request r ?a)" using assms(2) by (simp add: fold_request)
  then have "run_turns rs (fold request r ?a) = (fold request r ?a, 0, Some rs)"
    by (cases rs) simp_all
  then show ?thesis using run_turns_quiet [of ?a quiet "r # rs"] assms(1) by (simp add: Run_def)
qed

text \<open>A life that ends in a request.\<close>

definition ends_in :: "app_request list \<Rightarrow> app_request list list \<Rightarrow> bool" where
  "ends_in r rs \<longleftrightarrow> r \<noteq> [] \<and> (\<exists>quiet others. rs = quiet @ r # others \<and> (\<forall>q \<in> set quiet. q = []))"

text \<open>
  Property C31: the main loop ends by requests that come while it runs and by nothing else.
  \<open>Run\<close> returns in the turn with the first request, whatever it is, and not before; without one
  it never does, whatever was requested before \<open>Run\<close> started. A restart that comes so early is
  lost. A shutdown is not: it does not end this \<open>Run\<close>, but the program. After any number of
  lives without a shutdown that end in restarts, the first life with a shutdown, early or as
  the request that ends it, is the last: the program has then made one application per life
  and is over, even if a restart ends that life.
\<close>

theorem main_loop_ends_by_request:
  assumes "g_ApplicationRunning a"
    and "\<forall>(early, rs) \<in> set restarts. Shutdown_Request \<notin> set early \<and>
           (\<exists>r. ends_in r rs \<and> Shutdown_Request \<notin> set r)"
    and "ends_in r rs" and "Shutdown_Request \<in> set early \<union> set r"
  shows "(\<exists>a'. Main False (restarts @ (early, rs) # others) a = (Suc (length restarts), Some a')) \<and>
     (\<exists>n left. snd (Run rs a) = (n, Some left) \<and> rs ! (n - 1) = r \<and> (\<forall>i < n - 1. rs ! i = [])) \<and>
     (\<forall>early turns. snd (snd (Run (replicate turns []) (fold request early a))) = None)"
proof (intro conjI allI)
  show "\<exists>a'. Main False (restarts @ (early, rs) # others) a = (Suc (length restarts), Some a')"
    using assms(1,2)
  proof (induction restarts arbitrary: a)
    case Nil
    obtain quiet rest where rs: "rs = quiet @ r # rest" "\<forall>q \<in> set quiet. q = []" "r \<noteq> []"
      using assms(3) by (auto simp: ends_in_def)
    have "Main False others b = (0, Some b)" if "\<not> g_ApplicationRunning b" for b
      using that by (simp add: Main.simps)
    then show ?case using Nil(1) assms(4)
      by (auto simp: Main.simps [of False "(early, quiet @ r # rest) # others" a] rs(1) Run_ends [OF rs(2,3)] fold_request)
  next
    case (Cons life restarts)
    obtain early1 rs1 r1 quiet rest where l: "life = (early1, rs1)" "rs1 = quiet @ r1 # rest" "\<forall>q \<in> set quiet. q = []"
      "r1 \<noteq> []" "Shutdown_Request \<notin> set r1" "Shutdown_Request \<notin> set early1"
      using Cons.prems(2) by (auto simp: ends_in_def)
    let ?a = "fold request r1 (fold request early1 (a\<lparr>m_AppRunning := False\<rparr>)\<lparr>m_AppRunning := True\<rparr>)"
    obtain a' where "Main False (restarts @ (early, rs) # others) ?a = (Suc (length restarts), Some a')"
      using Cons.IH [of ?a] Cons.prems l(5,6) by (auto simp: fold_request)
    then show ?case using Cons.prems(1)
      by (simp add: Main.simps [of False "(early1, quiet @ r1 # rest) # restarts @ (early, rs) # others" a] l(1,2) Run_ends [OF l(3,4)])
  qed
  obtain quiet rest where rs: "rs = quiet @ r # rest" "\<forall>q \<in> set quiet. q = []" "r \<noteq> []"
    using assms(3) by (auto simp: ends_in_def)
  show "\<exists>n left. snd (Run rs a) = (n, Some left) \<and> rs ! (n - 1) = r \<and> (\<forall>i < n - 1. rs ! i = [])"
    using rs by (auto simp: Run_ends [OF rs(2,3)] nth_append)
  fix early turns
  have "run_turns (replicate turns [] @ []) b = (b, turns, None)" if "m_AppRunning b" for b
    using run_turns_quiet [OF that, of "replicate turns []" "[]"] that by simp
  then show "snd (snd (Run (replicate turns []) (fold request early a))) = None"
    by (simp add: Run_def)
qed

text \<open>A restarted program whose second life is asked to shut down too early and then to restart.\<close>

theorem main_loop_ends_by_request_witness:
  "\<exists>a'. Main False [([Restart_Request], [[], [Restart_Request]]), ([Shutdown_Request], [[], [], [Restart_Request]])]
     \<lparr>m_AppRunning = False, g_ApplicationRunning = True\<rparr> = (2, Some a')"
proof -
  let ?a = "\<lparr>m_AppRunning = False, g_ApplicationRunning = True\<rparr>"
  have "ends_in [Restart_Request] [[], [Restart_Request]]"
    unfolding ends_in_def by (intro conjI exI [of _ "[[]]"] exI [of _ "[]"]) simp_all
  then have r: "\<forall>(early, rs) \<in> set [([Restart_Request], [[], [Restart_Request]])].
      Shutdown_Request \<notin> set early \<and> (\<exists>r. ends_in r rs \<and> Shutdown_Request \<notin> set r)" by auto
  have s: "ends_in [Restart_Request] [[], [], [Restart_Request]]"
    unfolding ends_in_def by (intro conjI exI [of _ "[[], []]"] exI [of _ "[]"]) simp_all
  have "Shutdown_Request \<in> set [Shutdown_Request] \<union> set [Restart_Request]" by simp
  from main_loop_ends_by_request [of ?a, OF _ r s this, of "[]"] show ?thesis by (simp add: numeral_2_eq_2)
qed

end
