(* ===== verification/Sessions.thy ===== *)
theory Sessions
  imports LayerFrames
begin

section \<open>Sessions: what a client or the console says and what comes back\<close>

text \<open>
  The composition of the command server's handler thread, the layer's callbacks and the command
  interpreter of the scanner: a session of the controlling client is a dialogue with the
  scanner, and so is the console. Then the life of connections under the handler threads.
\<close>

subsection \<open>The events of a command\<close>

lemma StartScan_events: "StartScan P R t1 t2 m = Inr (m', ev) \<Longrightarrow> set ev \<subseteq> {Status_Changed}"
  by (auto simp: StartScan_def notify_def Let_def bind_ub_Inr_iff split: if_splits)

lemma ParseCommands_events:
  assumes "ParseCommands P R t1 t2 cmd e m = Inr (s, m', e', ev)"
  shows "set ev \<subseteq> {Status_Changed}"
proof -
  have "set ev \<subseteq> {Status_Changed}" if a: "parse_action P R t1 t2 w e m = Some (Inr (s, m', e', ev))" for w
    using a
  proof (cases rule: parse_action_cases)
    case scan
    then obtain x where "StartScan P R t1 t2 m = Inr x" "ev = snd x" by (cases "StartScan P R t1 t2 m") auto
    then show ?thesis using StartScan_events [of P R t1 t2 m "fst x" "snd x"] by simp
  qed (auto simp: reply_def CalZ_def StopScan_def notify_def Let_def split: if_splits)
  then show ?thesis using assms unfolding ParseCommands_def
    by (cases rule: parse_tokens_cases [of P R t1 t2 "SplitString cmd command_delims" e m cmd])
      (auto simp: invalid_command_def reply_def dest: parse_set_control parse_get_frame parse_list_frame)
qed

text \<open>What the layer tells the controlling client about a change of the scanner's status.\<close>

definition announced :: "mps_protocol \<Rightarrow> ('g, 'd) ServerLayer \<Rightarrow> Server \<Rightarrow> ('g, 'd) mps \<Rightarrow> device_event \<Rightarrow> layer_event list" where
  "announced P L s m e =
     (if m_Status m = MPS_STATUS_READY P \<and> m_TCPCommandClientConnected L \<and> m_ActiveTCPCommandClientId L \<noteq> 0
      then told (m_ActiveTCPCommandClientId L) prompt s else [])"

lemma announced_updates [simp]:
  "announced P (L\<lparr>m_Device := d\<rparr>) = announced P L" "announced P (L\<lparr>m_Cmds := c\<rparr>) = announced P L"
  by (simp_all add: announced_def fun_eq_iff)

lemma status_events:
  assumes "heap_ok h" and "m_Device L = Some m" and "m_Server L = Some s" and "connections_ok s"
    and "set es \<subseteq> {Status_Changed}"
  shows "\<exists>h'. device_events P es L h = Inr (L, h', concat (map (announced P L s m) es)) \<and>
           blocks h' = blocks h \<and> heap_ok h'"
  using assms(1,5)
proof (induction es arbitrary: h)
  case (Cons e es)
  have e: "e = Status_Changed" using Cons.prems(2) by simp
  obtain h1 where h1: "OnStatusChanged P L h = Inr (h1, announced P L s m e)" "blocks h1 = blocks h" "heap_ok h1"
    using OnStatusChanged_routed [OF Cons.prems(1) assms(2-4), of P] by (auto simp: announced_def)
  show ?case using Cons.IH [OF h1(3)] Cons.prems(2) h1 by (auto simp: e)
qed simp

subsection \<open>One command\<close>

text \<open>Commands for the scanner: at least two characters, on one line, and none of the layer's own.\<close>

definition own_commands :: "string set" where
  "own_commands = {''shutdown'', ''SHUTDOWN'', ''restart'', ''RESTART'', ''reboot'', ''REBOOT''}"

definition for_scanner :: "string \<Rightarrow> bool" where
  "for_scanner c \<longleftrightarrow> 2 \<le> length c \<and> CR \<notin> set c \<and> LF \<notin> set c \<and> c \<notin> own_commands"

text \<open>The events of a command whose answer is \<open>resp\<close>, given to \<open>cid\<close>, and that leaves the device \<open>m\<close>.\<close>

definition answered :: "mps_protocol \<Rightarrow> ('g, 'd) ServerLayer \<Rightarrow> u64 \<Rightarrow> Server
    \<Rightarrow> string \<times> ('g, 'd) mps \<times> device_event list \<Rightarrow> layer_event list" where
  "answered P L cid s = (\<lambda>(resp, m, es).
     concat (map (announced P L s m) es) @ (if cid = 0 then [Console_Output (resp @ [LF])] else []) @ told cid resp s)"

lemma answered_updates [simp]:
  "answered P (L\<lparr>m_Device := d\<rparr>) = answered P L" "answered P (L\<lparr>m_Cmds := c\<rparr>) = answered P L"
  by (simp_all add: answered_def fun_eq_iff)

lemma command_executed:
  assumes h: "heap_ok h" and L: "m_Device L = Some m" "m_Server L = Some s" and s: "connections_ok s"
    and t: "for_scanner t" and r: "ParseCommands P R t1 t2 t e m = Inr (resp, m1, e1, es)"
  shows "\<exists>h'. execute_command P R t1 t2 cid t e L h =
       Inr (e1, L\<lparr>m_Device := Some m1\<rparr>, h', answered P L cid s (resp, m1, es)) \<and>
     blocks h' = blocks h \<and> heap_ok h'"
proof -
  let ?L = "L\<lparr>m_Device := Some m1\<rparr>"
  have ne: "t \<noteq> []" "char0 t \<noteq> CR" "t \<notin> own_commands"
    using t by (cases t; auto simp: for_scanner_def char0_def)+
  obtain h1 where h1: "device_events P es ?L h = Inr (?L, h1, concat (map (announced P ?L s m1) es))"
    "blocks h1 = blocks h" "heap_ok h1"
    using status_events [OF h _ _ s ParseCommands_events [OF r], of ?L m1] L by auto
  obtain h2 where h2: "send_string cid resp ?L h1 = Inr (h2, told cid resp s)" "blocks h2 = blocks h1" "heap_ok h2"
    using send_string_eq [OF h1(3) _ s, of ?L] L by auto
  have "execute_command P R t1 t2 cid t e L h = Inr (e1, ?L, h2, answered P L cid s (resp, m1, es))"
    using ne L r h1(1) h2(1)
    by (auto simp: execute_command_def own_commands_def answered_def Let_def)
  then show ?thesis using h1 h2 by auto
qed

lemma command_undefined:
  assumes "m_Device L = Some m" and "for_scanner t" and "ParseCommands P R t1 t2 t e m = Inl u"
  shows "execute_command P R t1 t2 cid t e L h = Inl u"
proof -
  have "t \<noteq> []" "char0 t \<noteq> CR" "t \<notin> own_commands"
    using assms(2) by (cases t; auto simp: for_scanner_def char0_def)+
  then show ?thesis using assms(1,3) by (auto simp: execute_command_def own_commands_def Let_def)
qed

lemma for_scanner_line:
  assumes "for_scanner c"
  shows "SplitString c crlf ! 0 = c" and "SplitString (c @ crlf) crlf ! 0 = c"
    and "build_command old c = (c, True)" and "build_command old (c @ crlf) = (c @ crlf, True)"
proof -
  have d: "x \<notin> set crlf" if "x \<in> set c" for x using that assms by (auto simp: for_scanner_def crlf_def)
  show "SplitString c crlf ! 0 = c" using SplitString_no_delim [OF d] by simp
  have "pieces crlf (c @ crlf) = c # pieces crlf [LF]"
    using pieces_delim [of c crlf CR "[LF]"] d by (simp add: crlf_def)
  moreover have "pieces crlf [LF] = [[], []]" by (simp add: crlf_def)
  ultimately have "SplitString (c @ crlf) crlf = keep [c, [], []]"
    by (simp only: SplitString_kept_pieces kept_pieces_def)
  then show "SplitString (c @ crlf) crlf ! 0 = c" using assms by (auto simp: keep_def for_scanner_def)
  show "build_command old c = (c, True)" "build_command old (c @ crlf) = (c @ crlf, True)"
    using assms by (auto simp: build_command_def for_scanner_def crlf_def)
qed

subsection \<open>A session is a dialogue with the scanner\<close>

text \<open>
  The dialogue: each command, with the readings of the clocks at its time, goes to the command
  interpreter; what it answers, the device it leaves and the status changes are collected.
\<close>

fun dialogue :: "mps_protocol \<Rightarrow> ('g, 'd) random_lib \<Rightarrow> (int \<times> int \<times> string) list \<Rightarrow> bool \<Rightarrow> ('g, 'd) mps
    \<Rightarrow> ub + bool \<times> ('g, 'd) mps \<times> (string \<times> ('g, 'd) mps \<times> device_event list) list" where
  "dialogue P R [] e m = Inr (e, m, [])"
| "dialogue P R ((t1, t2, c) # cs) e m =
     bind_ub (ParseCommands P R t1 t2 c e m) (\<lambda>(resp, m1, e1, es).
     bind_ub (dialogue P R cs e1 m1) (\<lambda>(e2, m2, rs). Inr (e2, m2, (resp, m1, es) # rs)))"

text \<open>The handler thread of a client on the command server, while \<open>recv\<close> gives these answers.\<close>

fun command_session :: "mps_protocol \<Rightarrow> ('g, 'd) random_lib \<Rightarrow> u64 \<Rightarrow> buffer \<Rightarrow> (int \<times> int \<times> received) list \<Rightarrow> bool
    \<Rightarrow> ('g, 'd) ServerLayer \<Rightarrow> heap \<Rightarrow> ub + bool \<times> ('g, 'd) ServerLayer \<times> heap \<times> layer_event list" where
  "command_session P R cid buf [] e L h = Inr (e, L, h, [])"
| "command_session P R cid buf ((t1, t2, r) # rs) e L h =
     bind_ub (command_receive P R t1 t2 cid buf r e L h) (\<lambda>(go, e1, L1, h1, ev1).
       if go then bind_ub (command_session P R cid buf rs e1 L1 h1) (\<lambda>(e2, L2, h2, ev2). Inr (e2, L2, h2, ev1 @ ev2))
       else Inr (e1, L1, h1, ev1))"

definition sent :: "int \<times> int \<times> string \<Rightarrow> int \<times> int \<times> received" where
  "sent = (\<lambda>(t1, t2, c). (t1, t2, Received (bytes_of (c @ crlf))))"

definition after_command :: "u64 \<Rightarrow> ('g, 'd) mps \<Rightarrow> ('g, 'd) ServerLayer \<Rightarrow> ('g, 'd) ServerLayer" where
  "after_command cid m L = L\<lparr>m_Cmds := map_put cid [] (m_Cmds L), m_Device := Some m\<rparr>"

lemma after_command_fields [simp]:
  "m_Device (after_command cid m L) = Some m" "m_Server (after_command cid m L) = m_Server L"
  "m_ActiveTCPCommandClientId (after_command cid m L) = m_ActiveTCPCommandClientId L"
  "m_Cmds (after_command cid m L) = map_put cid [] (m_Cmds L)"
  "announced P (after_command cid m L) = announced P L"
  "answered P (after_command cid m L) = answered P L"
  "has_control k (after_command cid m L) = has_control k L"
  by (simp_all add: after_command_def has_control_def)

lemma after_command_twice:
  "map_ok (m_Cmds L) \<Longrightarrow> after_command cid m' (after_command cid m L) = after_command cid m' L"
  by (simp add: after_command_def smap.put_put)

lemma OnCommand_for_scanner:
  assumes h: "heap_ok h" and L: "m_Device L = Some m" "m_Server L = Some s" and s: "connections_ok s"
    and c: "for_scanner c" "line \<in> {c, c @ crlf}" and k: "has_control cid L"
  shows "case ParseCommands P R t1 t2 c e m of
      Inl u \<Rightarrow> OnCommand P R t1 t2 cid line e L h = Inl u
    | Inr (resp, m1, e1, es) \<Rightarrow> \<exists>h'. OnCommand P R t1 t2 cid line e L h =
          Inr (e1, after_command cid m1 L, h', answered P L cid s (resp, m1, es)) \<and>
        blocks h' = blocks h \<and> heap_ok h'"
proof -
  let ?L = "L\<lparr>m_Cmds := map_put cid [] (m_Cmds L)\<rparr>"
  have run: "OnCommand P R t1 t2 cid line e L h = execute_command P R t1 t2 cid c e ?L h"
    using OnCommand_complete [OF k, of line line] for_scanner_line [OF c(1)] c(2) by auto
  show ?thesis
  proof (cases "ParseCommands P R t1 t2 c e m")
    case (Inl u)
    then show ?thesis using command_undefined [of ?L m c] L c(1) run by simp
  next
    case (Inr r)
    obtain resp m1 e1 es where r: "r = (resp, m1, e1, es)" by (cases r)
    show ?thesis using command_executed [OF h _ _ s c(1), of ?L m] L Inr r run
      by (auto simp: after_command_def)
  qed
qed

lemma command_received:
  assumes h: "heap_ok h" "recv_buffer h buf" and L: "m_Device L = Some m" "m_Server L = Some s"
    and s: "connections_ok s" "m_ServerIsRunning s" "IsClientConnected cid s" "m_DataReceivedCallback s"
    and c: "for_scanner c" "length (c @ crlf) \<le> buf_size buf" and k: "has_control cid L"
  shows "case ParseCommands P R t1 t2 c e m of
      Inl u \<Rightarrow> command_receive P R t1 t2 cid buf (Received (bytes_of (c @ crlf))) e L h = Inl u
    | Inr (resp, m1, e1, es) \<Rightarrow> \<exists>h'. command_receive P R t1 t2 cid buf (Received (bytes_of (c @ crlf))) e L h =
          Inr (True, e1, after_command cid m1 L, h', answered P L cid s (resp, m1, es)) \<and>
        heap_ok h' \<and> recv_buffer h' buf \<and> (\<forall>a. a \<noteq> buf_data buf \<longrightarrow> blocks h' a = blocks h a)"
proof -
  let ?bs = "bytes_of (c @ crlf)"
  have len: "length ?bs \<le> buf_size buf" using c(2) by (simp add: bytes_of_def)
  obtain h2 b h1 where st: "HandleConnectionThread_step cid buf (Received ?bs) s h = Inr (True, h2, Some b)"
    "copied h1 ?bs = (b, h2)" "heap_ok h1" "recv_buffer h1 buf"
    "\<forall>a. a \<noteq> buf_data buf \<longrightarrow> blocks h1 a = blocks h a"
    using handler_step_received [OF h len s(2-4)] by auto
  note k2 = copied_holds [OF st(3,2)]
  have load: "load_bytes (buf_data b) (buf_size b) h2 = Inr ?bs" by (rule load_bytes_holds [OF k2(1)])
  note cmd = OnCommand_for_scanner [OF k2(2) L s(1) c(1) _ k, of "c @ crlf" P R t1 t2 e]
  show ?thesis
  proof (cases "ParseCommands P R t1 t2 c e m")
    case (Inl u)
    then show ?thesis using cmd L(2) st(1) load by (simp add: command_receive_def OnDataReceived_def)
  next
    case (Inr r)
    obtain resp m1 e1 es where r: "r = (resp, m1, e1, es)" by (cases r)
    obtain h3 where h3: "OnCommand P R t1 t2 cid (c @ crlf) e L h2 =
        Inr (e1, after_command cid m1 L, h3, answered P L cid s (resp, m1, es))" "blocks h3 = blocks h2" "heap_ok h3"
      using cmd Inr r by auto
    have b3: "holds h3 b ?bs" using k2(1) h3(2) by (simp add: holds_def)
    let ?h4 = "h3\<lparr>blocks := (blocks h3)(buf_data b := None)\<rparr>"
    have rel: "Release b h3 = Inr (empty_buffer, ?h4)" by (rule Release_eq [OF h3(3) b3])
    have blocks: "blocks ?h4 = blocks h1" using k2(4,5) h3(2) by auto
    then have "recv_buffer ?h4 buf" using st(4) by (simp add: recv_buffer_def)
    moreover have "heap_ok ?h4" by (rule heap_ok_free [OF h3(3)])
    moreover have "command_receive P R t1 t2 cid buf (Received ?bs) e L h =
        Inr (True, e1, after_command cid m1 L, ?h4, answered P L cid s (resp, m1, es))"
      using L(2) st(1) load h3(1) rel by (simp add: command_receive_def OnDataReceived_def)
    ultimately show ?thesis using Inr r blocks st(5) by auto
  qed
qed

lemma session_dialogue:
  assumes s: "m_Server L = Some s" "connections_ok s" "m_ServerIsRunning s" "IsClientConnected cid s"
      "m_DataReceivedCallback s"
    and k: "has_control cid L" and cmds: "map_ok (m_Cmds L)"
    and cs: "\<forall>(t1, t2, c) \<in> set cs. for_scanner c \<and> length c + 2 \<le> buf_size buf"
    and h: "heap_ok h" "recv_buffer h buf" and m: "m_Device L = Some m"
  shows "case dialogue P R cs e m of
      Inl u \<Rightarrow> command_session P R cid buf (map sent cs) e L h = Inl u
    | Inr (e1, m1, rs) \<Rightarrow> \<exists>h'. command_session P R cid buf (map sent cs) e L h =
          Inr (e1, if cs = [] then L else after_command cid m1 L, h', concat (map (answered P L cid s) rs)) \<and>
        (\<forall>a. a \<noteq> buf_data buf \<longrightarrow> blocks h' a = blocks h a)"
  using s(1) k cmds cs h m
proof (induction cs arbitrary: L h m e)
  case (Cons x cs)
  obtain t1 t2 c where x: "x = (t1, t2, c)" by (cases x)
  have c: "for_scanner c" "length (c @ crlf) \<le> buf_size buf"
    using Cons.prems(4) by (auto simp: x crlf_def)
  note rec = command_received [OF Cons.prems(5,6,7,1) s(2-5) c Cons.prems(2), of P R t1 t2 e]
  show ?case
  proof (cases "ParseCommands P R t1 t2 c e m")
    case (Inl u)
    then show ?thesis using rec by (simp add: x sent_def)
  next
    case (Inr r)
    obtain resp m1 e1 es where r: "r = (resp, m1, e1, es)" by (cases r)
    let ?L1 = "after_command cid m1 L"
    obtain h1 where h1: "command_receive P R t1 t2 cid buf (Received (bytes_of (c @ crlf))) e L h =
        Inr (True, e1, ?L1, h1, answered P L cid s (resp, m1, es))" "heap_ok h1" "recv_buffer h1 buf"
      "\<forall>a. a \<noteq> buf_data buf \<longrightarrow> blocks h1 a = blocks h a"
      using rec Inr r by auto
    have step: "command_session P R cid buf (map sent (x # cs)) e L h =
        bind_ub (command_session P R cid buf (map sent cs) e1 ?L1 h1)
          (\<lambda>(e2, L2, h2, ev2). Inr (e2, L2, h2, answered P L cid s (resp, m1, es) @ ev2))"
      using h1(1) by (simp add: x sent_def)
    have IH: "case dialogue P R cs e1 m1 of
        Inl u \<Rightarrow> command_session P R cid buf (map sent cs) e1 ?L1 h1 = Inl u
      | Inr (e2, m2, rs) \<Rightarrow> \<exists>h'. command_session P R cid buf (map sent cs) e1 ?L1 h1 =
            Inr (e2, if cs = [] then ?L1 else after_command cid m2 ?L1, h', concat (map (answered P ?L1 cid s) rs)) \<and>
          (\<forall>a. a \<noteq> buf_data buf \<longrightarrow> blocks h' a = blocks h1 a)"
      using Cons.prems(1-4) smap.ok_put [OF Cons.prems(3)] h1(2,3) by (intro Cons.IH) (auto simp: x)
    have same: "(if cs = [] then ?L1 else after_command cid m2 ?L1) = after_command cid m2 L"
      if "dialogue P R cs e1 m1 = Inr (e2, m2, rs)" for e2 m2 rs
      using that after_command_twice [OF Cons.prems(3)] by auto
    show ?thesis
    proof (cases "dialogue P R cs e1 m1")
      case (Inl u)
      then show ?thesis using Inr IH step by (simp add: x r)
    next
      case D: (Inr d)
      obtain e2 m2 rs where d: "d = (e2, m2, rs)" by (cases d)
      show ?thesis using Inr IH step same D h1(4) by (auto simp: x r d)
    qed
  qed
qed simp

text \<open>
  Property C8: a session is a dialogue with the scanner. When the controlling client sends
  commands, each ended by CR LF and arriving on its own, everything between the socket and the
  scanner is transparent: the device ends as the command interpreter leaves it when given the
  same commands one after the other, the client is told exactly the interpreter's answers, in
  order, each after the prompts for the status changes it made, and nobody else hears of it;
  the session is undefined only where the interpreter is, and no storage is kept. Commands that
  arrive together are outside the statement: of these only the first runs.
\<close>

theorem command_session_is_dialogue:
  assumes "heap_ok h" and "recv_buffer h buf" and "m_Device L = Some m" and "m_Server L = Some s"
    and "connections_ok s" and "m_ServerIsRunning s" and "IsClientConnected cid s" and "m_DataReceivedCallback s"
    and "cid \<noteq> 0" and "cid = m_ActiveTCPCommandClientId L" and "map_ok (m_Cmds L)"
    and "\<forall>(t1, t2, c) \<in> set cs. for_scanner c \<and> length c + 2 \<le> buf_size buf"
  shows "case dialogue P R cs e m of
      Inl u \<Rightarrow> command_session P R cid buf (map sent cs) e L h = Inl u
    | Inr (e1, m1, rs) \<Rightarrow> \<exists>L' h'. command_session P R cid buf (map sent cs) e L h =
          Inr (e1, L', h', concat (map (\<lambda>(resp, m, es). concat (map (announced P L s m) es) @
                 [On_Command (Sent cid (bytes_of resp))]) rs)) \<and>
        m_Device L' = Some m1 \<and> m_Server L' = Some s \<and>
        (\<forall>a. a \<noteq> buf_data buf \<longrightarrow> blocks h' a = blocks h a)"
proof -
  have "answered P L cid s = (\<lambda>(resp, m, es). concat (map (announced P L s m) es) @
      [On_Command (Sent cid (bytes_of resp))])"
    using assms(7,9) by (simp add: answered_def fun_eq_iff)
  moreover have "m1 = m" if "dialogue P R [] e m = Inr (e1, m1, rs)" for e1 m1 rs using that by simp
  moreover have "has_control cid L" using assms(10) by (simp add: has_control_def)
  ultimately show ?thesis
    using session_dialogue [OF assms(4-8) _ assms(11,12,1-3), of P R e] assms(3,4)
    by (auto split: sum.splits prod.splits if_splits)
qed

lemma sample_status:
  "ParseCommands sample_protocol sample_random t1 t2 ''STATUS'' e m =
     Inr (''STATUS: '' @ GetStatusStr sample_protocol m @ prompt, m, e, [])"
proof -
  have "is_word command_delims ''STATUS''" by (simp add: is_word_def command_delims_set char_defs)
  then have "ParseCommands sample_protocol sample_random t1 t2 (words [''STATUS'']) e m =
      parse_tokens sample_protocol sample_random t1 t2 (words [''STATUS'']) [''STATUS''] e m"
    by (intro ParseCommands_words) simp_all
  then show ?thesis by (simp add: dispatch reply_def)
qed

lemma sample_for_scanner: "for_scanner ''STATUS''"
  by (simp add: for_scanner_def own_commands_def char_defs)

theorem command_session_is_dialogue_witness:
  "\<exists>buf h L' h'. command_session sample_protocol sample_random 9 buf
       (map sent [(0, 0, ''STATUS''), (5, 5, ''STATUS'')]) False sample_layer h =
     Inr (False, L', h', [On_Command (Sent 9 (bytes_of (''STATUS: '' @ GetStatusStr sample_protocol
         (sample_device (Num False 10)) @ prompt))),
       On_Command (Sent 9 (bytes_of (''STATUS: '' @ GetStatusStr sample_protocol
         (sample_device (Num False 10)) @ prompt)))])"
proof -
  let ?h = "snd (new_block 16 sample_heap)" and ?b = "\<lparr>buf_data = fresh sample_heap, buf_size = 16\<rparr>"
  let ?cs = "[(0, 0, ''STATUS''), (5, 5, ''STATUS'')] :: (int \<times> int \<times> string) list"
  have h: "heap_ok ?h" "recv_buffer ?h ?b"
    by (rule heap_ok_new [OF sample_heap_ok(1)]) (simp add: recv_buffer_def new_block_def)
  have s: "connections_ok (with_callbacks sample_server)" "m_ServerIsRunning (with_callbacks sample_server)"
    "IsClientConnected 9 (with_callbacks sample_server)" "(9 :: u64) \<noteq> 0" "map_ok (m_Cmds sample_layer)"
    "m_DataReceivedCallback (with_callbacks sample_server)"
    using sample_server_ok sample_connected by (simp_all add: map_ok_def sample_server_def)
  have cs: "\<forall>(t1, t2, c) \<in> set ?cs. for_scanner c \<and> length c + 2 \<le> buf_size ?b"
    using sample_for_scanner by simp
  show ?thesis
    using command_session_is_dialogue [OF h _ _ s(1-3,6,4) _ s(5) cs, of _ sample_protocol sample_random False]
    by (intro exI [of _ ?b] exI [of _ ?h]) (auto simp: sample_status)
qed

subsection \<open>The console commands as the client does\<close>

text \<open>
  Property C15: a command typed at the console acts as the client's. With one client connected,
  a line with a slash and a command for the scanner leaves the scanner and the thread's
  \<open>errno\<close> exactly as that command sent by the client would, and the client receives exactly
  the same; besides, the answer is printed on the terminal. The client's unfinished command is
  untouched, and one is undefined only if the other is.
\<close>

theorem console_commands_as_client:
  assumes "heap_ok h" and "m_Device L = Some m" and "m_Server L = Some s"
    and "slot_conns (Some k) (m_Connections s)" and "k \<noteq> 0" and "k = m_ActiveTCPCommandClientId L"
    and "for_scanner c" and "map_ok (m_Cmds L)"
  shows "case ParseCommands P R t1 t2 c e m of
      Inl u \<Rightarrow> OnConsoleInput P R t1 t2 (CHR ''/'' # c) e L h = Inl u \<and> OnCommand P R t1 t2 k c e L h = Inl u
    | Inr (resp, m1, e1, es) \<Rightarrow> \<exists>L1 L2 h1 h2.
        OnConsoleInput P R t1 t2 (CHR ''/'' # c) e L h =
          Inr (e1, L1, h1, concat (map (announced P L s m1) es) @ [Console_Output (resp @ [LF]), On_Command (Sent k (bytes_of resp))]) \<and>
        OnCommand P R t1 t2 k c e L h = Inr (e1, L2, h2,
          concat (map (announced P L s m1) es) @ [On_Command (Sent k (bytes_of resp))]) \<and>
        m_Device L1 = Some m1 \<and> m_Device L2 = Some m1 \<and> m_Server L1 = m_Server L2 \<and>
        (\<forall>j. j \<noteq> 0 \<longrightarrow> unfinished j L1 = unfinished j L) \<and>
        blocks h1 = blocks h \<and> blocks h2 = blocks h"
proof -
  have ok: "connections_ok s" by (rule slot_conns_ok [OF assms(4)])
  have told: "told 0 r s = [On_Command (Sent k (bytes_of r))]" "told k r s = [On_Command (Sent k (bytes_of r))]" for r
    using assms(4,5) by (auto simp: told_def recipients_def map_keys_def IsClientConnected_def)
  have con: "OnConsoleInput P R t1 t2 (CHR ''/'' # c) e L h = OnCommand P R t1 t2 0 c e L h"
    using assms(7) by (auto simp: OnConsoleInput_def for_scanner_def)
  have ctl: "has_control 0 L" "has_control k L" using assms(6) by (simp_all add: has_control_def)
  note console = OnCommand_for_scanner [OF assms(1-3) ok assms(7) _ ctl(1), of c P R t1 t2 e]
  note client = OnCommand_for_scanner [OF assms(1-3) ok assms(7) _ ctl(2), of c P R t1 t2 e]
  show ?thesis
  proof (cases "ParseCommands P R t1 t2 c e m")
    case (Inl u)
    then show ?thesis using console client con by simp
  next
    case (Inr r)
    obtain resp m1 e1 es where r: "r = (resp, m1, e1, es)" by (cases r)
    obtain h1 h2 where h: "OnCommand P R t1 t2 0 c e L h =
        Inr (e1, after_command 0 m1 L, h1, answered P L 0 s (resp, m1, es))" "blocks h1 = blocks h"
      "OnCommand P R t1 t2 k c e L h = Inr (e1, after_command k m1 L, h2, answered P L k s (resp, m1, es))"
      "blocks h2 = blocks h"
      using console client Inr r by auto
    have u: "unfinished j (after_command 0 m1 L) = unfinished j L" if "j \<noteq> 0" for j
      using that smap.find_put [OF assms(8)] by (simp add: unfinished_def)
    show ?thesis
      unfolding Inr r sum.case prod.case con h(1,3)
      by (intro exI [of _ "after_command 0 m1 L"] exI [of _ "after_command k m1 L"] exI [of _ h1] exI [of _ h2])
        (use told assms(5) u h(2,4) in \<open>simp add: answered_def\<close>)
  qed
qed

definition one_client_layer :: "(nat, bool) ServerLayer" where
  "one_client_layer = sample_layer\<lparr>m_Server := Some (with_callbacks (sample_server\<lparr>m_Connections :=
     [(9, \<lparr>client_id = 9, client_ip = ''10.0.0.9'', client_port = 80\<rparr>)]\<rparr>))\<rparr>"

theorem console_commands_as_client_witness:
  "\<exists>L1 h1. OnConsoleInput sample_protocol sample_random 0 0 ''/STATUS'' False one_client_layer sample_heap =
     Inr (False, L1, h1, [Console_Output (''STATUS: '' @ GetStatusStr sample_protocol (sample_device (Num False 10)) @ prompt @ [LF]),
       On_Command (Sent 9 (bytes_of (''STATUS: '' @ GetStatusStr sample_protocol (sample_device (Num False 10)) @ prompt)))])"
proof -
  let ?s = "with_callbacks (sample_server\<lparr>m_Connections := [(9, \<lparr>client_id = 9, client_ip = ''10.0.0.9'', client_port = 80\<rparr>)]\<rparr>)"
  have L: "m_Device one_client_layer = Some (sample_device (Num False 10))" "m_Server one_client_layer = Some ?s"
    "m_ActiveTCPCommandClientId one_client_layer = 9" "map_ok (m_Cmds one_client_layer)"
    by (simp_all add: one_client_layer_def map_ok_def)
  have c: "slot_conns (Some 9) (m_Connections ?s)" by simp
  show ?thesis
    using console_commands_as_client [OF sample_heap_ok(1) L(1,2) c _ _ sample_for_scanner L(4),
        of sample_protocol sample_random 0 0 False, unfolded sample_status sum.case prod.case] L(3) by fastforce
qed

subsection \<open>How long a connection lives\<close>

text \<open>
  Connections with a number of their own, next to the socket that the operating system gave
  them. \<open>Ends i k\<close> is the end of the handler thread of connection \<open>i\<close>, which may come long
  after its socket was closed; it kicks whoever has the socket \<open>k\<close>.
\<close>

datatype link_event = Arrives nat u64 string u16 | Ends nat u64

fun link_op :: "link_event \<Rightarrow> conn_op" where
  "link_op (Arrives i k ip port) = Peer (Accepted k ip port)"
| "link_op (Ends i k) = Kick k"

text \<open>
  What the operating system and the threads can do when the handlers \<open>A\<close> run: a connection
  arrives with a new number, a handler ends once. \<open>no_reuse\<close> says in addition that a socket
  is not given out again while a handler for it still runs.
\<close>

fun links_ok :: "bool \<Rightarrow> (nat \<times> u64) set \<Rightarrow> link_event list \<Rightarrow> bool" where
  "links_ok no_reuse A [] = True"
| "links_ok no_reuse A (Arrives i k ip port # tr) =
     (k \<noteq> 0 \<and> i \<notin> fst ` A \<and> (no_reuse \<longrightarrow> k \<notin> snd ` A) \<and> links_ok no_reuse (insert (i, k) A) tr)"
| "links_ok no_reuse A (Ends i k # tr) = ((i, k) \<in> A \<and> links_ok no_reuse (A - {(i, k)}) tr)"

text \<open>
  The contract, by the numbers: the last connection to arrive is the client until its own
  handler ends.
\<close>

fun client_link :: "link_event \<Rightarrow> (nat \<times> u64) option \<Rightarrow> (nat \<times> u64) option" where
  "client_link (Arrives i k ip port) c = Some (i, k)"
| "client_link (Ends i k) c = (if c = Some (i, k) then None else c)"

lemma links_valid: "links_ok b A tr \<Longrightarrow> list_all valid_op (map link_op tr)"
  by (induction b A tr rule: links_ok.induct) simp_all

lemma no_reuse_slot:
  "links_ok True A tr \<Longrightarrow> set_option c \<subseteq> A \<Longrightarrow> inj_on snd A \<Longrightarrow>
     fold last_client (map link_op tr) (map_option snd c) = map_option snd (fold client_link tr c)"
proof (induction tr arbitrary: A c)
  case (Cons e tr)
  show ?case
  proof (cases e)
    case (Arrives i k ip port)
    then have "k \<notin> snd ` A" using Cons.prems(1) by simp
    then have "inj_on snd (insert (i, k) A)" using Cons.prems(3) by force
    then show ?thesis using Cons.IH [of "insert (i, k) A" "Some (i, k)"] Cons.prems(1) Arrives by simp
  next
    case (Ends i k)
    have ik: "(i, k) \<in> A" using Ends Cons.prems(1) by simp
    have "a = i" if "c = Some (a, k)" for a
      using inj_onD [OF Cons.prems(3), of "(a, k)" "(i, k)"] ik Cons.prems(2) that by simp
    note same = this
    have "last_client (Kick k) (map_option snd c) = map_option snd (client_link (Ends i k) c)"
    proof (cases c)
      case (Some x)
      then show ?thesis using same [of "fst x"] by (cases x; cases "snd x = k") simp_all
    qed simp
    moreover have "set_option (client_link (Ends i k) c) \<subseteq> A - {(i, k)}"
      using Cons.prems(2) by (auto split: if_splits)
    ultimately show ?thesis
      using Cons.IH [of "A - {(i, k)}" "client_link (Ends i k) c"] Cons.prems(1,3) Ends
      by (auto simp: inj_on_diff)
  qed
qed simp

text \<open>
  Property C16: how long a connection lives. As long as the operating system does not give out
  a socket again while the handler of an earlier connection on it still runs, on both servers
  exactly the last connection to arrive is the client, until its own handler ends: no other
  connection's end, however late, disconnects it. Without that, it does: a connection that
  gets the socket of one that was kicked is disconnected when the kicked one's handler ends.
\<close>

theorem connections_end_by_themselves:
  assumes "command_inv (blocks h) (L, h)" and "command_slot (L, h) = None"
    and "binary_inv L" and "binary_slot L = None"
  shows "(links_ok True {} tr \<longrightarrow>
       (\<exists>s' ev L2 ev2. slot_run command_step (map link_op tr) (L, h) = Inr (s', ev) \<and>
          slot_run binary_step (map link_op tr) L = Inr (L2, ev2) \<and>
          command_slot s' = map_option snd (fold client_link tr None) \<and>
          binary_slot L2 = map_option snd (fold client_link tr None))) \<and>
     (\<forall>k k' ip port. k \<noteq> 0 \<and> k' \<noteq> 0 \<and> k \<noteq> k' \<longrightarrow>
       (let tr = [Arrives 0 k ip port, Arrives 1 k' ip port, Arrives 2 k ip port, Ends 0 k]
        in links_ok False {} tr \<and> fold client_link tr None = Some (2, k) \<and>
           (\<exists>s' ev. slot_run command_step (map link_op tr) (L, h) = Inr (s', ev) \<and> command_slot s' = None)))"
proof -
  have run: "\<exists>s' ev L2 ev2. slot_run command_step (map link_op tr) (L, h) = Inr (s', ev) \<and>
          slot_run binary_step (map link_op tr) L = Inr (L2, ev2) \<and>
          command_slot s' = fold last_client (map link_op tr) None \<and>
          binary_slot L2 = fold last_client (map link_op tr) None" if "links_ok b {} tr" for b tr
    using command.run [OF assms(1) links_valid [OF that]] binary.run [OF assms(3) links_valid [OF that]]
      assms(2,4) by auto
  show ?thesis
  proof (intro conjI impI allI)
    assume ok: "links_ok True {} tr"
    have "fold last_client (map link_op tr) None = map_option snd (fold client_link tr None)"
      using no_reuse_slot [OF ok, of None] by simp
    with run [OF ok] show "\<exists>s' ev L2 ev2. slot_run command_step (map link_op tr) (L, h) = Inr (s', ev) \<and>
          slot_run binary_step (map link_op tr) L = Inr (L2, ev2) \<and>
          command_slot s' = map_option snd (fold client_link tr None) \<and>
          binary_slot L2 = map_option snd (fold client_link tr None)" by simp
  next
    fix k k' :: u64 and ip port
    assume k: "k \<noteq> 0 \<and> k' \<noteq> 0 \<and> k \<noteq> k'"
    let ?tr = "[Arrives 0 k ip port, Arrives 1 k' ip port, Arrives 2 k ip port, Ends 0 k]"
    have ok: "links_ok False {} ?tr" using k by simp
    have "fold last_client (map link_op ?tr) None = None" by simp
    with run [OF ok] have "\<exists>s' ev. slot_run command_step (map link_op ?tr) (L, h) = Inr (s', ev) \<and>
        command_slot s' = None" by metis
    with ok show "let tr = ?tr in links_ok False {} tr \<and> fold client_link tr None = Some (2, k) \<and>
           (\<exists>s' ev. slot_run command_step (map link_op tr) (L, h) = Inr (s', ev) \<and> command_slot s' = None)"
      unfolding Let_def by (intro conjI) simp_all
  qed
qed

theorem connections_end_by_themselves_witness:
  "\<exists>s' ev. slot_run command_step (map link_op [Arrives 0 7 ''10.0.0.9'' 80, Arrives 1 8 ''10.0.0.4'' 80,
       Ends 0 7, Arrives 2 7 ''10.0.0.9'' 81]) (fresh_layer, sample_heap) = Inr (s', ev) \<and> command_slot s' = Some 7"
proof -
  have s: "command_slot (fresh_layer, sample_heap) = None" "binary_slot fresh_layer = None"
    by (simp_all add: command_slot_def binary_slot_def fresh_layer_def ServerLayer_def)
  show ?thesis
    using connections_end_by_themselves [OF fresh_layer_inv(1) s(1) fresh_layer_inv(2) s(2),
        THEN conjunct1, of "[Arrives 0 7 ''10.0.0.9'' 80, Arrives 1 8 ''10.0.0.4'' 80,
       Ends 0 7, Arrives 2 7 ''10.0.0.9'' 81]"] by auto
qed

end
