(* ===== verification/Console.thy ===== *)
theory Console
  imports Prelude
begin

section \<open>console.cpp: the console's input thread and its owner\<close>

text \<open>
  Class \<open>Console\<close>: a thread that reads lines from the standard input and hands them to a
  callback, and the owner that makes the console, sets the callback and destroys it. Both run
  on two plain members, \<open>m_InputThreadRunning\<close> and \<open>m_MessageCallback\<close>, without a lock; here
  every access is a step of its own. The member \<open>m_InputThread\<close> is a \<open>std::jthread\<close>, whose
  destructor waits for the thread after the body of \<open>~Console\<close>. (The other members are destroyed
  before it; that the thread may look at them then is read as the callback being null.) A call
  of the callback is one step; what it does in the layer is \<open>OnConsoleInput\<close>.
\<close>

subsection \<open>The two threads\<close>

text \<open>
  The input thread: before its first statement, at the test of the loop, in \<open>getline\<close>, with a
  line at the test of the callback, at the call, at its end, and when the call of a callback
  that is null has thrown, which terminates the program. The owner: before and after it set
  the callback, in the destructor with the flag cleared, with the callback cleared, and done.
\<close>

datatype input_pc =
    In_Begin | In_Test | In_Getline | In_Line string | In_Call string | In_End | In_Terminated

datatype owner_pc = Own_Constructed | Own_Alive | Own_Prompted | Own_Joining | Own_Gone

text \<open>
  \<open>typed\<close> are the lines that the standard input still has, and \<open>at_eof\<close> whether it has been
  closed: \<open>getline\<close> then gives empty lines without waiting. \<open>taken\<close> and \<open>delivered\<close> record
  the lines read and the lines that the callback was called with.
\<close>

record console =
  m_InputThreadRunning :: bool
  m_MessageCallback :: bool
  in_at :: input_pc
  owner_at :: owner_pc
  typed :: "string list"
  at_eof :: bool
  taken :: "string list"
  delivered :: "string list"

definition Console :: console where
  "Console = \<lparr>m_InputThreadRunning = False, m_MessageCallback = False, in_at = In_Begin,
     owner_at = Own_Constructed, typed = [], at_eof = False, taken = [], delivered = []\<rparr>"

text \<open>\<open>InputThreadFn\<close>; \<open>None\<close> when the thread waits for a line or has ended.\<close>

fun input_step :: "console \<Rightarrow> console option" where
  "input_step c =
     (case in_at c of
        In_Begin \<Rightarrow> Some (c\<lparr>m_InputThreadRunning := True, in_at := In_Test\<rparr>)
      | In_Test \<Rightarrow> Some (c\<lparr>in_at := (if m_InputThreadRunning c then In_Getline else In_End)\<rparr>)
      | In_Getline \<Rightarrow>
          (case typed c of
             line # rest \<Rightarrow> Some (c\<lparr>typed := rest, taken := taken c @ [line], in_at := In_Line line\<rparr>)
           | [] \<Rightarrow> if at_eof c then Some (c\<lparr>taken := taken c @ [[]], in_at := In_Line []\<rparr>) else None)
      | In_Line line \<Rightarrow> Some (c\<lparr>in_at := (if m_MessageCallback c then In_Call line else In_Test)\<rparr>)
      | In_Call line \<Rightarrow>
          Some (if m_MessageCallback c then c\<lparr>delivered := delivered c @ [line], in_at := In_Test\<rparr>
                else c\<lparr>in_at := In_Terminated\<rparr>)
      | In_End \<Rightarrow> None
      | In_Terminated \<Rightarrow> None)"

text \<open>\<open>SetMessageCallback\<close>, the destructor, and the join of the thread.\<close>

fun owner_step :: "console \<Rightarrow> console option" where
  "owner_step c =
     (case owner_at c of
        Own_Constructed \<Rightarrow> Some (c\<lparr>m_MessageCallback := True, owner_at := Own_Alive\<rparr>)
      | Own_Alive \<Rightarrow> Some (c\<lparr>m_InputThreadRunning := False, owner_at := Own_Prompted\<rparr>)
      | Own_Prompted \<Rightarrow> Some (c\<lparr>m_MessageCallback := False, owner_at := Own_Joining\<rparr>)
      | Own_Joining \<Rightarrow> if in_at c = In_End then Some (c\<lparr>owner_at := Own_Gone\<rparr>) else None
      | Own_Gone \<Rightarrow> None)"

declare input_step.simps [simp del] owner_step.simps [simp del]

inductive console_step :: "console \<Rightarrow> console \<Rightarrow> bool" where
  input: "input_step c = Some d \<Longrightarrow> console_step c d"
| owner: "in_at c \<noteq> In_Terminated \<Longrightarrow> owner_step c = Some d \<Longrightarrow> console_step c d"
| types: "\<not> at_eof c \<Longrightarrow> console_step c (c\<lparr>typed := typed c @ [line]\<rparr>)"
| closes: "console_step c (c\<lparr>at_eof := True\<rparr>)"

definition in_hand :: "console \<Rightarrow> string list" where
  "in_hand c = (case in_at c of In_Line line \<Rightarrow> [line] | In_Call line \<Rightarrow> [line] | _ \<Rightarrow> [])"

lemma input_step_cases:
  assumes "input_step c = Some d"
  obtains (starts) "in_at c = In_Begin" "d = c\<lparr>m_InputThreadRunning := True, in_at := In_Test\<rparr>"
  | (test) "in_at c = In_Test" "d = c\<lparr>in_at := (if m_InputThreadRunning c then In_Getline else In_End)\<rparr>"
  | (line) line rest where "in_at c = In_Getline" "typed c = line # rest"
      "d = c\<lparr>typed := rest, taken := taken c @ [line], in_at := In_Line line\<rparr>"
  | (eof) "in_at c = In_Getline" "typed c = []" "at_eof c" "d = c\<lparr>taken := taken c @ [[]], in_at := In_Line []\<rparr>"
  | (got) line where "in_at c = In_Line line" "d = c\<lparr>in_at := (if m_MessageCallback c then In_Call line else In_Test)\<rparr>"
  | (call) line where "in_at c = In_Call line" "m_MessageCallback c"
      "d = c\<lparr>delivered := delivered c @ [line], in_at := In_Test\<rparr>"
  | (throws) line where "in_at c = In_Call line" "\<not> m_MessageCallback c" "d = c\<lparr>in_at := In_Terminated\<rparr>"
  using assms
  by (auto simp: input_step.simps split: input_pc.splits list.splits if_splits)

lemma owner_step_cases:
  assumes "owner_step c = Some d"
  obtains (set) "owner_at c = Own_Constructed" "d = c\<lparr>m_MessageCallback := True, owner_at := Own_Alive\<rparr>"
  | (destroy) "owner_at c = Own_Alive" "d = c\<lparr>m_InputThreadRunning := False, owner_at := Own_Prompted\<rparr>"
  | (clear) "owner_at c = Own_Prompted" "d = c\<lparr>m_MessageCallback := False, owner_at := Own_Joining\<rparr>"
  | (join) "owner_at c = Own_Joining" "in_at c = In_End" "d = c\<lparr>owner_at := Own_Gone\<rparr>"
  using assms by (auto simp: owner_step.simps split: owner_pc.splits if_splits)

subsection \<open>What holds in every state\<close>

text \<open>
  The callback is there from \<open>SetMessageCallback\<close> until the destructor clears it. Until the
  destructor clears the flag, the flag says that the thread has begun; the thread ends only
  after that, and the owner is done only when the thread has ended.
\<close>

definition console_inv :: "console \<Rightarrow> bool" where
  "console_inv c \<longleftrightarrow>
     m_MessageCallback c = (owner_at c \<in> {Own_Alive, Own_Prompted}) \<and>
     (owner_at c \<in> {Own_Constructed, Own_Alive} \<longrightarrow>
        m_InputThreadRunning c = (in_at c \<noteq> In_Begin) \<and> in_at c \<noteq> In_End) \<and>
     (owner_at c = Own_Gone \<longrightarrow> in_at c = In_End) \<and>
     (in_at c = In_End \<longrightarrow> \<not> m_InputThreadRunning c) \<and>
     (in_at c = In_Begin \<longrightarrow> \<not> m_InputThreadRunning c) \<and>
     ((\<exists>line. in_at c = In_Call line) \<longrightarrow> owner_at c \<noteq> Own_Constructed) \<and>
     (in_at c = In_Terminated \<longrightarrow> owner_at c = Own_Joining)"

lemma console_inv_step:
  assumes inv: "console_inv c" and step: "console_step c d"
  shows "console_inv d"
  using step
proof cases
  case input
  then show ?thesis using inv
    by (cases rule: input_step_cases; cases "owner_at c") (auto simp: console_inv_def split: if_splits)
next
  case owner
  from owner(2) show ?thesis using inv owner(1)
    by (cases rule: owner_step_cases) (auto simp: console_inv_def)
qed (use inv in \<open>auto simp: console_inv_def\<close>)

interpretation console: invariant_system "\<lambda>c. c = Console" console_step console_inv
proof
  show "console_inv c" if "c = Console" for c using that by (simp add: console_inv_def Console_def)
qed (rule console_inv_step)

subsection \<open>Every line is handed on, once and in order\<close>

lemma reach_console_inv: "reach (\<lambda>c. c = Console) console_step c \<Longrightarrow> console_inv c"
  by (rule console.reach_inv)

definition lines_follow :: "console \<Rightarrow> console \<Rightarrow> bool" where
  "lines_follow c d \<longleftrightarrow> (\<exists>ls. taken d = taken c @ ls \<and>
     delivered d @ in_hand d = delivered c @ in_hand c @ ls) \<and>
     (\<not> at_eof d \<longrightarrow> (\<exists>us. taken d @ typed d = taken c @ typed c @ us))"

lemma lines_follow_refl: "lines_follow c c"
  by (simp add: lines_follow_def)

lemma lines_follow_trans:
  assumes "lines_follow b c" and "lines_follow c d" and "at_eof c \<Longrightarrow> at_eof d"
  shows "lines_follow b d"
proof -
  obtain ls ms where "taken c = taken b @ ls" "delivered c @ in_hand c = delivered b @ in_hand b @ ls"
    "taken d = taken c @ ms" "delivered d @ in_hand d = delivered c @ in_hand c @ ms"
    using assms(1,2) unfolding lines_follow_def by blast
  then have "taken d = taken b @ ls @ ms \<and> delivered d @ in_hand d = delivered b @ in_hand b @ ls @ ms"
    by (metis append.assoc)
  moreover have "\<exists>us. taken d @ typed d = taken b @ typed b @ us" if "\<not> at_eof d"
    using assms that unfolding lines_follow_def by (metis append.assoc)
  ultimately show ?thesis unfolding lines_follow_def by blast
qed

lemma console_step_owner:
  assumes "console_step c d"
  shows "at_eof c \<Longrightarrow> at_eof d" and "owner_at d \<noteq> Own_Constructed \<or> owner_at c = Own_Constructed"
    and "owner_at d \<in> {Own_Alive, Own_Prompted} \<Longrightarrow> owner_at c \<in> {Own_Constructed, Own_Alive, Own_Prompted}"
  using assms by (cases; auto elim!: input_step_cases owner_step_cases)+

lemma step_lines_follow:
  assumes inv: "console_inv c" and c: "owner_at c \<in> {Own_Alive, Own_Prompted}"
    and step: "console_step c d"
  shows "lines_follow c d"
  using step
proof cases
  case input
  then show ?thesis using inv c
    by (cases rule: input_step_cases) (auto simp: lines_follow_def in_hand_def console_inv_def)
next
  case owner
  from owner(2) show ?thesis
    by (cases rule: owner_step_cases) (auto simp: lines_follow_def in_hand_def)
qed (auto simp: lines_follow_def in_hand_def)

text \<open>
  Property C17: the console hands on what is typed. From the moment the callback is set until
  the destructor clears it, whatever the owner and the terminal do in between, every line that
  the thread reads is handed to the callback, once and in the order of reading, up to the line
  that it has in hand; and the lines are read in the order in which they were typed.
\<close>

theorem console_hands_on_lines:
  assumes "reach (\<lambda>c. c = Console) console_step c" and "owner_at c \<in> {Own_Alive, Own_Prompted}"
    and "console_step\<^sup>*\<^sup>* c d" and "owner_at d \<in> {Own_Alive, Own_Prompted}"
  shows "(\<exists>ls. taken d = taken c @ ls \<and> delivered d @ in_hand d = delivered c @ in_hand c @ ls) \<and>
     (\<not> at_eof d \<longrightarrow> (\<exists>us. taken d @ typed d = taken c @ typed c @ us))"
proof -
  have "owner_at d \<noteq> Own_Constructed \<and> (owner_at d \<in> {Own_Alive, Own_Prompted} \<longrightarrow> lines_follow c d)"
    using assms(3)
  proof (induction rule: rtranclp_induct)
    case base
    then show ?case using assms(2) by (auto simp: lines_follow_refl)
  next
    case (step d e)
    have inv: "console_inv d"
      using console.steps_inv [OF step.hyps(1)] reach_console_inv [OF assms(1)] .
    show ?case
      using step.IH console_step_owner [OF step.hyps(2)] step_lines_follow [OF inv _ step.hyps(2)]
        lines_follow_trans [of c d e] by auto
  qed
  then have "lines_follow c d" using assms(4) by blast
  then show ?thesis by (simp add: lines_follow_def)
qed

theorem console_hands_on_lines_witness:
  "\<exists>c d. owner_at c = Own_Alive \<and> console_step\<^sup>*\<^sup>* c d \<and> taken d = [''/STATUS''] \<and>
     delivered d @ in_hand d = [''/STATUS'']"
proof -
  let ?c = "Console\<lparr>m_MessageCallback := True, owner_at := Own_Alive\<rparr>"
  let ?c1 = "?c\<lparr>typed := [''/STATUS'']\<rparr>" and ?c2 = "?c\<lparr>typed := [''/STATUS''], m_InputThreadRunning := True, in_at := In_Test\<rparr>"
  let ?c3 = "?c2\<lparr>in_at := In_Getline\<rparr>"
  let ?d = "?c3\<lparr>typed := [], taken := [''/STATUS''], in_at := In_Line ''/STATUS''\<rparr>"
  have init: "reach (\<lambda>c. c = Console) console_step Console" by (rule reach_init) simp
  have s0: "console_step Console ?c" by (rule console_step.owner) (simp_all add: owner_step.simps Console_def)
  have s1: "console_step ?c ?c1" using console_step.types [of ?c "''/STATUS''"] by (simp add: Console_def)
  have s2: "console_step ?c1 ?c2" by (rule console_step.input) (simp add: input_step.simps Console_def)
  have s3: "console_step ?c2 ?c3" by (rule console_step.input) (simp add: input_step.simps Console_def)
  have s4: "console_step ?c3 ?d" by (rule console_step.input) (simp add: input_step.simps Console_def)
  have r: "reach (\<lambda>c. c = Console) console_step ?c" by (rule reach_step [OF init s0])
  have run: "console_step\<^sup>*\<^sup>* ?c ?d"
    by (rule r_into_rtranclp [of console_step, OF s1, THEN rtranclp.rtrancl_into_rtrancl, OF s2,
        THEN rtranclp.rtrancl_into_rtrancl, OF s3, THEN rtranclp.rtrancl_into_rtrancl, OF s4])
  have "\<exists>ls. taken ?d = taken ?c @ ls \<and> delivered ?d @ in_hand ?d = delivered ?c @ in_hand ?c @ ls"
    using console_hands_on_lines [OF r _ run] by simp
  then have "delivered ?d @ in_hand ?d = [''/STATUS'']" by (simp add: Console_def in_hand_def)
  with run show ?thesis by (intro exI [of _ ?c] exI [of _ ?d]) simp
qed

subsection \<open>How the console ends\<close>

text \<open>
  The thread has not begun when the destructor clears the flag, and sets it again, or has set
  it again already.
\<close>

definition late_start :: "console \<Rightarrow> bool" where
  "late_start c \<longleftrightarrow> in_at c = In_Begin \<or> m_InputThreadRunning c"

text \<open>The input thread alone, for at most \<open>n\<close> steps.\<close>

fun input_run :: "nat \<Rightarrow> console \<Rightarrow> console" where
  "input_run 0 c = c"
| "input_run (Suc n) c = (case input_step c of None \<Rightarrow> c | Some d \<Rightarrow> input_run n d)"

definition closing :: "console \<Rightarrow> bool" where
  "closing c \<longleftrightarrow> console_inv c \<and> owner_at c \<in> {Own_Prompted, Own_Joining, Own_Gone}"

lemma closing_step:
  assumes "closing c" and "console_step c d"
  shows "closing d" and "late_start d = late_start c"
    and "\<not> late_start c \<Longrightarrow> length (taken d) + (if in_at d = In_Getline then 1 else 0)
           \<le> length (taken c) + (if in_at c = In_Getline then 1 else 0)"
proof -
  have inv: "console_inv c" "console_inv d" and own: "owner_at c \<in> {Own_Prompted, Own_Joining, Own_Gone}"
    using assms console_inv_step by (auto simp: closing_def)
  have "owner_at d \<in> {Own_Prompted, Own_Joining, Own_Gone} \<and> late_start d = late_start c \<and>
      (\<not> late_start c \<longrightarrow> length (taken d) + (if in_at d = In_Getline then 1 else 0)
           \<le> length (taken c) + (if in_at c = In_Getline then 1 else 0))"
    using assms(2)
  proof cases
    case input
    then show ?thesis using own
      by (cases rule: input_step_cases) (auto simp: late_start_def split: if_splits)
  next
    case owner
    from owner(2) show ?thesis using own by (cases rule: owner_step_cases) (auto simp: late_start_def)
  qed (use own in \<open>auto simp: late_start_def\<close>)
  then show "closing d" "late_start d = late_start c"
    "\<not> late_start c \<Longrightarrow> length (taken d) + (if in_at d = In_Getline then 1 else 0)
           \<le> length (taken c) + (if in_at c = In_Getline then 1 else 0)"
    using inv(2) by (simp_all add: closing_def)
qed

lemma closing_steps:
  assumes "console_step\<^sup>*\<^sup>* c d" and "closing c"
  shows "closing d \<and> late_start d = late_start c \<and>
    (\<not> late_start c \<longrightarrow> length (taken d) + (if in_at d = In_Getline then 1 else 0)
           \<le> length (taken c) + (if in_at c = In_Getline then 1 else 0))"
  using assms
proof (induction rule: rtranclp_induct)
  case (step d e)
  then show ?case using closing_step [OF _ step.hyps(2)] by (meson order_trans)
qed simp

lemma joining_thread_ends:
  assumes "console_inv c" and "owner_at c = Own_Joining" and "\<not> late_start c" and "typed c \<noteq> [] \<or> at_eof c"
    and "in_at c \<noteq> In_Terminated" and "\<forall>line. in_at c \<noteq> In_Call line"
  shows "in_at (input_run 3 c) = In_End"
proof -
  have "in_at (input_run (Suc (Suc (Suc 0))) c) = In_End"
    using assms by (cases "in_at c")
      (auto simp: console_inv_def late_start_def input_step.simps split: list.splits)
  then show ?thesis by (simp only: numeral_3_eq_3)
qed

text \<open>
  Property C18: how the console ends. If the thread had begun when the destructor cleared the
  flag, it reads at most one more line, whatever happens; while none is typed the destructor
  waits, and with one (or at the end of the input) three steps of the thread end it, unless it
  was about to call the callback when the destructor took it away: then the call throws and
  the program terminates. If the thread had not begun, it sets the flag again, and the
  destructor never returns.
\<close>

theorem console_destruction:
  assumes "reach (\<lambda>c. c = Console) console_step c" and "owner_at c \<in> {Own_Prompted, Own_Joining}"
  shows "(late_start c \<longrightarrow> (\<forall>d. console_step\<^sup>*\<^sup>* c d \<longrightarrow> owner_at d \<noteq> Own_Gone)) \<and>
     (\<not> late_start c \<longrightarrow> (\<forall>d. console_step\<^sup>*\<^sup>* c d \<longrightarrow> length (taken d) \<le> length (taken c) + 1)) \<and>
     (\<not> late_start c \<and> owner_at c = Own_Joining \<and> in_at c \<noteq> In_Terminated \<longrightarrow>
        (if \<exists>line. in_at c = In_Call line then in_at (input_run 1 c) = In_Terminated
         else if in_at c = In_Getline \<and> typed c = [] \<and> \<not> at_eof c then input_step c = None \<and> owner_step c = None
         else in_at (input_run 3 c) = In_End))"
proof (intro conjI impI allI)
  have closing: "closing c" using reach_console_inv [OF assms(1)] assms(2) by (auto simp: closing_def)
  show "owner_at d \<noteq> Own_Gone" if "late_start c" "console_step\<^sup>*\<^sup>* c d" for d
    using closing_steps [OF that(2) closing] that(1) by (auto simp: closing_def late_start_def console_inv_def)
  show "length (taken d) \<le> length (taken c) + 1" if "\<not> late_start c" "console_step\<^sup>*\<^sup>* c d" for d
    using closing_steps [OF that(2) closing] that(1) by (auto split: if_splits)
  assume a: "\<not> late_start c \<and> owner_at c = Own_Joining \<and> in_at c \<noteq> In_Terminated"
  have inv: "console_inv c" using closing by (simp add: closing_def)
  show "if \<exists>line. in_at c = In_Call line then in_at (input_run 1 c) = In_Terminated
         else if in_at c = In_Getline \<and> typed c = [] \<and> \<not> at_eof c then input_step c = None \<and> owner_step c = None
         else in_at (input_run 3 c) = In_End"
    using a inv joining_thread_ends [OF inv]
    by (cases "in_at c") (auto simp: input_step.simps owner_step.simps console_inv_def late_start_def numeral_3_eq_3
        split: list.splits)
qed

theorem console_destruction_witness:
  "\<exists>c. console_step\<^sup>*\<^sup>* Console c \<and> owner_at c = Own_Prompted \<and>
     (\<forall>d. console_step\<^sup>*\<^sup>* c d \<longrightarrow> owner_at d \<noteq> Own_Gone)"
proof -
  let ?c1 = "Console\<lparr>m_MessageCallback := True, owner_at := Own_Alive\<rparr>"
  let ?c2 = "?c1\<lparr>m_InputThreadRunning := False, owner_at := Own_Prompted\<rparr>"
  have s: "console_step Console ?c1" "console_step ?c1 ?c2"
    by (rule console_step.owner; simp add: owner_step.simps Console_def)+
  have run: "console_step\<^sup>*\<^sup>* Console ?c2"
    by (rule r_into_rtranclp [of console_step, OF s(1), THEN rtranclp.rtrancl_into_rtrancl, OF s(2)])
  have "reach (\<lambda>c. c = Console) console_step ?c2"
    by (rule reach_steps [OF run]) (rule reach_init, simp)
  then have "\<forall>d. console_step\<^sup>*\<^sup>* ?c2 d \<longrightarrow> owner_at d \<noteq> Own_Gone"
    using console_destruction [of ?c2] by (simp add: late_start_def Console_def)
  with run show ?thesis by (intro exI [of _ ?c2]) simp
qed

end
