(* ===== verification/Requests.thy ===== *)
theory Requests
  imports Lifecycle Sessions Console
begin

section \<open>Requests to the application, also while it is destroyed\<close>

text \<open>
  The static \<open>s_Instance\<close> of \<open>core/application.cpp\<close>, through which the commands \<open>shutdown\<close> and
  \<open>restart\<close> reach the application from the threads of the servers and of the console, and the
  order in which \<open>~Application\<close> takes things away: first the instance, then, by \<open>OnDetach\<close>, the
  scanner and the servers, and last, with the layer itself, the console, whose input thread
  still hands on lines until then (\<open>Console\<close>).
\<close>

text \<open>What \<open>Get\<close> returns is a reference through \<open>s_Instance\<close>.\<close>

definition Get :: "application option \<Rightarrow> ub + application" where
  "Get s_Instance = deref s_Instance"

text \<open>The calls of \<open>Application::Get().Shutdown()\<close> and \<open>Restart()\<close> among a command's effects.\<close>

fun app_calls :: "layer_event list \<Rightarrow> application option \<Rightarrow> ub + application option" where
  "app_calls [] s_Instance = Inr s_Instance"
| "app_calls (App_Shutdown # ev) s_Instance =
     bind_ub (Get s_Instance) (\<lambda>a. app_calls ev (Some (request Shutdown_Request a)))"
| "app_calls (App_Restart # ev) s_Instance =
     bind_ub (Get s_Instance) (\<lambda>a. app_calls ev (Some (request Restart_Request a)))"
| "app_calls (_ # ev) s_Instance = app_calls ev s_Instance"

text \<open>\<open>~Application\<close>: the instance is gone before the layers are detached, in their order.\<close>

fun detach_layers :: "mps_protocol \<Rightarrow> wsa \<Rightarrow> ('g, 'd) ServerLayer list \<Rightarrow> heap
    \<Rightarrow> ub + ('g, 'd) ServerLayer list \<times> wsa \<times> heap \<times> layer_event list" where
  "detach_layers P w [] h = Inr ([], w, h, [])"
| "detach_layers P w (L # Ls) h =
     bind_ub (OnDetach P w L h) (\<lambda>(L1, w1, h1, ev1).
     bind_ub (detach_layers P w1 Ls h1) (\<lambda>(Ls1, w2, h2, ev2). Inr (L1 # Ls1, w2, h2, ev1 @ ev2)))"

definition destroy_application :: "mps_protocol \<Rightarrow> wsa \<Rightarrow> ('g, 'd) ServerLayer list \<Rightarrow> heap
    \<Rightarrow> ub + application option \<times> ('g, 'd) ServerLayer list \<times> wsa \<times> heap \<times> layer_event list" where
  "destroy_application P w Ls h =
     (let s_Instance = None
      in bind_ub (detach_layers P w Ls h) (\<lambda>(Ls1, w1, h1, ev). Inr (s_Instance, Ls1, w1, h1, ev)))"

lemma app_calls_append: "app_calls (ev1 @ ev2) i = bind_ub (app_calls ev1 i) (app_calls ev2)"
  by (induction ev1 i rule: app_calls.induct) (auto simp: bind_ub_assoc)

lemma app_calls_told [simp]: "app_calls (told cid str s) i = Inr i"
proof -
  have "app_calls (map (\<lambda>k. On_Command (Sent k bs)) ks) i = Inr i" for ks bs by (induction ks) simp_all
  then show ?thesis by (simp add: told_def)
qed

definition request_of :: "string \<Rightarrow> app_request" where
  "request_of c = (if c \<in> {''shutdown'', ''SHUTDOWN''} then Shutdown_Request else Restart_Request)"

lemma own_command_line:
  assumes "c \<in> own_commands" and "line \<in> {c, c @ crlf}"
  shows "build_command old line = (line, True)" and "SplitString line crlf ! 0 = c"
    and "c \<noteq> []" and "char0 c \<noteq> CR"
proof -
  have c: "2 \<le> length c" "CR \<notin> set c" "LF \<notin> set c" using assms(1) by (auto simp: own_commands_def char_defs)
  have d: "x \<notin> set crlf" if "x \<in> set c" for x using that c by (auto simp: crlf_def)
  have "pieces crlf (c @ crlf) = c # pieces crlf [LF]" "pieces crlf [LF] = [[], []]"
    using pieces_delim [of c crlf CR "[LF]"] d by (simp_all add: crlf_def)
  then have "SplitString (c @ crlf) crlf = keep [c, [], []]"
    by (simp only: SplitString_kept_pieces kept_pieces_def)
  then have "SplitString (c @ crlf) crlf ! 0 = c" using c by (auto simp: keep_def)
  then show "SplitString line crlf ! 0 = c" using assms(2) SplitString_no_delim [OF d] by auto
  show "build_command old line = (line, True)" using assms(2) c by (auto simp: build_command_def crlf_def)
  show "c \<noteq> []" "char0 c \<noteq> CR" using c by (cases c; auto simp: char0_def)+
qed

definition request_event :: "app_request \<Rightarrow> layer_event" where
  "request_event r = (case r of Shutdown_Request \<Rightarrow> App_Shutdown | Restart_Request \<Rightarrow> App_Restart)"

lemma app_calls_request [simp]:
  "app_calls [request_event r] i = bind_ub (Get i) (\<lambda>a. Inr (Some (request r a)))"
  by (cases r) (simp_all add: request_event_def)

text \<open>An own command says something on the console's behalf and makes its request.\<close>

lemma own_command_eq:
  assumes "c \<in> own_commands"
  shows "\<exists>str. execute_command P R t1 t2 cid c e L h =
     bind_ub (if m_EnableConsole L \<and> (request_of c = Shutdown_Request \<or> m_Server L \<noteq> None)
              then bind_ub (send_string cid str L h) (\<lambda>(h1, ev). Inr (e, L, h1, ev))
              else Inr (e, L, h, []))
       (\<lambda>(e1, L1, h1, ev). Inr (e1, L1, h1, ev @ [request_event (request_of c)]))"
proof -
  have ne: "(char0 c = CR \<or> c = []) = False" using own_command_line(3,4) [OF assms, of c] by simp
  show ?thesis
  proof (cases "c \<in> {''shutdown'', ''SHUTDOWN''}")
    case True
    then have "request_of c = Shutdown_Request" by (simp only: request_of_def if_True)
    with True show ?thesis
      unfolding execute_command_def Let_def ne
      by (intro exI) (simp only: if_True if_False request_event_def app_request.case simp_thms)
  next
    case False
    then have "request_of c = Restart_Request" "c \<in> {''restart'', ''RESTART'', ''reboot'', ''REBOOT''}"
      using assms by (auto simp only: request_of_def own_commands_def if_False insert_iff)
    with False show ?thesis
      unfolding execute_command_def Let_def ne
      by (intro exI) (simp only: if_True if_False request_event_def app_request.case app_request.distinct simp_thms)
  qed
qed

lemma own_command_executed:
  assumes "heap_ok h" and "m_Server L = Some s" and "connections_ok s" and "c \<in> own_commands"
  shows "\<exists>h' ev. execute_command P R t1 t2 cid c e L h = Inr (e, L, h', ev) \<and>
           (\<forall>i. app_calls ev i = bind_ub (Get i) (\<lambda>a. Inr (Some (request (request_of c) a))))"
proof -
  obtain str where e: "execute_command P R t1 t2 cid c e L h =
     bind_ub (if m_EnableConsole L \<and> (request_of c = Shutdown_Request \<or> m_Server L \<noteq> None)
              then bind_ub (send_string cid str L h) (\<lambda>(h1, ev). Inr (e, L, h1, ev))
              else Inr (e, L, h, []))
       (\<lambda>(e1, L1, h1, ev). Inr (e1, L1, h1, ev @ [request_event (request_of c)]))"
    using own_command_eq [OF assms(4)] by blast
  obtain h1 where "send_string cid str L h = Inr (h1, told cid str s)"
    using send_string_eq [OF assms(1-3)] by blast
  with assms(2) e show ?thesis by (cases "m_EnableConsole L") (simp_all add: app_calls_append)
qed

text \<open>When the layer is detached and the instance gone.\<close>

lemma detached_own_command:
  assumes "m_Server L = None" and "c \<in> own_commands"
  shows "bind_ub (execute_command P R t1 t2 cid c e L h) (\<lambda>(e1, L1, h1, ev). app_calls ev None) = Inl Null_Pointer"
proof -
  obtain str where e: "execute_command P R t1 t2 cid c e L h =
     bind_ub (if m_EnableConsole L \<and> (request_of c = Shutdown_Request \<or> m_Server L \<noteq> None)
              then bind_ub (send_string cid str L h) (\<lambda>(h1, ev). Inr (e, L, h1, ev))
              else Inr (e, L, h, []))
       (\<lambda>(e1, L1, h1, ev). Inr (e1, L1, h1, ev @ [request_event (request_of c)]))"
    using own_command_eq [OF assms(2)] by blast
  show ?thesis
    using assms(1) unfolding e by (auto simp: send_string_def Get_def)
qed

lemma detached_other_command:
  assumes "m_Device L = None" and "for_scanner c"
  shows "execute_command P R t1 t2 cid c e L h = Inr (e, L, h, [])"
proof -
  have "c \<noteq> []" "char0 c \<noteq> CR" "c \<notin> own_commands"
    using assms(2) by (cases c; auto simp: for_scanner_def char0_def)+
  then show ?thesis using assms(1) by (simp add: execute_command_def own_commands_def Let_def)
qed

lemma OnDetach_detached:
  assumes "OnDetach P w L h = Inr (L1, w1, h1, ev)"
  shows "m_Device L1 = None" and "m_Server L1 = None"
proof -
  obtain L2 h2 ev2 where d: "detach_device P L h = Inr (L2, h2, ev2)" and L1: "L1 = L2\<lparr>m_Server := None, m_TCPBinaryServer := None\<rparr>"
    using assms by (auto simp: OnDetach_def bind_ub_Inr_iff)
  show "m_Server L1 = None" by (simp add: L1)
  have "m_Device L2 = None"
  proof (cases "m_Device L")
    case None
    then show ?thesis using d by (simp add: detach_device_def)
  next
    case (Some m)
    obtain m1 es where m1: "Shutdown P m = (m1, es)" by fastforce
    have "Shutdown P m1 = (m1\<lparr>m_Running := False\<rparr>, [])"
      by (rule Shutdown_idle [OF Shutdown_events(1) [OF m1]])
    then show ?thesis using d Some m1 by (auto simp: detach_device_def bind_ub_Inr_iff)
  qed
  then show "m_Device L1 = None" by (simp add: L1)
qed

lemma detach_layers_detached:
  "detach_layers P w Ls h = Inr (Ls1, w1, h1, ev) \<Longrightarrow> D \<in> set Ls1 \<Longrightarrow> m_Device D = None \<and> m_Server D = None"
proof (induction P w Ls h arbitrary: Ls1 w1 h1 ev rule: detach_layers.induct)
  case (2 P w L Ls h)
  then show ?case by (auto simp: bind_ub_Inr_iff dest: OnDetach_detached)
qed simp

lemma console_request_when_detached:
  assumes D: "m_Device D = None" "m_Server D = None"
    and "CR \<notin> set msg" and "LF \<notin> set msg" and "length msg \<noteq> 2"
  shows "is_defined (bind_ub (OnConsoleInput P R t1 t2 msg e D h) (\<lambda>(e1, D1, h1, ev). app_calls ev None)) =
    (msg \<noteq> [] \<and> msg \<notin> (#) (CHR ''/'') ` own_commands)"
proof (cases "\<exists>c. msg = CHR ''/'' # c \<and> c \<noteq> []")
  case True
  then obtain c where msg: "msg = CHR ''/'' # c" "c \<noteq> []" by blast
  let ?D = "D\<lparr>m_Cmds := map_put 0 [] (m_Cmds D)\<rparr>"
  have c: "c \<in> own_commands \<or> for_scanner c"
    using assms(3-5) msg by (cases c) (auto simp: for_scanner_def Suc_le_eq)
  then have line: "build_command (unfinished 0 D) c = (c, True)" "SplitString c crlf ! 0 = c"
    using own_command_line(1,2) [of c c] for_scanner_line(1,3) [of c] by auto
  have "OnConsoleInput P R t1 t2 msg e D h = execute_command P R t1 t2 0 c e ?D h"
    using OnCommand_complete [OF _ line(1), of P R t1 t2 e h] line(2) msg
    by (simp add: OnConsoleInput_def has_control_def)
  then show ?thesis
    using c D detached_own_command [of ?D c P R t1 t2 0 e h] detached_other_command [of ?D c P R t1 t2 0 e h] msg(1)
    by (auto simp: for_scanner_def)
next
  case False
  then have "msg \<notin> (#) (CHR ''/'') ` own_commands" by (auto simp: own_commands_def)
  moreover have "OnConsoleInput P R t1 t2 msg e D h = (if msg = [] then Inl Out_Of_Bounds else Inr (e, D, h, []))"
    using False D(2) by (auto simp: OnConsoleInput_def split: list.split)
  ultimately show ?thesis by simp
qed

text \<open>
  Property C32: requests need the application. The layer's own commands, given by whoever may
  control the device, leave scanner and servers as they are and ask the application, which must
  exist: once the destructor has taken the instance away they are undefined. The console's
  input thread can still hand on lines then: to a layer that the destructor has detached, every
  line is harmless but the empty one and a slash with one of those commands. (Lines without
  line breaks; a slash and one key are part of a command that is being typed.)
\<close>

theorem requests_need_the_application:
  assumes "heap_ok h" and "m_Server L = Some s" and "connections_ok s" and "has_control cid L"
    and "c \<in> own_commands" and "line \<in> {c, c @ crlf}"
    and "destroy_application P w Ls h0 = Inr (i, Ls1, w1, h1, ev1)" and "D \<in> set Ls1"
    and "CR \<notin> set msg" and "LF \<notin> set msg" and "length msg \<noteq> 2"
  shows "(\<exists>h' ev. OnCommand P R t1 t2 cid line e L h = Inr (e, L\<lparr>m_Cmds := map_put cid [] (m_Cmds L)\<rparr>, h', ev) \<and>
           app_calls ev (Some a) = Inr (Some (request (request_of c) a)) \<and>
           app_calls ev i = Inl Null_Pointer) \<and>
     is_defined (bind_ub (OnConsoleInput P R t1 t2 msg e D h1) (\<lambda>(e1, D1, h2, ev). app_calls ev i)) =
       (msg \<noteq> [] \<and> msg \<notin> (#) (CHR ''/'') ` own_commands)"
proof
  let ?L = "L\<lparr>m_Cmds := map_put cid [] (m_Cmds L)\<rparr>"
  have i: "i = None" and D: "m_Device D = None" "m_Server D = None"
    using assms(7) detach_layers_detached [of P w Ls h0 _ _ _ _ D] assms(8)
    by (auto simp: destroy_application_def bind_ub_Inr_iff)
  have "OnCommand P R t1 t2 cid line e L h = execute_command P R t1 t2 cid c e ?L h"
    using OnCommand_complete [OF assms(4) own_command_line(1) [OF assms(5,6)]] own_command_line(2) [OF assms(5,6)]
    by simp
  then show "\<exists>h' ev. OnCommand P R t1 t2 cid line e L h = Inr (e, ?L, h', ev) \<and>
       app_calls ev (Some a) = Inr (Some (request (request_of c) a)) \<and> app_calls ev i = Inl Null_Pointer"
    using own_command_executed [OF assms(1) _ assms(3,5), of ?L P R t1 t2 cid e] assms(2)
    by (auto simp: i Get_def)
  show "is_defined (bind_ub (OnConsoleInput P R t1 t2 msg e D h1) (\<lambda>(e1, D1, h2, ev). app_calls ev i)) =
       (msg \<noteq> [] \<and> msg \<notin> (#) (CHR ''/'') ` own_commands)"
    unfolding i by (rule console_request_when_detached [OF D assms(9-11)])
qed

theorem requests_need_the_application_witness:
  "\<exists>D w1 h1 ev1. destroy_application sample_protocol no_wsa [fresh_layer] sample_heap = Inr (None, [D], w1, h1, ev1) \<and>
     \<not> is_defined (bind_ub (OnConsoleInput sample_protocol sample_random 0 0 ''/restart'' False D h1)
         (\<lambda>(e1, D1, h2, ev). app_calls ev None))"
proof -
  have s: "m_Server fresh_layer = Some (with_callbacks (Server sample_info))"
      "m_TCPBinaryServer fresh_layer = Some (with_callbacks (Server sample_info))"
      "connections_ok (with_callbacks (Server sample_info))" "m_Connections (with_callbacks (Server sample_info)) = []"
    by (simp_all add: fresh_layer_def Server_def connections_ok_def map_ok_def)
  obtain D w1 h1 ev1 where "OnDetach sample_protocol no_wsa fresh_layer sample_heap = Inr (D, w1, h1, ev1)"
    using detach_without_clients [OF sample_heap_ok(1) s(1,3,2,4,4), of sample_protocol no_wsa] by blast
  then have d: "destroy_application sample_protocol no_wsa [fresh_layer] sample_heap = Inr (None, [D], w1, h1, ev1)"
    by (simp add: destroy_application_def)
  have c: "''restart'' \<in> own_commands" by (simp add: own_commands_def)
  have m: "CR \<notin> set ''/restart''" "LF \<notin> set ''/restart''" by (simp_all add: char_defs)
  have "has_control 0 fresh_layer" by (simp add: has_control_def)
  then show ?thesis
    using requests_need_the_application [OF sample_heap_ok(1) s(1,3) _ c _ d _ m,
        of 0 "''restart''" D sample_random 0 0 False, THEN conjunct2] d c by auto
qed

end
