(* ===== verification/ScanThread.thy ===== *)
theory ScanThread
  imports MpsRun
begin

section \<open>Mps::ScanThreadFn: the scan thread among other threads\<close>

text \<open>
  The loops of \<open>Mps::ScanThreadFn\<close> as steps of the thread, which other threads interrupt
  with the operations of the class: starting and stopping scans, calibration, shutdown and
  changes of the configuration. A step ends where the thread sleeps: after the samples of each
  subframe, at the end of a frame, during a calibration and at the end of the outer loop. So
  what others do may come between any two subframes, whose number, period and channels the
  thread reads again each time, and between the data of a frame and the test for the last one.
  Left alone, the steps of a frame are \<open>scan_frame\<close>.
\<close>

text \<open>
  Where the thread is: at \<open>while (m_Running)\<close>; in the sleep of the calibration; at
  \<open>while (m_Scanning)\<close> with \<open>frame_start\<close> and \<open>frame\<close>; at the test of the loop over the
  subframes with \<open>frame_end\<close>, \<open>dt\<close>, \<open>frame\<close>, \<open>i\<close> and the array of the accumulators; in the
  sleep until \<open>frame_end\<close>; in the sleep at the end of the loop; or at its end.
\<close>

datatype scan_pc =
    Loop_Top
  | Calibrating_Sleep
  | Next_Frame int u32
  | Sampling int int u32 nat "int list"
  | Frame_Sleep int u32
  | Pause
  | Thread_End

definition subframe :: "mps_protocol \<Rightarrow> ('g, 'd) random_lib \<Rightarrow> int list \<Rightarrow> ('g, 'd) mps
    \<Rightarrow> ub + int list \<times> ('g, 'd) mps" where
  "subframe P R acc m =
     bind_ub (subframe_period (scan_rate_hz (m_cfg m)) (m_nSubFrameAverages m)) (\<lambda>_.
       let nc = m_PhysicalPressureChannelCount m
       in if length acc < nc then Inl Out_Of_Bounds
          else let (totals, d, g) = add_samples P R (take nc acc) (m_NormalDistribution m) (m_RandomGenerator m)
               in Inr (totals @ drop nc acc, m\<lparr>m_NormalDistribution := d, m_RandomGenerator := g\<rparr>))"

definition frame_events :: "mps_protocol \<Rightarrow> int \<Rightarrow> u32 \<Rightarrow> int list \<Rightarrow> ('g, 'd) mps \<Rightarrow> ub + device_event list" where
  "frame_events P dt frame acc m =
     (if beyond_arrays P m then Inl Out_Of_Bounds
      else bind_ub (resolve P m (take (m_PhysicalPressureChannelCount m) acc)) (\<lambda>fd.
           bind_ub (labview_frame P m fd frame) (\<lambda>ev1.
           bind_ub (binary_frame P m fd frame dt) (\<lambda>ev2. Inr (ev1 @ ev2)))))"

definition scan_thread_step :: "mps_protocol \<Rightarrow> ('g, 'd) random_lib \<Rightarrow> scan_pc \<Rightarrow> ('g, 'd) mps
    \<Rightarrow> ub + scan_pc \<times> ('g, 'd) mps \<times> device_event list" where
  "scan_thread_step P R pc m =
     (case pc of
        Loop_Top \<Rightarrow>
          Inr (if \<not> m_Running m then (Thread_End, m, [])
               else if m_Calibrating m then (Calibrating_Sleep, m, [])
               else (Next_Frame (m_ScanStartTime m) 1, m, []))
      | Calibrating_Sleep \<Rightarrow>
          let m1 = m\<lparr>m_Calibrating := False, m_Status := MPS_STATUS_READY P\<rparr>
          in Inr (Next_Frame (m_ScanStartTime m1) 1, m1, notify m1)
      | Next_Frame frame_start frame \<Rightarrow>
          if \<not> m_Scanning m then Inr (Pause, m, [])
          else bind_ub (frame_period (scan_rate_hz (m_cfg m))) (\<lambda>period.
                 Inr (Sampling (frame_start + period) (frame_start - m_ScanStartTime m) frame 0
                        (replicate (MPS_MAX_PRESSURE_CH_COUNT P) 0), m, []))
      | Sampling frame_end dt frame i acc \<Rightarrow>
          if i < unat (m_nSubFrameAverages m)
          then bind_ub (subframe P R acc m) (\<lambda>(acc1, m1). Inr (Sampling frame_end dt frame (Suc i) acc1, m1, []))
          else bind_ub (frame_events P dt frame acc m) (\<lambda>ev. Inr (Frame_Sleep frame_end frame, m, ev))
      | Frame_Sleep frame_end frame \<Rightarrow>
          let (m1, ev) = end_of_frame P frame m in Inr (Next_Frame frame_end (frame + 1), m1, ev)
      | Pause \<Rightarrow> Inr (Loop_Top, m, [])
      | Thread_End \<Rightarrow> Inr (Thread_End, m, []))"

lemma scan_thread_step_simps:
  "scan_thread_step P R (Next_Frame frame_start frame) m =
     (if \<not> m_Scanning m then Inr (Pause, m, [])
      else bind_ub (frame_period (scan_rate_hz (m_cfg m))) (\<lambda>period.
             Inr (Sampling (frame_start + period) (frame_start - m_ScanStartTime m) frame 0
                    (replicate (MPS_MAX_PRESSURE_CH_COUNT P) 0), m, [])))"
  "scan_thread_step P R (Sampling frame_end dt frame i acc) m =
     (if i < unat (m_nSubFrameAverages m)
      then bind_ub (subframe P R acc m) (\<lambda>(acc1, m1). Inr (Sampling frame_end dt frame (Suc i) acc1, m1, []))
      else bind_ub (frame_events P dt frame acc m) (\<lambda>ev. Inr (Frame_Sleep frame_end frame, m, ev)))"
  "scan_thread_step P R (Frame_Sleep frame_end frame) m =
     Inr (Next_Frame frame_end (frame + 1), fst (end_of_frame P frame m), snd (end_of_frame P frame m))"
  by (simp_all add: scan_thread_step_def split: prod.split)

text \<open>The thread alone, for a number of its steps.\<close>

fun thread_run :: "mps_protocol \<Rightarrow> ('g, 'd) random_lib \<Rightarrow> nat \<Rightarrow> scan_pc \<Rightarrow> ('g, 'd) mps
    \<Rightarrow> ub + scan_pc \<times> ('g, 'd) mps \<times> device_event list" where
  "thread_run P R 0 pc m = Inr (pc, m, [])"
| "thread_run P R (Suc n) pc m =
     bind_ub (scan_thread_step P R pc m) (\<lambda>(pc1, m1, ev1).
     bind_ub (thread_run P R n pc1 m1) (\<lambda>(pc2, m2, ev2). Inr (pc2, m2, ev1 @ ev2)))"

lemma thread_run_add:
  "thread_run P R j pc m = Inr (pc1, m1, ev1) \<Longrightarrow> thread_run P R k pc1 m1 = Inr (pc2, m2, ev2) \<Longrightarrow>
   thread_run P R (j + k) pc m = Inr (pc2, m2, ev1 @ ev2)"
proof (induction j arbitrary: pc m ev1)
  case (Suc j)
  then show ?case by (auto simp: bind_ub_Inr_iff)
qed simp

text \<open>What other threads do: the operations of the class, and a changed configuration.\<close>

datatype control_op = Start_Scan int int | Stop_Scan | Cal_Z | Shut_Down | Update_Averages | Configure mps_config

fun control_step :: "mps_protocol \<Rightarrow> ('g, 'd) random_lib \<Rightarrow> control_op \<Rightarrow> ('g, 'd) mps
    \<Rightarrow> ub + ('g, 'd) mps \<times> device_event list" where
  "control_step P R (Start_Scan t1 t2) m = StartScan P R t1 t2 m"
| "control_step P R Stop_Scan m = Inr (StopScan P m)"
| "control_step P R Cal_Z m = Inr (CalZ P m)"
| "control_step P R Shut_Down m = Inr (Shutdown P m)"
| "control_step P R Update_Averages m = bind_ub (UpdateScanAverages m) (\<lambda>m1. Inr (m1, []))"
| "control_step P R (Configure cfg) m = Inr (m\<lparr>m_cfg := cfg\<rparr>, [])"

text \<open>Configurations that the scanner works with: a supported device and a usable rate.\<close>

definition cfg_ok :: "mps_protocol \<Rightarrow> mps_config \<Rightarrow> bool" where
  "cfg_ok P cfg \<longleftrightarrow> supported P (device_id cfg) \<and> usable_rate (scan_rate_hz cfg)"

fun op_ok :: "mps_protocol \<Rightarrow> control_op \<Rightarrow> bool" where
  "op_ok P (Configure cfg) = cfg_ok P cfg"
| "op_ok P _ = True"

inductive scan_system :: "mps_protocol \<Rightarrow> ('g, 'd) random_lib \<Rightarrow> scan_pc \<times> ('g, 'd) mps
    \<Rightarrow> scan_pc \<times> ('g, 'd) mps \<Rightarrow> bool" for P R where
  thread: "scan_thread_step P R pc m = Inr (pc1, m1, ev) \<Longrightarrow> scan_system P R (pc, m) (pc1, m1)"
| other: "op_ok P oper \<Longrightarrow> control_step P R oper m = Inr (m1, ev) \<Longrightarrow> scan_system P R (pc, m) (pc, m1)"

inductive_cases scan_systemE: "scan_system P R (pc, m) s"

definition scan_init :: "mps_protocol \<Rightarrow> ('g, 'd) random_lib \<Rightarrow> scan_pc \<times> ('g, 'd) mps \<Rightarrow> bool" where
  "scan_init P R = (\<lambda>(pc, m). pc = Loop_Top \<and>
     (\<exists>cfg a b c. cfg_ok P cfg \<and> m = Start (Mps P R cfg a b c)))"

subsection \<open>The steps of a frame that is left alone\<close>

lemma subframe_periods:
  assumes "scan_ok P m"
  obtains p where "subframe_period (scan_rate_hz (m_cfg m)) (m_nSubFrameAverages m) = Inr p"
  using is_defined_Inr [OF subframe_period_usable] assms by (auto simp: scan_ok_def)

lemma subframes_alone:
  assumes "scan_ok P m" and "i + k = unat (m_nSubFrameAverages m)"
    and "m_PhysicalPressureChannelCount m \<le> length acc"
    and "add_subframes P R k (take (m_PhysicalPressureChannelCount m) acc) (m_NormalDistribution m)
           (m_RandomGenerator m) = (totals, d, g)"
  shows "thread_run P R k (Sampling fe dt frame i acc) m =
           Inr (Sampling fe dt frame (i + k) (totals @ drop (m_PhysicalPressureChannelCount m) acc),
                with_draws m d g, [])"
  using assms
proof (induction k arbitrary: i acc m)
  case (Suc k)
  let ?nc = "m_PhysicalPressureChannelCount m"
  obtain xs e h where s: "add_samples P R (take ?nc acc) (m_NormalDistribution m) (m_RandomGenerator m) = (xs, e, h)"
    by (metis prod_cases3)
  have r: "add_subframes P R k xs e h = (totals, d, g)" using Suc.prems(4) s by simp
  obtain p where p: "subframe_period (scan_rate_hz (m_cfg m)) (m_nSubFrameAverages m) = Inr p"
    by (rule subframe_periods [OF Suc.prems(1)])
  have len: "length xs = ?nc" using add_samples_length [OF s] Suc.prems(3) by simp
  let ?acc = "xs @ drop ?nc acc" and ?m = "with_draws m e h"
  have "scan_thread_step P R (Sampling fe dt frame i acc) m = Inr (Sampling fe dt frame (Suc i) ?acc, ?m, [])"
    using Suc.prems(2,3) p s by (simp add: scan_thread_step_simps subframe_def Let_def)
  moreover have "thread_run P R k (Sampling fe dt frame (Suc i) ?acc) ?m =
      Inr (Sampling fe dt frame (Suc i + k) (totals @ drop ?nc acc), with_draws m d g, [])"
    using Suc.IH [of ?m "Suc i" ?acc] Suc.prems(1,2) r len by simp
  ultimately show ?case by simp
qed auto

text \<open>
  So the frames of \<open>MpsScan\<close>, and the whole scans of \<open>MpsRun\<close>, are what the steps of the thread
  add up to while no other thread acts.
\<close>

theorem frame_left_alone:
  assumes P: "enums_ok P" "adc_ok P" "sizes_ok P" and ok: "scan_ok P m" and s: "m_Scanning m"
    and f: "scan_frame P R start frame m = Inr (m1, ev, start1, frame1)"
  shows "thread_run P R (unat (m_nSubFrameAverages m) + 3) (Next_Frame start frame) m =
           Inr (Next_Frame start1 frame1, m1, ev)"
proof -
  let ?nc = "m_PhysicalPressureChannelCount m" and ?n = "unat (m_nSubFrameAverages m)"
  let ?acc = "replicate (MPS_MAX_PRESSURE_CH_COUNT P) 0 :: int list"
  obtain period where per: "frame_period (scan_rate_hz (m_cfg m)) = Inr period"
    using frame_period_usable ok by (auto simp: scan_ok_def)
  obtain fd d g ev1 ev2 where q: "acquire P R m = Inr (fd, with_draws m d g)"
    "labview_frame P (with_draws m d g) fd frame = Inr ev1"
    "binary_frame P (with_draws m d g) fd frame (start - m_ScanStartTime m) = Inr ev2"
    and r: "scan_frame P R start frame m = Inr (fst (end_of_frame P frame (with_draws m d g)),
       ev1 @ ev2 @ snd (end_of_frame P frame (with_draws m d g)), start + period, frame + 1)"
    using scan_frame_parts [OF P ok per, of R frame start] by blast
  obtain totals d' g' where sub: "add_subframes P R ?n (replicate ?nc 0) (m_NormalDistribution m)
      (m_RandomGenerator m) = (totals, d', g')" by (metis prod_cases3)
  have b: "\<not> beyond_arrays P m" and res: "resolve P m totals = Inr fd" and dg: "d' = d" "g' = g"
    using q(1) sub by (auto simp: acquire_def bind_ub_Inr_iff split: if_splits dest: arg_cong [of _ _ m_NormalDistribution]
        arg_cong [of _ _ m_RandomGenerator])
  have nc: "?nc \<le> length ?acc" using b by (simp add: beyond_arrays_def)
  have tk: "take ?nc ?acc = replicate ?nc 0" using nc by simp
  have len: "length totals = ?nc" using add_subframes_length [OF P(2) sub] by simp
  let ?m = "with_draws m d g" and ?totals = "totals @ drop ?nc ?acc"
  have steps: "thread_run P R ?n (Sampling (start + period) (start - m_ScanStartTime m) frame 0 ?acc) m =
      Inr (Sampling (start + period) (start - m_ScanStartTime m) frame ?n ?totals, ?m, [])"
    using subframes_alone [OF ok _ nc, of 0 ?n R totals d g] sub dg tk by simp
  have "resolve P ?m totals = Inr fd" "\<not> beyond_arrays P ?m"
    using res b by (simp_all add: resolve_def beyond_arrays_def)
  then have "frame_events P (start - m_ScanStartTime m) frame ?totals ?m = Inr (ev1 @ ev2)"
    using q(2,3) len by (simp add: frame_events_def)
  then have "scan_thread_step P R (Sampling (start + period) (start - m_ScanStartTime m) frame ?n ?totals) ?m =
      Inr (Frame_Sleep (start + period) frame, ?m, ev1 @ ev2)"
    by (simp add: scan_thread_step_simps)
  then have tail: "thread_run P R 2 (Sampling (start + period) (start - m_ScanStartTime m) frame ?n ?totals) ?m =
      Inr (Next_Frame start1 frame1, m1, ev)"
    using r f by (simp add: numeral_2_eq_2 scan_thread_step_simps case_prod_beta)
  have "thread_run P R 1 (Next_Frame start frame) m =
      Inr (Sampling (start + period) (start - m_ScanStartTime m) frame 0 ?acc, m, [])"
    using s per by (simp add: scan_thread_step_simps)
  from thread_run_add [OF this thread_run_add [OF steps tail]]
  show ?thesis by (simp add: add.commute numeral_3_eq_3 numeral_2_eq_2)
qed

subsection \<open>The invariant\<close>

text \<open>
  In the subframes of a frame the thread works with the layout of the scan also when another
  thread has stopped it meanwhile, or stopped it and started the next one. The accumulators hold
  \<open>i\<close> samples each, and \<open>i\<close> is at most a number of averages, of 32 bits.
\<close>

fun sampling :: "scan_pc \<Rightarrow> bool" where
  "sampling (Sampling _ _ _ _ _) = True"
| "sampling _ = False"

fun totals_ok :: "mps_protocol \<Rightarrow> scan_pc \<Rightarrow> bool" where
  "totals_ok P (Sampling _ _ _ i acc) \<longleftrightarrow>
     length acc = MPS_MAX_PRESSURE_CH_COUNT P \<and> i < 2 ^ 32 \<and>
     (\<forall>a \<in> set acc. int i * MPS_MIN_SIGNED_ADC_COUNTS P \<le> a \<and> a \<le> int i * MPS_MAX_SIGNED_ADC_COUNTS P)"
| "totals_ok P _ \<longleftrightarrow> True"

definition scan_inv :: "mps_protocol \<Rightarrow> scan_pc \<times> ('g, 'd) mps \<Rightarrow> bool" where
  "scan_inv P = (\<lambda>(pc, m).
     cfg_ok P (m_cfg m) \<and> (m_Scanning m \<or> sampling pc \<longrightarrow> scan_ok P m) \<and> totals_ok P pc \<and>
     m_Status m \<in> {MPS_STATUS_READY P, MPS_STATUS_SCAN P, MPS_STATUS_CALZ P} \<and>
     (\<not> m_Scanning m \<and> \<not> m_Calibrating m \<longrightarrow> m_Status m = MPS_STATUS_READY P) \<and>
     (m_Status m = MPS_STATUS_SCAN P \<longrightarrow> m_Scanning m))"

lemma scan_ok_fields:
  "scan_ok P (m\<lparr>m_Calibrating := b, m_Status := st\<rparr>) = scan_ok P m"
  "usable_rate (scan_rate_hz cfg) \<Longrightarrow> scan_ok P m \<Longrightarrow> scan_ok P (m\<lparr>m_cfg := cfg\<rparr>)"
  "n \<noteq> 0 \<Longrightarrow> scan_ok P m \<Longrightarrow> scan_ok P (m\<lparr>m_nSubFrameAverages := n\<rparr>)"
  "scan_ok P (m\<lparr>m_Running := r\<rparr>) = scan_ok P m"
  "scan_ok P (m\<lparr>m_Scanning := r\<rparr>) = scan_ok P m"
  by (auto simp: scan_ok_def layout_ok_def packet_ok_def)

lemma scan_init_inv: "enums_ok P \<Longrightarrow> scan_init P R s \<Longrightarrow> scan_inv P s"
  by (auto simp: scan_init_def scan_inv_def Start_def Mps_def cfg_ok_def enums_ok_def)

text \<open>Steps of the thread that do not begin or go on with the subframes of a frame.\<close>

lemma scan_inv_pc:
  "scan_inv P (pc, m) \<Longrightarrow> \<not> sampling pc1 \<Longrightarrow> scan_inv P (pc1, m)"
  by (cases pc1) (auto simp: scan_inv_def)

lemma StopScan_inv:
  assumes "enums_ok P" and "scan_inv P (pc, m)"
  shows "scan_inv P (pc, fst (StopScan P m))"
  using assms by (auto simp: scan_inv_def StopScan_def enums_ok_def Let_def scan_ok_fields)

lemma control_step_inv:
  assumes P: "enums_ok P" "sizes_ok P" and inv: "scan_inv P (pc, m)" and "op_ok P oper"
  shows "\<exists>m1 ev. control_step P R oper m = Inr (m1, ev) \<and> scan_inv P (pc, m1)"
proof (cases oper)
  case (Start_Scan t1 t2)
  show ?thesis
  proof (cases "m_Scanning m")
    case True
    then show ?thesis using Start_Scan inv by (simp add: StartScan_def)
  next
    case False
    then obtain m1 ev where m1: "StartScan P R t1 t2 m = Inr (m1, ev)" "scan_ok P m1" "m_Scanning m1"
      using StartScan_scan_ok [OF P(2) _ _ False, of R t1 t2] inv by (auto simp: scan_inv_def cfg_ok_def)
    have "m_cfg m1 = m_cfg m" "m_Status m1 = MPS_STATUS_SCAN P"
      using StartScan_Inr [OF False m1(1)] by simp_all
    then show ?thesis using Start_Scan m1 inv by (simp add: scan_inv_def)
  qed
next
  case Stop_Scan
  then show ?thesis using StopScan_inv [OF P(1) inv] by (cases "StopScan P m") auto
next
  case Cal_Z
  then show ?thesis using inv P(1) by (auto simp: CalZ_def scan_inv_def scan_ok_fields enums_ok_def)
next
  case Shut_Down
  have "scan_inv P (pc, (fst (StopScan P m))\<lparr>m_Running := False\<rparr>)"
    using StopScan_inv [OF P(1) inv] by (auto simp: scan_inv_def scan_ok_fields)
  then show ?thesis using Shut_Down by (cases "StopScan P m") (auto simp: Shutdown_def)
next
  case Update_Averages
  obtain n where "n \<noteq> 0" "UpdateScanAverages m = Inr (m\<lparr>m_nSubFrameAverages := n\<rparr>)"
    using UpdateScanAverages_usable inv by (auto simp: scan_inv_def cfg_ok_def)
  then show ?thesis using Update_Averages inv by (auto simp: scan_inv_def scan_ok_fields)
next
  case (Configure cfg)
  then show ?thesis using assms scan_ok_fields(2) by (auto simp: scan_inv_def cfg_ok_def)
qed

text \<open>The parts of a frame.\<close>

lemma subframe_ok:
  assumes P: "adc_ok P" "sizes_ok P" and inv: "scan_inv P (Sampling fe dt frame i acc, m)"
    and i: "i < unat (m_nSubFrameAverages m)"
  shows "\<exists>acc1 d g. subframe P R acc m = Inr (acc1, with_draws m d g) \<and>
           totals_ok P (Sampling fe dt frame (Suc i) acc1)"
proof -
  let ?nc = "m_PhysicalPressureChannelCount m"
  have ok: "scan_ok P m" and t: "totals_ok P (Sampling fe dt frame i acc)" using inv by (auto simp: scan_inv_def)
  obtain p where p: "subframe_period (scan_rate_hz (m_cfg m)) (m_nSubFrameAverages m) = Inr p"
    by (rule subframe_periods [OF ok])
  have nc: "?nc \<le> length acc" using t ok layout_counts [OF _ P(2), of m] by (auto simp: scan_ok_def)
  obtain xs d g where s: "add_samples P R (take ?nc acc) (m_NormalDistribution m) (m_RandomGenerator m) = (xs, d, g)"
    by (metis prod_cases3)
  have all: "list_all2 (\<lambda>a b. in_adc P (b - a)) (take ?nc acc) xs" by (rule add_samples_range [OF P(1) s])
  let ?lo = "MPS_MIN_SIGNED_ADC_COUNTS P" and ?hi = "MPS_MAX_SIGNED_ADC_COUNTS P"
  have e: "int (Suc i) * z = int i * z + z" for z by (simp add: algebra_simps)
  have "int (Suc i) * ?lo \<le> a \<and> a \<le> int (Suc i) * ?hi" if "a \<in> set (xs @ drop ?nc acc)" for a
  proof (cases "a \<in> set xs")
    case True
    then obtain j where j: "j < length xs" "a = xs ! j" by (auto simp: in_set_conv_nth)
    have "take ?nc acc ! j \<in> set acc" using j add_samples_length [OF s] by (metis in_set_takeD nth_mem)
    then have "int i * ?lo \<le> take ?nc acc ! j \<and> take ?nc acc ! j \<le> int i * ?hi" using t by simp
    moreover have "in_adc P (xs ! j - take ?nc acc ! j)" by (rule list_all2_nthD2 [OF all j(1)])
    ultimately show ?thesis unfolding e j(2) by linarith
  next
    case False
    then have "a \<in> set acc" using that by (auto dest: in_set_dropD)
    then have "int i * ?lo \<le> a \<and> a \<le> int i * ?hi" using t by simp
    then show ?thesis using P(1) unfolding e adc_ok_def by linarith
  qed
  moreover have "Suc i < 2 ^ 32"
    using i unsigned_less [of "m_nSubFrameAverages m", where ?'a = nat] by simp
  moreover have "length (xs @ drop ?nc acc) = MPS_MAX_PRESSURE_CH_COUNT P"
    using t nc add_samples_length [OF s] by simp
  ultimately have "totals_ok P (Sampling fe dt frame (Suc i) (xs @ drop ?nc acc))" by (simp only: totals_ok.simps simp_thms Ball_def) blast
  moreover have "subframe P R acc m = Inr (xs @ drop ?nc acc, with_draws m d g)"
    using p nc s by (simp add: subframe_def Let_def)
  ultimately show ?thesis by blast
qed

lemma resolve_ok:
  assumes "sizes_ok P" and "layout_ok P m" and "m_nSubFrameAverages m \<noteq> 0"
    and "length acc = m_PhysicalPressureChannelCount m"
  shows "\<exists>fd. resolve P m acc = Inr fd \<and> length (fd_p fd) = 64 \<and> length (fd_t fd) = 8"
  using layout_counts [OF assms(2,1)] assms(3,4) by (auto simp: resolve_def average_counts_def Let_def)

lemma frame_events_parts:
  assumes P: "enums_ok P" "sizes_ok P" and ok: "scan_ok P m" and len: "length acc = MPS_MAX_PRESSURE_CH_COUNT P"
  shows "\<exists>fd ev1 ev2. frame_events P dt frame acc m = Inr (ev1 @ ev2) \<and>
           labview_frame P m fd frame = Inr ev1 \<and> binary_frame P m fd frame dt = Inr ev2"
proof -
  have lay: "layout_ok P m" "m_nSubFrameAverages m \<noteq> 0" using ok by (auto simp: scan_ok_def)
  note c = layout_counts [OF lay(1) P(2)]
  obtain fd where fd: "resolve P m (take (m_PhysicalPressureChannelCount m) acc) = Inr fd"
    "length (fd_p fd) = 64" "length (fd_t fd) = 8"
    using resolve_ok [OF P(2) lay, of "take (m_PhysicalPressureChannelCount m) acc"] c len by auto
  obtain ev1 where ev1: "labview_frame P m fd frame = Inr ev1"
    using is_defined_Inr [OF labview_frame_defined [OF P(2) lay(1) fd(2)]] by blast
  obtain ev2 where ev2: "binary_frame P m fd frame dt = Inr ev2"
    using is_defined_Inr [OF binary_frame_defined [OF P ok fd(2,3)]] by blast
  have "\<not> beyond_arrays P m" using c by (simp add: beyond_arrays_def)
  then show ?thesis using fd(1) ev1 ev2 by (auto simp: frame_events_def)
qed

lemma scan_thread_step_inv:
  assumes "enums_ok P" and "adc_ok P" and "sizes_ok P" and inv: "scan_inv P (pc, m)"
  shows "\<exists>pc1 m1 ev. scan_thread_step P R pc m = Inr (pc1, m1, ev) \<and> scan_inv P (pc1, m1)"
proof (cases pc)
  case (Next_Frame start frame)
  show ?thesis
  proof (cases "m_Scanning m")
    case True
    then have ok: "scan_ok P m" using inv by (simp add: scan_inv_def)
    obtain period where per: "frame_period (scan_rate_hz (m_cfg m)) = Inr period"
      using frame_period_usable ok by (auto simp: scan_ok_def)
    let ?pc = "Sampling (start + period) (start - m_ScanStartTime m) frame 0 (replicate (MPS_MAX_PRESSURE_CH_COUNT P) 0)"
    have "scan_inv P (?pc, m)" using inv ok by (simp add: scan_inv_def)
    then show ?thesis using Next_Frame True per by (simp add: scan_thread_step_simps)
  qed (use inv Next_Frame scan_inv_pc in \<open>fastforce simp: scan_thread_step_simps\<close>)
next
  case (Sampling fe dt frame i acc)
  have ok: "scan_ok P m" and len: "length acc = MPS_MAX_PRESSURE_CH_COUNT P"
    using inv by (simp_all add: Sampling scan_inv_def)
  show ?thesis
  proof (cases "i < unat (m_nSubFrameAverages m)")
    case True
    obtain acc1 d g where "subframe P R acc m = Inr (acc1, with_draws m d g)"
      "totals_ok P (Sampling fe dt frame (Suc i) acc1)"
      using subframe_ok [OF assms(2,3) inv [unfolded Sampling] True] by blast
    moreover from this(2) have "scan_inv P (Sampling fe dt frame (Suc i) acc1, with_draws m d g)"
      using inv Sampling by (simp add: scan_inv_def del: totals_ok.simps)
    ultimately show ?thesis using Sampling True by (simp add: scan_thread_step_simps)
  next
    case False
    obtain ev where "frame_events P dt frame acc m = Inr ev"
      using frame_events_parts [OF assms(1,3) ok len] by blast
    then show ?thesis using False Sampling scan_inv_pc [OF inv, of "Frame_Sleep fe frame"]
      by (simp add: scan_thread_step_simps)
  qed
next
  case (Frame_Sleep fe frame)
  have "scan_inv P (Frame_Sleep fe frame, fst (end_of_frame P frame m))"
    using StopScan_inv [OF assms(1) inv] inv by (auto simp: end_of_frame_def Frame_Sleep)
  then have "scan_inv P (Next_Frame fe (frame + 1), fst (end_of_frame P frame m))" by (rule scan_inv_pc) simp
  then show ?thesis using Frame_Sleep by (cases "end_of_frame P frame m") (simp add: scan_thread_step_simps)
next
  case Calibrating_Sleep
  then show ?thesis using inv assms(1)
    by (auto simp: scan_thread_step_def scan_inv_def scan_ok_fields enums_ok_def Let_def)
qed (use inv in \<open>auto simp: scan_thread_step_def scan_inv_def\<close>)

text \<open>
  The invariant holds for every protocol header with the documented properties; the locale
  needs one, so it is interpreted for those: on any other the system has no states.
\<close>

definition header_ok :: "mps_protocol \<Rightarrow> bool" where
  "header_ok P \<longleftrightarrow> enums_ok P \<and> adc_ok P \<and> sizes_ok P"

interpretation scan_thread: invariant_system
  "\<lambda>s. header_ok P \<and> scan_init P R s" "scan_system P R" "\<lambda>s. header_ok P \<and> scan_inv P s" for P R
proof
  show "header_ok P \<and> scan_inv P s" if "header_ok P \<and> scan_init P R s" for s :: "scan_pc \<times> ('a, 'b) mps"
    using that scan_init_inv [of P R s] by (simp add: header_ok_def)
  fix s t :: "scan_pc \<times> ('a, 'b) mps"
  assume inv: "header_ok P \<and> scan_inv P s" and step: "scan_system P R s t"
  obtain pc m where s: "s = (pc, m)" by (cases s)
  have i: "scan_inv P (pc, m)" and h: "enums_ok P" "adc_ok P" "sizes_ok P"
    using inv by (simp_all add: s header_ok_def)
  show "header_ok P \<and> scan_inv P t"
    using step [unfolded s]
  proof (rule scan_systemE)
    fix pc1 m1 ev
    assume "t = (pc1, m1)" and "scan_thread_step P R pc m = Inr (pc1, m1, ev)"
    then show ?thesis using scan_thread_step_inv [OF h i, of R] inv by auto
  next
    fix oper m1 ev
    assume "t = (pc, m1)" and "op_ok P oper" and "control_step P R oper m = Inr (m1, ev)"
    then show ?thesis using control_step_inv [OF h(1,3) i, of oper R] inv by auto
  qed
qed

subsection \<open>The end of the thread\<close>

text \<open>How many steps a thread has left that neither runs nor scans on, with \<open>n\<close> averages.\<close>

fun steps_left :: "nat \<Rightarrow> scan_pc \<Rightarrow> nat" where
  "steps_left n Thread_End = 0"
| "steps_left n Loop_Top = 1"
| "steps_left n Pause = 2"
| "steps_left n (Next_Frame _ _) = 3"
| "steps_left n Calibrating_Sleep = 4"
| "steps_left n (Frame_Sleep _ _) = 4"
| "steps_left n (Sampling _ _ _ i _) = 5 + (n - i)"

lemma stopped_step:
  assumes "\<not> m_Running m" and "\<not> m_Scanning m" and "scan_thread_step P R pc m = Inr (pc1, m1, ev)"
  shows "\<not> m_Running m1 \<and> \<not> m_Scanning m1 \<and> m_nSubFrameAverages m1 = m_nSubFrameAverages m \<and>
    (pc = Thread_End \<and> pc1 = Thread_End \<or>
     steps_left (unat (m_nSubFrameAverages m)) pc1 < steps_left (unat (m_nSubFrameAverages m)) pc)"
proof (cases pc)
  case (Sampling fe dt frame i acc)
  then show ?thesis using assms
    by (auto simp: scan_thread_step_simps subframe_def bind_ub_Inr_iff Let_def split: if_splits prod.splits)
next
  case (Frame_Sleep fe frame)
  then show ?thesis using assms by (auto simp: scan_thread_step_simps end_of_frame_def StopScan_def split: if_splits)
qed (use assms in \<open>auto simp: scan_thread_step_def Let_def\<close>)

lemma stopped_thread_ends:
  assumes P: "enums_ok P" "adc_ok P" "sizes_ok P" and inv: "scan_inv P (pc, m)"
    and stop: "\<not> m_Running m" "\<not> m_Scanning m" and k: "steps_left (unat (m_nSubFrameAverages m)) pc \<le> k"
  shows "\<exists>m' ev. thread_run P R k pc m = Inr (Thread_End, m', ev)"
  using inv stop k
proof (induction k arbitrary: pc m)
  case 0
  then show ?case by (cases pc) auto
next
  case (Suc k)
  obtain pc1 m1 ev where st: "scan_thread_step P R pc m = Inr (pc1, m1, ev)" and i: "scan_inv P (pc1, m1)"
    using scan_thread_step_inv [OF P Suc.prems(1)] by blast
  note n = stopped_step [OF Suc.prems(2,3) st]
  have "steps_left (unat (m_nSubFrameAverages m1)) pc1 \<le> k" using n Suc.prems(4) by auto
  from Suc.IH [OF i _ _ this] n st show ?case by auto
qed

lemma steps_left_bound: "steps_left n pc \<le> n + 5"
  by (cases pc) auto

text \<open>Sums of at most \<open>2 ^ 32\<close> samples fit 64 bits.\<close>

lemma totals_ok_64:
  assumes "adc_ok P" and "totals_ok P (Sampling fe dt frame i acc)" and "a \<in> set acc"
  shows "\<bar>a\<bar> < 2 ^ 63"
  by (rule bounded_product [of "int i" "MPS_MIN_SIGNED_ADC_COUNTS P" a "MPS_MAX_SIGNED_ADC_COUNTS P"])
    (use assms in \<open>auto simp: adc_ok_def\<close>)

text \<open>
  Property C3: the scan thread among other threads. From a started scanner on a supported
  device with a usable rate, any number of scan starts and stops, calibrations, shutdowns,
  recalculated averages and changes to another such configuration may come between any two
  steps of the thread, also between two subframes of a frame. Then the next step of the thread
  and every such operation is defined. While the scanner scans, and also while the thread is
  still in the subframes of a scan that has been stopped, the state is well-formed: the
  channels are those of a device, the packet type has room for them, there is at least one
  subframe, the PTP times are set; and the sums of a frame fit the accumulators. The status is
  SCAN only while scanning, and an idle scanner that is not calibrating is READY; that a scanner
  scans under another status is possible (\<open>calibration_hides_scan\<close>). Once a shutdown has come and
  no more scan is started, as many steps of the thread as it has averages, and five, bring it
  to its end, wherever it is. The condition on the rate is needed: with one of \<open>10 ^ 9 / 2 ^ 31\<close>
  Hz or less (0, for example) in the configuration the next frame of a scan is undefined.
\<close>

theorem scan_thread_is_safe:
  assumes "enums_ok P" and "adc_ok P" and "sizes_ok P"
    and "reach (scan_init P R) (scan_system P R) (pc, m)"
  shows "is_defined (scan_thread_step P R pc m) \<and>
     (\<forall>oper. op_ok P oper \<longrightarrow> is_defined (control_step P R oper m)) \<and>
     (m_Scanning m \<or> sampling pc \<longrightarrow> scan_ok P m) \<and>
     (\<forall>fe dt frame i acc. pc = Sampling fe dt frame i acc \<longrightarrow>
        length acc = MPS_MAX_PRESSURE_CH_COUNT P \<and> (\<forall>a \<in> set acc. \<bar>a\<bar> < 2 ^ 63)) \<and>
     (m_Status m = MPS_STATUS_SCAN P \<longrightarrow> m_Scanning m) \<and>
     (\<not> m_Scanning m \<and> \<not> m_Calibrating m \<longrightarrow> m_Status m = MPS_STATUS_READY P) \<and>
     (\<exists>m' ev. thread_run P R (unat (m_nSubFrameAverages m) + 5) pc (fst (Shutdown P m)) = Inr (Thread_End, m', ev)) \<and>
     (\<forall>cfg r start frame. m_Scanning m \<and> scan_rate_hz cfg = Num False r \<and> 0 \<le> r \<and> r * 2 ^ 31 \<le> 10 ^ 9 \<longrightarrow>
        \<not> is_defined (scan_thread_step P R (Next_Frame start frame) (m\<lparr>m_cfg := cfg\<rparr>)))"
proof -
  have "header_ok P" using assms(1-3) by (simp add: header_ok_def)
  then have "(\<lambda>s :: scan_pc \<times> ('a, 'b) mps. header_ok P \<and> scan_init P R s) = scan_init P R" by (simp add: fun_eq_iff)
  then have inv: "scan_inv P (pc, m)"
    using scan_thread.reach_inv [of P R "(pc, m)"] assms(4) by simp
  have d: "is_defined (scan_thread_step P R pc m)"
    using scan_thread_step_inv [OF assms(1-3) inv, of R] by auto
  have ops: "\<forall>oper. op_ok P oper \<longrightarrow> is_defined (control_step P R oper m)"
    using control_step_inv [OF assms(1,3) inv, of _ R] by fastforce
  let ?m = "fst (Shutdown P m)"
  have stop: "\<not> m_Running ?m" "\<not> m_Scanning ?m" "m_nSubFrameAverages ?m = m_nSubFrameAverages m"
    by (simp_all add: Shutdown_def StopScan_def Let_def split: prod.splits)
  have "scan_inv P (pc, ?m)"
    using control_step_inv [OF assms(1,3) inv, of Shut_Down R] by (cases "Shutdown P m") auto
  then have fin: "\<exists>m' ev. thread_run P R (unat (m_nSubFrameAverages m) + 5) pc ?m = Inr (Thread_End, m', ev)"
    using stopped_thread_ends [OF assms(1-3) _ stop(1,2)] steps_left_bound unfolding stop(3) by blast
  have acc: "\<forall>fe dt frame i acc. pc = Sampling fe dt frame i acc \<longrightarrow>
      length acc = MPS_MAX_PRESSURE_CH_COUNT P \<and> (\<forall>a \<in> set acc. \<bar>a\<bar> < 2 ^ 63)"
    using inv totals_ok_64 [OF assms(2)] by (fastforce simp: scan_inv_def)
  have slow: "\<forall>cfg r start frame. m_Scanning m \<and> scan_rate_hz cfg = Num False r \<and> 0 \<le> r \<and> r * 2 ^ 31 \<le> 10 ^ 9 \<longrightarrow>
        \<not> is_defined (scan_thread_step P R (Next_Frame start frame) (m\<lparr>m_cfg := cfg\<rparr>))"
    by (simp add: scan_thread_step_simps frame_period_slow)
  have st: "m_Scanning m \<or> sampling pc \<longrightarrow> scan_ok P m" "m_Status m = MPS_STATUS_SCAN P \<longrightarrow> m_Scanning m"
    "\<not> m_Scanning m \<and> \<not> m_Calibrating m \<longrightarrow> m_Status m = MPS_STATUS_READY P"
    using inv by (auto simp: scan_inv_def)
  note parts = conjI [OF d conjI [OF ops conjI [OF st(1) conjI [OF acc conjI [OF st(2) conjI [OF st(3) conjI [OF fin slow]]]]]]]
  show ?thesis by (rule parts)
qed

theorem scan_thread_is_safe_witness:
  "\<exists>m. reach (scan_init sample_protocol sample_random) (scan_system sample_protocol sample_random) (Next_Frame 0 1, m) \<and>
     m_Scanning m \<and> is_defined (scan_thread_step sample_protocol sample_random (Next_Frame 0 1) m)"
proof -
  let ?P = "sample_protocol" and ?R = "sample_random"
  let ?m = "Start (sample_device (Num False 10))"
  have cfg: "cfg_ok ?P (sample_config (Num False 10))"
    by (auto simp: cfg_ok_def supported_def device_types_def sample_config_def sample_protocol_def simp: slowest_rate_def)
  then have "scan_init ?P ?R (Loop_Top, ?m)" unfolding scan_init_def sample_device_def by auto
  then have r0: "reach (scan_init ?P ?R) (scan_system ?P ?R) (Loop_Top, ?m)" by (rule reach_init)
  have m: "m_Running ?m" "\<not> m_Calibrating ?m" "m_ScanStartTime ?m = 0" "\<not> m_Scanning ?m"
    "m_cfg ?m = sample_config (Num False 10)" by (simp_all add: Start_def sample_device_def Mps_def)
  have "scan_thread_step ?P ?R Loop_Top ?m = Inr (Next_Frame 0 1, ?m, [])"
    using m by (simp add: scan_thread_step_def)
  then have r1: "reach (scan_init ?P ?R) (scan_system ?P ?R) (Next_Frame 0 1, ?m)"
    by (rule reach_step [OF r0 scan_system.thread])
  obtain m1 ev where m1: "StartScan ?P ?R 0 0 ?m = Inr (m1, ev)" "m_Scanning m1"
    using StartScan_scan_ok [OF sample_sizes_ok _ _ m(4), of ?R 0 0] cfg m(5) by (auto simp: cfg_ok_def)
  have "scan_system ?P ?R (Next_Frame 0 1, ?m) (Next_Frame 0 1, m1)"
    by (rule scan_system.other [of _ "Start_Scan 0 0"]) (use m1 in simp_all)
  then have r2: "reach (scan_init ?P ?R) (scan_system ?P ?R) (Next_Frame 0 1, m1)" by (rule reach_step [OF r1])
  show ?thesis
    using scan_thread_is_safe [OF sample_enums_ok sample_adc_ok sample_sizes_ok r2] r2 m1(2) by blast
qed

subsection \<open>Two races\<close>

text \<open>
  The calibration ends with the status READY also when a scan has been started meanwhile: the
  scanner then scans, and says it is ready.
\<close>

lemma calibration_hides_scan:
  assumes "m_Scanning m"
  shows "\<exists>pc1 m1. scan_thread_step P R Calibrating_Sleep m = Inr (pc1, m1, notify m) \<and>
           m_Scanning m1 \<and> m_Status m1 = MPS_STATUS_READY P"
  using assms by (simp add: scan_thread_step_def notify_def Let_def)

text \<open>
  A scan that is stopped and started again within one frame is not noticed by the thread: it
  goes on with the frame number and the start time of the old scan.
\<close>

lemma restarted_scan_keeps_counting:
  assumes "enums_ok P" and "adc_ok P" and "sizes_ok P" and "cfg_ok P (m_cfg m)"
    and "StartScan P R t1 t2 (fst (StopScan P m)) = Inr (m1, ev)"
  shows "\<exists>m2 ev2 start2. thread_run P R (unat (m_nSubFrameAverages m1) + 3) (Next_Frame start frame) m1 =
           Inr (Next_Frame start2 (frame + 1), m2, ev2) \<and> m_ScanStartTime m1 = t2"
proof -
  let ?s = "fst (StopScan P m)"
  have idle: "\<not> m_Scanning ?s" by (simp add: StopScan_def Let_def)
  have c: "supported P (device_id (m_cfg ?s))" "usable_rate (scan_rate_hz (m_cfg ?s))"
    using assms(4) by (simp_all add: cfg_ok_def)
  have ok: "scan_ok P m1" "m_Scanning m1" using StartScan_scan_ok [OF assms(3) c idle, of R t1 t2] assms(5) by auto
  obtain m2 ev2 start2 where "scan_frame P R start frame m1 = Inr (m2, ev2, start2, frame + 1)"
    using scan_frame_scan_ok [OF assms(1-3) ok(1)] by blast
  from frame_left_alone [OF assms(1-3) ok this] show ?thesis
    using StartScan_Inr [OF idle assms(5)] by blast
qed

text \<open>
  The number of averages is read again for each subframe and for the mean: when another thread
  sets it to \<open>n\<close> after \<open>i\<close> subframes, \<open>i\<close> not less than \<open>n\<close>, the frame is made at once and divides
  the sums of \<open>i\<close> samples by \<open>n\<close>.
\<close>

lemma averages_reread:
  assumes "unat (m_nSubFrameAverages m) \<le> i" and "frame_events P dt frame acc m = Inr ev"
  shows "scan_thread_step P R (Sampling fe dt frame i acc) m = Inr (Frame_Sleep fe frame, m, ev)"
  using assms by (simp add: scan_thread_step_simps)

end
