(* ===== verification/ScanRepeat.thy ===== *)
theory ScanRepeat
  imports MpsRun
begin

section \<open>Mps::StartScan and the scan thread: repeatable scans\<close>

text \<open>
  \<open>StartScan\<close> seeds the generator again, to ensure repeatable data for testing, as its comment
  says. It does not reset the normal distribution, whose object may keep something between
  draws; nor are the times of the scan the same. What that leaves of the repeatability is here.
\<close>

subsection \<open>Draws from distributions that are alike\<close>

text \<open>
  \<open>alike\<close> relates states of the distribution from which \<open>n\<close> draws, those of a subframe, give
  the same values and lead to alike states. Equal states are alike for any library.
\<close>

definition draws_alike :: "mps_protocol \<Rightarrow> ('g, 'd) random_lib \<Rightarrow> ('d \<Rightarrow> 'd \<Rightarrow> bool) \<Rightarrow> nat \<Rightarrow> bool" where
  "draws_alike P R alike n \<longleftrightarrow>
     (\<forall>acc d d' g. alike d d' \<and> length acc = n \<longrightarrow>
        (\<exists>xs e e' h. add_samples P R acc d g = (xs, e, h) \<and> add_samples P R acc d' g = (xs, e', h) \<and>
           alike e e'))"

lemma draws_alike_subframes:
  assumes "draws_alike P R alike n" and "alike d d'" and "length acc = n"
  shows "\<exists>xs e e' h. add_subframes P R k acc d g = (xs, e, h) \<and>
           add_subframes P R k acc d' g = (xs, e', h) \<and> alike e e'"
  using assms(2-)
proof (induction k arbitrary: acc d d' g)
  case (Suc k)
  obtain xs e e' h where s: "add_samples P R acc d g = (xs, e, h)"
    "add_samples P R acc d' g = (xs, e', h)" "alike e e'"
    using assms(1) Suc.prems unfolding draws_alike_def by blast
  have "length xs = n" using add_samples_length [OF s(1)] Suc.prems(2) by simp
  from Suc.IH [OF s(3) this, of h] s show ?case by simp
qed simp

lemma draws_alike_eq: "draws_alike P R (=) n"
proof -
  have "\<exists>xs e h. add_samples P R acc d g = (xs, e, h)" for acc d g by (metis prod_cases3)
  then show ?thesis by (simp add: draws_alike_def)
qed

text \<open>
  Implementations of the distribution make values in pairs: from a \<open>clean\<close> one, with no value
  kept, two draws depend on the generator only and leave it clean again. For these any two
  clean states are alike, as the numbers of channels are even.
\<close>

definition draws_in_pairs :: "('g, 'd) random_lib \<Rightarrow> ('d \<Rightarrow> bool) \<Rightarrow> bool" where
  "draws_in_pairs R clean \<longleftrightarrow>
     (\<forall>d d' g. clean d \<longrightarrow> clean d' \<longrightarrow>
        (let (x, e, h) = normal_draw R d g; (y, e2, h2) = normal_draw R e h;
             (x', e', h') = normal_draw R d' g; (y', e2', h2') = normal_draw R e' h'
         in x = x' \<and> y = y' \<and> h2 = h2' \<and> clean e2 \<and> clean e2'))"

lemma draws_in_pairs_samples:
  assumes "draws_in_pairs R clean" and "clean d" and "clean d'" and "even (length acc)"
  shows "\<exists>xs e e' h. add_samples P R acc d g = (xs, e, h) \<and> add_samples P R acc d' g = (xs, e', h) \<and>
           clean e \<and> clean e' \<and> length xs = length acc"
  using assms(2-)
proof (induction acc arbitrary: d d' g rule: induct_list012)
  case (3 a b rest)
  obtain x e h where d1: "normal_draw R d g = (x, e, h)" by (metis prod_cases3)
  obtain y e2 h2 where d2: "normal_draw R e h = (y, e2, h2)" by (metis prod_cases3)
  obtain x' e' h' where d1': "normal_draw R d' g = (x', e', h')" by (metis prod_cases3)
  obtain y' e2' h2' where d2': "normal_draw R e' h' = (y', e2', h2')" by (metis prod_cases3)
  have eq: "x' = x" "y' = y" "h2' = h2" and cl: "clean e2" "clean e2'"
    using assms(1) [unfolded draws_in_pairs_def, rule_format, OF 3(3,4), of g]
    by (simp_all add: d1 d2 d1' d2' Let_def)
  have "even (length rest)" using 3(5) by simp
  from 3(1) [OF cl this, of h2] obtain xs f f' k where
    r: "add_samples P R rest e2 h2 = (xs, f, k)" "add_samples P R rest e2' h2 = (xs, f', k)"
      "clean f" "clean f'" "length xs = length rest" by blast
  show ?case
    using r by (simp add: RandomSampleCounts_def d1 d2 d1' d2' eq Let_def)
qed simp_all

lemma draws_alike_in_pairs:
  "draws_in_pairs R clean \<Longrightarrow> even n \<Longrightarrow> draws_alike P R (\<lambda>d d'. clean d \<and> clean d') n"
  unfolding draws_alike_def using draws_in_pairs_samples by metis

subsection \<open>Devices whose scans cannot be told apart\<close>

definition same_scan :: "('d \<Rightarrow> 'd \<Rightarrow> bool) \<Rightarrow> ('g, 'd) mps \<Rightarrow> ('g, 'd) mps \<Rightarrow> bool" where
  "same_scan alike m m' \<longleftrightarrow>
     alike (m_NormalDistribution m) (m_NormalDistribution m') \<and>
     (\<exists>d t s ns run cal name pad. m' = m\<lparr>m_Name := name, m_Running := run, m_Calibrating := cal,
        m_ZeroPad := pad, m_NormalDistribution := d,
        m_ScanStartTime := t, m_ScanStartTimePTPSeconds := Some s, m_ScanStartTimePTPNanoseconds := Some ns\<rparr>)"

lemma same_scanE:
  assumes "same_scan alike m m'"
  obtains d t s ns run cal name pad where
    "m' = m\<lparr>m_Name := name, m_Running := run, m_Calibrating := cal,
        m_ZeroPad := pad, m_NormalDistribution := d,
        m_ScanStartTime := t, m_ScanStartTimePTPSeconds := Some s, m_ScanStartTimePTPNanoseconds := Some ns\<rparr>"
    "alike (m_NormalDistribution m) d"
  using assms by (auto simp: same_scan_def)

lemma same_scan_acquire:
  assumes "draws_alike P R alike (m_PhysicalPressureChannelCount m)" and "same_scan alike m m'"
    and "acquire P R m = Inr (fd, m1)"
  shows "\<exists>m1'. acquire P R m' = Inr (fd, m1') \<and> same_scan alike m1 m1' \<and>
           m_ScanStartTime m1' = m_ScanStartTime m'"
proof -
  let ?nc = "m_PhysicalPressureChannelCount m"
  obtain d t st ns run cal name pad where m': "m' = m\<lparr>m_Name := name, m_Running := run,
      m_Calibrating := cal, m_ZeroPad := pad, m_NormalDistribution := d, m_ScanStartTime := t,
      m_ScanStartTimePTPSeconds := Some st, m_ScanStartTimePTPNanoseconds := Some ns\<rparr>"
    and al: "alike (m_NormalDistribution m) d" by (rule same_scanE [OF assms(2)])
  obtain acc e e' h where
    s: "add_subframes P R (unat (m_nSubFrameAverages m)) (replicate ?nc 0) (m_NormalDistribution m)
          (m_RandomGenerator m) = (acc, e, h)"
      "add_subframes P R (unat (m_nSubFrameAverages m)) (replicate ?nc 0) d
          (m_RandomGenerator m) = (acc, e', h)" "alike e e'"
    using draws_alike_subframes [OF assms(1) al, of "replicate ?nc 0" "unat (m_nSubFrameAverages m)"
        "m_RandomGenerator m"] by auto
  have r: "resolve P m' acc = resolve P m acc" "beyond_arrays P m' = beyond_arrays P m"
    by (simp_all add: m' resolve_def beyond_arrays_def)
  have fd: "resolve P m acc = Inr fd" "m1 = with_draws m e h" "\<not> beyond_arrays P m"
    using assms(3) s(1) by (auto simp: acquire_def Let_def bind_ub_Inr_iff split: if_splits)
  have "acquire P R m' = Inr (fd, with_draws m' e' h)"
    using fd r s(2) by (simp add: acquire_def Let_def m')
  moreover have "same_scan alike m1 (with_draws m' e' h)"
    unfolding same_scan_def fd(2)
    by (intro conjI exI [of _ e'] exI [of _ t] exI [of _ st] exI [of _ ns] exI [of _ run]
        exI [of _ cal] exI [of _ name] exI [of _ pad]) (simp_all add: m' s(3))
  ultimately show ?thesis by auto
qed

lemma same_scan_fields:
  assumes "same_scan alike m m'"
  shows "labview_frame P m' fd frame = labview_frame P m fd frame"
    and "m_cfg m' = m_cfg m" and "m_Scanning m' = m_Scanning m"
    and "m_nSubFrameAverages m' = m_nSubFrameAverages m"
  by (rule same_scanE [OF assms], simp add: labview_frame_def labview_values_def Let_def)+

text \<open>
  Two callbacks that are the same but for the wall clock: equal, or legacy packets that differ
  in the two fields for the PTP time of the scan start only.
\<close>

definition same_but_clock :: "mps_protocol \<Rightarrow> device_event \<Rightarrow> device_event \<Rightarrow> bool" where
  "same_but_clock P e e' \<longleftrightarrow> e' = e \<or>
     (\<exists>n p h s ns. pkt_type p = MPS_PKT_LEGACY_TYPE P \<and> pkt_header p = Some h \<and>
        e = Frame_Ready (take n (mps_packet_layout P p)) \<and>
        e' = Frame_Ready (take n (mps_packet_layout P
               (p\<lparr>pkt_header := Some (h\<lparr>lh_ptp_scan_start_time_s := s, lh_ptp_scan_start_time_ns := ns\<rparr>)\<rparr>))))"

lemma same_but_clock_refl [simp]: "list_all2 (same_but_clock P) ev ev"
  by (rule list_all2_refl) (simp add: same_but_clock_def)

lemma same_scan_binary:
  assumes "same_scan alike m m'" and "sizes_ok P" and "binary_frame P m fd frame dt = Inr ev"
  shows "\<exists>ev'. binary_frame P m' fd frame dt = Inr ev' \<and> list_all2 (same_but_clock P) ev ev' \<and>
           (m_PacketType m \<noteq> MPS_PKT_LEGACY_TYPE P \<longrightarrow> ev' = ev)"
proof -
  obtain d t st ns run cal name pad where m': "m' = m\<lparr>m_Name := name, m_Running := run,
      m_Calibrating := cal, m_ZeroPad := pad, m_NormalDistribution := d, m_ScanStartTime := t,
      m_ScanStartTimePTPSeconds := Some st, m_ScanStartTimePTPNanoseconds := Some ns\<rparr>"
    by (rule same_scanE [OF assms(1)])
  have size: "packet_size P m' = packet_size P m" by (simp add: m' packet_size_def split: option.split)
  have plain: "packet_fields P m' fd frame dt raw None = packet_fields P m fd frame dt raw None" for raw
    by (simp add: m' packet_fields_def)
  show ?thesis
  proof (cases "m_UseBinary m \<and> m_PacketType m = MPS_PKT_LEGACY_TYPE P")
    case False
    have fields: "m_PacketType m' = m_PacketType m" "m_UseBinary m' = m_UseBinary m" "m_OnFrame m' = m_OnFrame m"
      "m_PacketPressureChannelCount m' = m_PacketPressureChannelCount m"
      "m_PacketTemperatureChannelCount m' = m_PacketTemperatureChannelCount m" by (simp_all add: m')
    have "m_UseBinary m \<Longrightarrow> build_packet P m' fd frame dt = build_packet P m fd frame dt"
      using False plain by (simp add: build_packet_def Let_def fields)
    then have "binary_frame P m' fd frame dt = binary_frame P m fd frame dt"
      unfolding binary_frame_def size fields by (cases "m_UseBinary m") simp_all
    then show ?thesis using assms(3) by simp
  next
    case legacy: True
    then obtain h where h: "legacy_fields P m = Inr h"
      using assms(3) by (auto simp: binary_frame_def build_packet_def Let_def bind_ub_Inr_iff)
    let ?p = "packet_fields P m fd frame dt (m_UseRaw m) (Some h)"
    let ?h' = "h\<lparr>lh_ptp_scan_start_time_s := st, lh_ptp_scan_start_time_ns := ns\<rparr>"
    let ?p' = "?p\<lparr>pkt_header := Some ?h'\<rparr>"
    have h': "legacy_fields P m' = Inr ?h'"
      using h by (auto simp: legacy_fields_def m' GetValveStatus_def split: option.splits)
    have b: "build_packet P m fd frame dt = Inr (Some ?p)" "build_packet P m' fd frame dt = Inr (Some ?p')"
      using legacy h h' by (simp_all add: build_packet_def Let_def m' packet_fields_def)
    have len: "length (mps_packet_layout P ?p') = length (mps_packet_layout P ?p)"
      using sizes_ok_layout [OF assms(2)] by simp
    let ?n = "packet_size P m"
    have same: "same_but_clock P (Frame_Ready (take ?n (mps_packet_layout P ?p)))
        (Frame_Ready (take ?n (mps_packet_layout P ?p')))"
      unfolding same_but_clock_def using legacy
      by (intro disjI2 exI [of _ ?n] exI [of _ ?p] exI [of _ h] exI [of _ st] exI [of _ ns])
        (simp add: packet_fields_def)
    have ev: "binary_frame P m fd frame dt = Inr ev \<Longrightarrow> binary_frame P m' fd frame dt =
        Inr (if ev = [] then [] else [Frame_Ready (take ?n (mps_packet_layout P ?p'))]) \<and>
        (ev = [] \<or> ev = [Frame_Ready (take ?n (mps_packet_layout P ?p))])"
      unfolding binary_frame_def b size using legacy len
      by (simp add: m' Let_def split: if_splits) auto
    then show ?thesis using assms(3) legacy same by (cases "ev = []") auto
  qed
qed

lemma same_scan_stop:
  assumes "same_scan alike m m'"
  shows "same_scan alike (fst (end_of_frame P frame m)) (fst (end_of_frame P frame m'))"
    and "snd (end_of_frame P frame m') = snd (end_of_frame P frame m)"
proof -
  obtain d t st ns run cal name pad where m': "m' = m\<lparr>m_Name := name, m_Running := run,
      m_Calibrating := cal, m_ZeroPad := pad, m_NormalDistribution := d, m_ScanStartTime := t,
      m_ScanStartTimePTPSeconds := Some st, m_ScanStartTimePTPNanoseconds := Some ns\<rparr>"
    and al: "alike (m_NormalDistribution m) d" by (rule same_scanE [OF assms])
  show "snd (end_of_frame P frame m') = snd (end_of_frame P frame m)"
    by (simp add: m' end_of_frame_def StopScan_def notify_def Let_def)
  define c where "c = (frames_per_scan (m_cfg m) \<noteq> 0 \<and> frames_per_scan (m_cfg m) = frame \<and> m_Scanning m)"
  have eof: "fst (end_of_frame P frame k) = (if c then k\<lparr>m_Scanning := False, m_Status := MPS_STATUS_READY P\<rparr> else k)"
    if "m_cfg k = m_cfg m" "m_Scanning k = m_Scanning m" for k
    using that unfolding c_def by (auto simp: end_of_frame_def StopScan_idle StopScan_scanning)
  have eofs: "fst (end_of_frame P frame m) = (if c then m\<lparr>m_Scanning := False, m_Status := MPS_STATUS_READY P\<rparr> else m)"
    "fst (end_of_frame P frame m') = (if c then m'\<lparr>m_Scanning := False, m_Status := MPS_STATUS_READY P\<rparr> else m')"
    using eof [of m] eof [of m'] by (simp_all add: m')
  show "same_scan alike (fst (end_of_frame P frame m)) (fst (end_of_frame P frame m'))"
  proof (cases c)
    case True
    let ?s = "\<lambda>k. k\<lparr>m_Scanning := False, m_Status := MPS_STATUS_READY P\<rparr>"
    have "?s m' = (?s m)\<lparr>m_Name := name, m_Running := run, m_Calibrating := cal, m_ZeroPad := pad,
        m_NormalDistribution := d, m_ScanStartTime := t, m_ScanStartTimePTPSeconds := Some st,
        m_ScanStartTimePTPNanoseconds := Some ns\<rparr>" by (simp add: m')
    moreover have "alike (m_NormalDistribution (?s m)) (m_NormalDistribution (?s m'))"
      using al by (simp add: m')
    ultimately show ?thesis using True unfolding same_scan_def eofs if_P [OF True] by blast
  next
    case False
    then show ?thesis using assms by (simp add: eofs)
  qed
qed

text \<open>The frame body, put together from the parts above.\<close>

lemma scan_frame_eq:
  "scan_frame P R start frame m =
     bind_ub (frame_period (scan_rate_hz (m_cfg m))) (\<lambda>period.
     bind_ub (if m_nSubFrameAverages m = 0 then Inr 0
              else subframe_period (scan_rate_hz (m_cfg m)) (m_nSubFrameAverages m)) (\<lambda>_.
     bind_ub (acquire P R m) (\<lambda>(fd, m1).
     bind_ub (labview_frame P m1 fd frame) (\<lambda>ev1.
     bind_ub (binary_frame P m1 fd frame (start - m_ScanStartTime m)) (\<lambda>ev2.
       Inr (fst (end_of_frame P frame m1), ev1 @ ev2 @ snd (end_of_frame P frame m1),
            start + period, frame + 1))))))"
  by (simp only: scan_frame_def Let_def end_of_frame_def [symmetric] case_prod_beta)

lemma same_scan_step:
  assumes "draws_alike P R alike (m_PhysicalPressureChannelCount m)" and "same_scan alike m m'"
    and "sizes_ok P" and "start' - m_ScanStartTime m' = start - m_ScanStartTime m"
    and r: "scan_frame P R start frame m = Inr (m1, ev, start1, frame1)"
  shows "\<exists>m1' ev' start1'. scan_frame P R start' frame m' = Inr (m1', ev', start1', frame1) \<and>
           list_all2 (same_but_clock P) ev ev' \<and> (m_PacketType m \<noteq> MPS_PKT_LEGACY_TYPE P \<longrightarrow> ev' = ev) \<and>
           same_scan alike m1 m1' \<and> start1' - m_ScanStartTime m1' = start1 - m_ScanStartTime m1 \<and>
           m_PhysicalPressureChannelCount m1 = m_PhysicalPressureChannelCount m \<and>
           m_PacketType m1 = m_PacketType m"
proof -
  note sf = same_scan_fields [OF assms(2)]
  obtain period sp fd ma ev1 ev2 where p: "frame_period (scan_rate_hz (m_cfg m)) = Inr period"
    and sp: "(if m_nSubFrameAverages m = 0 then Inr 0
              else subframe_period (scan_rate_hz (m_cfg m)) (m_nSubFrameAverages m)) = Inr sp"
    and a: "acquire P R m = Inr (fd, ma)" and l: "labview_frame P ma fd frame = Inr ev1"
    and b: "binary_frame P ma fd frame (start - m_ScanStartTime m) = Inr ev2"
    and res: "m1 = fst (end_of_frame P frame ma)" "ev = ev1 @ ev2 @ snd (end_of_frame P frame ma)"
      "start1 = start + period" "frame1 = frame + 1"
    using r unfolding scan_frame_eq
    by (auto simp only: bind_ub_Inr_iff split_paired_Ex prod.case prod.inject sum.inject)
  obtain ma' where a': "acquire P R m' = Inr (fd, ma')" and s': "same_scan alike ma ma'"
    and t': "m_ScanStartTime ma' = m_ScanStartTime m'"
    using same_scan_acquire [OF assms(1,2) a] by blast
  obtain d g where ma: "ma = with_draws m d g"
    using a by (auto simp: acquire_def Let_def bind_ub_Inr_iff split: if_splits prod.splits)
  obtain ev2' where b': "binary_frame P ma' fd frame (start - m_ScanStartTime m) = Inr ev2'"
    "list_all2 (same_but_clock P) ev2 ev2'" "m_PacketType m \<noteq> MPS_PKT_LEGACY_TYPE P \<longrightarrow> ev2' = ev2"
    using same_scan_binary [OF s' assms(3) b] by (auto simp: ma)
  note sa = same_scan_fields [OF s'] and st = same_scan_stop [OF s', of P frame]
  let ?ev' = "ev1 @ ev2' @ snd (end_of_frame P frame ma)"
  have "scan_frame P R start' frame m' =
      Inr (fst (end_of_frame P frame ma'), ?ev', start' + period, frame1)"
    unfolding scan_frame_eq sf assms(4) p sp a' bind_ub.simps prod.case sa(1) l b'(1) st(2) res
    by (rule refl)
  moreover have "start' + period - m_ScanStartTime (fst (end_of_frame P frame ma')) =
      start1 - m_ScanStartTime m1"
    using assms(4) res by (simp add: t' ma)
  moreover have "m_PhysicalPressureChannelCount m1 = m_PhysicalPressureChannelCount m \<and>
      m_PacketType m1 = m_PacketType m"
    by (simp add: res ma end_of_frame_def StopScan_def Let_def)
  moreover have "list_all2 (same_but_clock P) ev ?ev'"
    unfolding res(2) by (intro list_all2_appendI b'(2) same_but_clock_refl)
  ultimately show ?thesis using st(1) res(1,2) b'(3) by blast
qed

lemma same_scan_run:
  assumes "draws_alike P R alike (m_PhysicalPressureChannelCount m)" and "same_scan alike m m'"
    and "sizes_ok P" and "start' - m_ScanStartTime m' = start - m_ScanStartTime m"
    and "scan_run P R k start frame m = Inr (m1, ev, fin)"
  shows "\<exists>m1' ev'. scan_run P R k start' frame m' = Inr (m1', ev', fin) \<and> same_scan alike m1 m1' \<and>
           list_all2 (same_but_clock P) ev ev' \<and> (m_PacketType m \<noteq> MPS_PKT_LEGACY_TYPE P \<longrightarrow> ev' = ev)"
  using assms(1,2,4,5)
proof (induction k arbitrary: m m' start start' frame ev)
  case 0
  then show ?case using same_scan_fields(3) [OF 0(2)] by (auto simp: scan_run.simps split: if_splits)
next
  case (Suc k)
  note sc = same_scan_fields(3) [OF Suc.prems(2)]
  show ?case
  proof (cases "m_Scanning m")
    case False
    then show ?thesis using Suc.prems sc by (auto simp: scan_run.simps)
  next
    case True
    then obtain ma eva starta framea evb where
      f: "scan_frame P R start frame m = Inr (ma, eva, starta, framea)"
      and rest: "scan_run P R k starta framea ma = Inr (m1, evb, fin)" and ev: "ev = eva @ evb"
      using Suc.prems(4) by (auto simp: scan_run.simps [of P R "Suc k"] bind_ub_Inr_iff)
    from same_scan_step [OF Suc.prems(1,2) assms(3) Suc.prems(3) f] obtain ma' eva' starta' where
      f': "scan_frame P R start' frame m' = Inr (ma', eva', starta', framea)"
      and e: "list_all2 (same_but_clock P) eva eva'" "m_PacketType m \<noteq> MPS_PKT_LEGACY_TYPE P \<longrightarrow> eva' = eva"
      and s: "same_scan alike ma ma'" "starta' - m_ScanStartTime ma' = starta - m_ScanStartTime ma"
      and fr: "m_PhysicalPressureChannelCount ma = m_PhysicalPressureChannelCount m"
        "m_PacketType ma = m_PacketType m" by blast
    have "draws_alike P R alike (m_PhysicalPressureChannelCount ma)" using fr(1) Suc.prems(1) by simp
    from Suc.IH [OF this s rest] obtain m1' evb' where
      rest': "scan_run P R k starta' framea ma' = Inr (m1', evb', fin)" "same_scan alike m1 m1'"
        "list_all2 (same_but_clock P) evb evb'" "m_PacketType m \<noteq> MPS_PKT_LEGACY_TYPE P \<longrightarrow> evb' = evb"
      using fr(2) by auto
    have "scan_run P R (Suc k) start' frame m' = Inr (m1', eva' @ evb', fin)"
      using f' rest'(1) True sc by (simp add: scan_run.simps [of P R "Suc k"])
    moreover have "list_all2 (same_but_clock P) ev (eva' @ evb')"
      unfolding ev by (rule list_all2_appendI [OF e(1) rest'(3)])
    ultimately show ?thesis using e(2) rest'(2,4) ev by auto
  qed
qed

lemma UpdateScanAverages_same:
  assumes "scan_rate_hz (m_cfg m') = scan_rate_hz (m_cfg m)"
    and "UpdateScanAverages m = Inr k" and "UpdateScanAverages m' = Inr k'"
  shows "m_nSubFrameAverages k' = m_nSubFrameAverages k"
  using assms by (auto simp: UpdateScanAverages_def Let_def bind_ub_Inr_iff split: if_splits)

lemma StartScan_form:
  assumes "StartScan P R a b m = Inr (s, ev)" and "\<not> m_Scanning m"
  shows "\<exists>n. s = (ConfigureScanLayout P (m\<lparr>m_RandomGenerator := mt19937 R (ucast (hash_string R (m_Name m))),
             m_ScanStartTime := b, m_ScanStartTimePTPSeconds := Some (word_of_int (ptp_seconds a)),
             m_ScanStartTimePTPNanoseconds := Some (word_of_int (a - ptp_seconds a * 10 ^ 9))\<rparr>))
             \<lparr>m_nSubFrameAverages := n, m_Scanning := True, m_Status := MPS_STATUS_SCAN P\<rparr> \<and>
           UpdateScanAverages m = Inr (m\<lparr>m_nSubFrameAverages := n\<rparr>)"
proof -
  let ?c = "ConfigureScanLayout P (m\<lparr>m_RandomGenerator := mt19937 R (ucast (hash_string R (m_Name m))),
             m_ScanStartTime := b, m_ScanStartTimePTPSeconds := Some (word_of_int (ptp_seconds a)),
             m_ScanStartTimePTPNanoseconds := Some (word_of_int (a - ptp_seconds a * 10 ^ 9))\<rparr>)"
  obtain k where k: "UpdateScanAverages ?c = Inr k"
    and s: "s = k\<lparr>m_Scanning := True, m_Status := MPS_STATUS_SCAN P\<rparr>"
    using assms by (auto simp: StartScan_def Let_def bind_ub_Inr_iff)
  have rate: "scan_rate_hz (m_cfg m) = scan_rate_hz (m_cfg ?c)" by simp
  from UpdateScanAverages_cong [OF rate] k obtain l where l: "UpdateScanAverages m = Inr l"
    using is_defined_Inr by fastforce
  have "s = ?c\<lparr>m_nSubFrameAverages := m_nSubFrameAverages k, m_Scanning := True,
      m_Status := MPS_STATUS_SCAN P\<rparr>"
    using UpdateScanAverages_frame [OF k] s by (metis (lifting))
  moreover have "l = m\<lparr>m_nSubFrameAverages := m_nSubFrameAverages k\<rparr>"
    using UpdateScanAverages_frame [OF l] UpdateScanAverages_same [OF rate k l] by simp
  ultimately show ?thesis using l by blast
qed

lemma StartScan_same_scan:
  assumes "StartScan P R a b m = Inr (s, ev)" and "StartScan P R a' b' m' = Inr (s', ev')"
    and "\<not> m_Scanning m" and "\<not> m_Scanning m'"
    and "m_Name m' = m_Name m" and "m_cfg m' = m_cfg m" and "supported P (device_id (m_cfg m))"
    and "m_OnFrame m' = m_OnFrame m" and "m_OnLabviewFrame m' = m_OnLabviewFrame m"
    and "m_OnStatusChanged m' = m_OnStatusChanged m"
    and "alike (m_NormalDistribution m) (m_NormalDistribution m')"
  shows "same_scan alike s s'"
proof -
  obtain pc tc where phys: "\<And>x. physical_channels P (device_id (m_cfg m)) x = (pc, tc)"
  proof
    show "physical_channels P (device_id (m_cfg m)) x =
        (fst (physical_channels P (device_id (m_cfg m)) (0, 0)),
         snd (physical_channels P (device_id (m_cfg m)) (0, 0)))" for x
      using assms(7) by (auto simp: physical_channels_def supported_def device_types_def)
  qed
  obtain n where s: "s = (ConfigureScanLayout P (m\<lparr>m_RandomGenerator := mt19937 R (ucast (hash_string R (m_Name m))),
             m_ScanStartTime := b, m_ScanStartTimePTPSeconds := Some (word_of_int (ptp_seconds a)),
             m_ScanStartTimePTPNanoseconds := Some (word_of_int (a - ptp_seconds a * 10 ^ 9))\<rparr>))
             \<lparr>m_nSubFrameAverages := n, m_Scanning := True, m_Status := MPS_STATUS_SCAN P\<rparr>"
    and n: "UpdateScanAverages m = Inr (m\<lparr>m_nSubFrameAverages := n\<rparr>)"
    using StartScan_form [OF assms(1,3)] by blast
  obtain n' where s': "s' = (ConfigureScanLayout P (m'\<lparr>m_RandomGenerator := mt19937 R (ucast (hash_string R (m_Name m'))),
             m_ScanStartTime := b', m_ScanStartTimePTPSeconds := Some (word_of_int (ptp_seconds a')),
             m_ScanStartTimePTPNanoseconds := Some (word_of_int (a' - ptp_seconds a' * 10 ^ 9))\<rparr>))
             \<lparr>m_nSubFrameAverages := n', m_Scanning := True, m_Status := MPS_STATUS_SCAN P\<rparr>"
    and n': "UpdateScanAverages m' = Inr (m'\<lparr>m_nSubFrameAverages := n'\<rparr>)"
    using StartScan_form [OF assms(2,4)] by blast
  have nn: "n' = n" using UpdateScanAverages_same [OF _ n n'] assms(6) by simp
  have "s' = s\<lparr>m_Name := m_Name m, m_Running := m_Running m', m_Calibrating := m_Calibrating m',
      m_ZeroPad := m_ZeroPad s, m_NormalDistribution := m_NormalDistribution m',
      m_ScanStartTime := b', m_ScanStartTimePTPSeconds := Some (word_of_int (ptp_seconds a')),
      m_ScanStartTimePTPNanoseconds := Some (word_of_int (a' - ptp_seconds a' * 10 ^ 9))\<rparr>"
    unfolding s s' nn
    by (rule mps.equality) (simp_all add: assms(5-10) ConfigureScanLayout_def Let_def phys)
  moreover have "alike (m_NormalDistribution s) (m_NormalDistribution s')"
    using assms(11) by (simp add: s s')
  ultimately show ?thesis unfolding same_scan_def by blast
qed

lemma not_legacy:
  assumes "enums_ok P"
  shows "binary_packet_type P False raw dev \<noteq> MPS_PKT_LEGACY_TYPE P \<and>
         MPS_PKT_UNDEFINED P \<noteq> MPS_PKT_LEGACY_TYPE P"
  using assms by (auto simp: binary_packet_type_def enums_ok_def packet_types_def)

subsection \<open>Repeated scans\<close>

lemma scans_repeat:
  assumes alike: "alike (m_NormalDistribution m) (m_NormalDistribution m')"
    and draws: "\<And>n. even n \<Longrightarrow> draws_alike P R alike n"
    and P: "enums_ok P" "sizes_ok P" and sup: "supported P (device_id (m_cfg m))"
    and same: "m_Name m' = m_Name m" "m_cfg m' = m_cfg m"
      "m_OnFrame m' = m_OnFrame m" "m_OnLabviewFrame m' = m_OnLabviewFrame m" "m_OnStatusChanged m' = m_OnStatusChanged m"
    and idle: "\<not> m_Scanning m" "\<not> m_Scanning m'"
    and st: "StartScan P R a b m = Inr (s, e)" "StartScan P R a' b' m' = Inr (s', e')"
    and run: "scan_run P R k b 1 s = Inr (t, ev, fin)"
  shows "\<exists>t' ev'. scan_run P R k b' 1 s' = Inr (t', ev', fin) \<and>
           alike (m_NormalDistribution t) (m_NormalDistribution t') \<and>
           list_all2 (same_but_clock P) ev ev' \<and> (\<not> bit (sim (m_cfg m)) 6 \<longrightarrow> ev' = ev)"
proof -
  have ss: "same_scan alike s s'"
    by (rule StartScan_same_scan [where alike = alike, OF st idle same(1,2) sup same(3-5)]) (rule alike)
  have t: "b' - m_ScanStartTime s' = b - m_ScanStartTime s"
    using StartScan_Inr [OF idle(1) st(1)] StartScan_Inr [OF idle(2) st(2)] by simp
  obtain n c where s: "s = (ConfigureScanLayout P c)
      \<lparr>m_nSubFrameAverages := n, m_Scanning := True, m_Status := MPS_STATUS_SCAN P\<rparr>"
    and c: "m_cfg c = m_cfg m"
    using StartScan_form [OF st(1) idle(1)] by (auto intro!: that)
  have "layout_ok P (ConfigureScanLayout P c)" using sup by (intro ConfigureScanLayout_ok) (simp add: c)
  then have "even (m_PhysicalPressureChannelCount s)" by (auto simp: layout_ok_def s)
  from same_scan_run [OF draws [OF this] ss P(2) t run] obtain t' ev' where
    r: "scan_run P R k b' 1 s' = Inr (t', ev', fin)" "same_scan alike t t'"
      "list_all2 (same_but_clock P) ev ev'" "m_PacketType s \<noteq> MPS_PKT_LEGACY_TYPE P \<longrightarrow> ev' = ev" by blast
  have "m_PacketType s \<noteq> MPS_PKT_LEGACY_TYPE P" if "\<not> bit (sim (m_cfg m)) 6"
  proof -
    have "MPS_SIM_SIMULATED_64CH P = 2 ^ 6" using P(1) by (simp add: enums_ok_def)
    then have "and (sim (m_cfg c)) (MPS_SIM_SIMULATED_64CH P) = 0"
      using that by (simp only: c and_exp_eq_0_iff_not_bit not_False_eq_True)
    then have pad: "(and (sim (m_cfg c)) (MPS_SIM_SIMULATED_64CH P) \<noteq> 0) = False" by (simp only: simp_thms)
    have "m_PacketType s = m_PacketType (ConfigureScanLayout P c)" by (simp add: s)
    also have "\<dots> \<noteq> MPS_PKT_LEGACY_TYPE P"
      unfolding ConfigureScanLayout_fields(9) pad using not_legacy [OF P(1)] by (simp split: if_split)
    finally show ?thesis .
  qed
  then show ?thesis using r by (auto simp: same_scan_def)
qed

text \<open>
  Property C11: scans are repeatable, as far as the code makes them. Take two scanners of the
  same name, configuration and callbacks whose distribution objects are in the same state, as
  in two runs of the program before their first scan. Whenever their scans start, as many
  frames of the one and of the other make the same callbacks in the same order, with the same
  bytes but for the two fields of legacy packets that hold the wall-clock time of the start;
  without SIM bit 6, where there are no legacy packets, the bytes are all the same. The
  distributions are then in the same state again, so the scans after these agree as well. The
  library's generator and distribution are arbitrary functions of their states.
\<close>

theorem repeatable_scans:
  assumes "m_NormalDistribution m' = m_NormalDistribution m"
    and "enums_ok P" and "sizes_ok P" and "supported P (device_id (m_cfg m))"
    and "m_Name m' = m_Name m" and "m_cfg m' = m_cfg m"
    and "m_OnFrame m' = m_OnFrame m" and "m_OnLabviewFrame m' = m_OnLabviewFrame m"
    and "m_OnStatusChanged m' = m_OnStatusChanged m"
    and "\<not> m_Scanning m" and "\<not> m_Scanning m'"
    and "StartScan P R a b m = Inr (s, e)" and "StartScan P R a' b' m' = Inr (s', e')"
    and "scan_run P R k b 1 s = Inr (t, ev, fin)"
  shows "\<exists>t' ev'. scan_run P R k b' 1 s' = Inr (t', ev', fin) \<and>
           m_NormalDistribution t' = m_NormalDistribution t \<and>
           list_all2 (same_but_clock P) ev ev' \<and> (\<not> bit (sim (m_cfg m)) 6 \<longrightarrow> ev' = ev)"
  using scans_repeat [OF assms(1) [symmetric] draws_alike_eq assms(2-14)] by metis

text \<open>
  One device, scan after scan: its distribution object goes on from where the last scan left
  it, so this needs more of the library, that a subframe's draws do not depend on it. Without,
  the data may differ, as the README warns.
\<close>

theorem later_scans_repeat:
  assumes "draws_in_pairs R clean" and "clean (m_NormalDistribution m)" and "clean (m_NormalDistribution m')"
    and "enums_ok P" and "sizes_ok P" and "supported P (device_id (m_cfg m))"
    and "m_Name m' = m_Name m" and "m_cfg m' = m_cfg m"
    and "m_OnFrame m' = m_OnFrame m" and "m_OnLabviewFrame m' = m_OnLabviewFrame m"
    and "m_OnStatusChanged m' = m_OnStatusChanged m"
    and "\<not> m_Scanning m" and "\<not> m_Scanning m'"
    and "StartScan P R a b m = Inr (s, e)" and "StartScan P R a' b' m' = Inr (s', e')"
    and "scan_run P R k b 1 s = Inr (t, ev, fin)"
  shows "\<exists>t' ev'. scan_run P R k b' 1 s' = Inr (t', ev', fin) \<and>
           clean (m_NormalDistribution t) \<and> clean (m_NormalDistribution t') \<and>
           list_all2 (same_but_clock P) ev ev' \<and> (\<not> bit (sim (m_cfg m)) 6 \<longrightarrow> ev' = ev)"
  using scans_repeat [of "\<lambda>d d'. clean d \<and> clean d'", OF conjI [OF assms(2,3)]
      draws_alike_in_pairs [OF assms(1)] assms(4-16)] by blast

lemma sample_draws_in_pairs: "draws_in_pairs sample_random (\<lambda>saved. \<not> saved)"
  by (simp add: draws_in_pairs_def sample_random_def)

text \<open>The default configuration, with legacy packets, at two different times.\<close>

theorem repeatable_scans_witness:
  "\<exists>s e s' e' t ev fin t' ev'.
     StartScan sample_protocol sample_random 0 7 (sample_device (Num False 10)) = Inr (s, e) \<and>
     StartScan sample_protocol sample_random (5 * 10 ^ 9) 207 (sample_device (Num False 10)) = Inr (s', e') \<and>
     scan_run sample_protocol sample_random 5 7 1 s = Inr (t, ev, fin) \<and>
     scan_run sample_protocol sample_random 5 207 1 s' = Inr (t', ev', fin) \<and>
     list_all2 (same_but_clock sample_protocol) ev ev'"
proof -
  let ?m = "sample_device (Num False 10)"
  have sup: "supported sample_protocol (device_id (m_cfg ?m))"
    by (simp add: sample_device_def Mps_def sample_config_def supported_def device_types_def sample_protocol_def)
  have rate: "usable_rate (scan_rate_hz (m_cfg ?m))" by simp
  have idle: "\<not> m_Scanning ?m" by (simp add: sample_device_def Mps_def)
  obtain s e where s: "StartScan sample_protocol sample_random 0 7 ?m = Inr (s, e)" and ok: "scan_ok sample_protocol s"
    using StartScan_scan_ok [OF sample_sizes_ok sup rate idle] by blast
  obtain s' e' where s': "StartScan sample_protocol sample_random (5 * 10 ^ 9) 207 ?m = Inr (s', e')"
    using StartScan_scan_ok [OF sample_sizes_ok sup rate idle] by blast
  obtain t ev fin where r: "scan_run sample_protocol sample_random 5 7 1 s = Inr (t, ev, fin)"
    using is_defined_Inr [OF scan_run_defined [OF sample_enums_ok sample_adc_ok sample_sizes_ok ok]]
    by (metis prod_cases3)
  from repeatable_scans [OF refl sample_enums_ok sample_sizes_ok sup refl refl refl refl refl
      idle idle s s' r]
  obtain t' ev' where "scan_run sample_protocol sample_random 5 207 1 s' = Inr (t', ev', fin)"
    "list_all2 (same_but_clock sample_protocol) ev ev'" by blast
  with s s' r show ?thesis by blast
qed

end
