(* ===== verification/SafeCommands.thy ===== *)
theory SafeCommands
  imports Requests ScanThread ScanRepeat
begin

section \<open>Commands that keep the scanner well-formed\<close>

text \<open>
  Which commands the scanner answers without leaving defined behaviour and without getting a
  configuration that its thread cannot work with, as a condition on the text alone; and with
  it, what the layer makes of anything that a client or the console says.
\<close>

subsection \<open>Numbers in the range of their conversions\<close>

text \<open>
  A setting without its argument is refused, so that its argument only counts when it is
  there. A rate that is no number is ignored, and so is a number of frames or a port; the
  switches for UDP and FTP need one.
\<close>

definition argument :: "nat \<Rightarrow> (string \<Rightarrow> bool) \<Rightarrow> string list \<Rightarrow> bool" where
  "argument i ok ts \<longleftrightarrow> length ts \<le> i \<or> ok (c_str (ts ! i))"

definition rate_word :: "string \<Rightarrow> bool" where
  "rate_word w \<longleftrightarrow> (case sscanf_f w of None \<Rightarrow> True | Some x \<Rightarrow> Num False (10 ^ 9 / 2 ^ 31) < x)"

definition switch_word :: "string \<Rightarrow> bool" where
  "switch_word w \<longleftrightarrow> (case sscanf_d 32 w of Scan_Ok v \<Rightarrow> True | _ \<Rightarrow> False)"

definition fits :: "nat \<Rightarrow> string \<Rightarrow> bool" where
  "fits n w \<longleftrightarrow> sscanf_d n w \<noteq> Scan_Undefined"

definition in_range :: "string list \<Rightarrow> bool" where
  "in_range ts \<longleftrightarrow>
     (ts ! 0 \<in> {''SET'', ''set''} \<and> 2 \<le> length ts \<longrightarrow>
        (ts ! 1 \<in> {''RATE'', ''rate''} \<longrightarrow> argument 2 rate_word ts) \<and>
        (ts ! 1 \<in> {''FPS'', ''fps''} \<longrightarrow> argument 2 (fits 32) ts) \<and>
        (ts ! 1 \<in> {''ENUDP'', ''enudp'', ''ENFTP''} \<longrightarrow> argument 2 switch_word ts) \<and>
        (ts ! 1 \<in> {''IPUDP'', ''ipudp''} \<longrightarrow> argument 3 (fits 16) ts))"

text \<open>
  The numbers that \<open>sscanf\<close> reads are those of the format, for which that comparison is
  \<open>usable_rate\<close>.
\<close>

lemma sscanf_f_cases:
  assumes "sscanf_f w = Some x"
  obtains (num) s q where "x = fl binary32 s q" "0 \<le> q" | (inf) s where "x = Infinity s" | (nan) "x = NaN"
proof -
  obtain neg r where r: "take_sign (dropWhile is_space w) = (neg, r)" by fastforce
  have pos: "0 \<le> q" if "scan_num b xb k ec t = Some (Lit_Num q)" for b xb k ec t q
    using that by (auto simp: scan_num_def Let_def split: prod.splits if_splits)
  have "0 \<le> q" if "scan_flit r = Some (Lit_Num q)" for q
    using that by (auto simp: scan_flit_def nan_tail_def Let_def split: if_splits dest: pos)
  then show thesis
    using assms r that by (auto simp: sscanf_f_def split: option.splits flit.splits)
qed

lemma usable_rate_scanned:
  assumes "sscanf_f w = Some x"
  shows "usable_rate x \<longleftrightarrow> Num False (10 ^ 9 / 2 ^ 31) < x"
  using assms
proof (cases rule: sscanf_f_cases)
  case (num s q)
  then show ?thesis using usable_rate_above by simp
qed simp_all

lemma rate_word_usable: "rate_word w \<longleftrightarrow> (case sscanf_f w of None \<Rightarrow> True | Some x \<Rightarrow> usable_rate x)"
  by (auto simp: rate_word_def usable_rate_scanned split: option.split)

text \<open>What the control group owns and the configuration that stays well-formed.\<close>

lemma scan_inv_set_cfg:
  assumes "scan_inv P (pc, m)" and "device_id c = device_id (m_cfg m)" and "scan_rate_hz c = scan_rate_hz (m_cfg m)"
  shows "scan_inv P (pc, m\<lparr>m_cfg := c\<rparr>)"
  using assms by (auto simp: scan_inv_def cfg_ok_def scan_ok_fields(2))

definition scan_same :: "('g, 'd) mps \<Rightarrow> ('g, 'd) mps \<Rightarrow> bool" where
  "scan_same m m' \<longleftrightarrow> (\<exists>c. m' = m\<lparr>m_cfg := c\<rparr> \<and> device_id c = device_id (m_cfg m) \<and>
     scan_rate_hz c = scan_rate_hz (m_cfg m))"

lemma scan_same_inv: "scan_same m m' \<Longrightarrow> scan_inv P (pc, m) \<Longrightarrow> scan_inv P (pc, m')"
  using scan_inv_set_cfg by (auto simp: scan_same_def)

lemma scan_same_refl [simp]: "scan_same m m"
  unfolding scan_same_def by (intro exI [of _ "m_cfg m"]) simp

lemma SetDataFormat_same:
  "device_id (snd (SetDataFormat P ty fmt c)) = device_id c" "scan_rate_hz (snd (SetDataFormat P ty fmt c)) = scan_rate_hz c"
  by (simp_all add: SetDataFormat_def Let_def split: prod.splits)

lemma set_format_loop_same:
  "device_id (snd (set_format_loop P ts c)) = device_id c \<and> scan_rate_hz (snd (set_format_loop P ts c)) = scan_rate_hz c"
proof (induction ts arbitrary: c rule: induct_list012)
  case (3 x y rest)
  then show ?case
    using SetDataFormat_same [of P "char0 x" "char0 y" c]
    by (cases "SetDataFormat P (char0 x) (char0 y) c") (auto simp: Let_def)
qed simp_all

lemma set_commands_same:
  "set_fps cmd ts e m = Inr (s, m', e', ev) \<Longrightarrow> scan_same m m'"
  "set_enudp cmd ts e m = Inr (s, m', e', ev) \<Longrightarrow> scan_same m m'"
  "set_enftp cmd ts e m = Inr (s, m', e', ev) \<Longrightarrow> scan_same m m'"
  "set_ipudp cmd ts e m = Inr (s, m', e', ev) \<Longrightarrow> scan_same m m'"
  "set_format P ts e m = Inr (s, m', e', ev) \<Longrightarrow> scan_same m m'"
  "set_units P cmd ts e m = Inr (s, m', e', ev) \<Longrightarrow> scan_same m m'"
  "set_sim cmd ts e m = Inr (s, m', e', ev) \<Longrightarrow> scan_same m m'"
proof -
  have cfg: "scan_same m (m\<lparr>m_cfg := c\<rparr>)" if "device_id c = device_id (m_cfg m)" "scan_rate_hz c = scan_rate_hz (m_cfg m)" for c
    using that by (auto simp: scan_same_def)
  show "set_fps cmd ts e m = Inr (s, m', e', ev) \<Longrightarrow> scan_same m m'"
    "set_enudp cmd ts e m = Inr (s, m', e', ev) \<Longrightarrow> scan_same m m'"
    "set_enftp cmd ts e m = Inr (s, m', e', ev) \<Longrightarrow> scan_same m m'"
    "set_ipudp cmd ts e m = Inr (s, m', e', ev) \<Longrightarrow> scan_same m m'"
    "set_format P ts e m = Inr (s, m', e', ev) \<Longrightarrow> scan_same m m'"
    "set_units P cmd ts e m = Inr (s, m', e', ev) \<Longrightarrow> scan_same m m'"
    "set_sim cmd ts e m = Inr (s, m', e', ev) \<Longrightarrow> scan_same m m'"
    using set_format_loop_same [of P "drop 2 ts" "m_cfg m"]
    by (auto simp: set_fps_def set_enudp_def set_enftp_def set_ipudp_def set_format_def set_units_def set_sim_def
        set_cfg_def reply_def Let_def intro!: cfg split: if_splits option.splits scan.splits prod.splits)
qed

subsection \<open>One command\<close>

definition well_answered :: "mps_protocol \<Rightarrow> scan_pc \<Rightarrow> ('g, 'd) answer \<Rightarrow> bool" where
  "well_answered P pc r \<longleftrightarrow> (case r of Inl u \<Rightarrow> False | Inr (s, m, e, ev) \<Rightarrow> scan_inv P (pc, m))"

lemma well_answered_reply [simp]: "well_answered P pc (reply x m e) = scan_inv P (pc, m)"
  by (simp add: well_answered_def reply_def)

lemma well_answered_same:
  assumes "scan_inv P (pc, m)" and "\<And>s m' e' ev. r = Inr (s, m', e', ev) \<Longrightarrow> scan_same m m'"
  shows "well_answered P pc r = is_defined r"
  using assms(2) scan_same_inv [OF _ assms(1)] by (auto simp: well_answered_def split: sum.splits)

lemma set_rate_well:
  assumes inv: "scan_inv P (pc, m)"
  shows "well_answered P pc (set_rate cmd ts e m) = argument 2 rate_word ts"
proof (cases "length ts < 3")
  case True
  then show ?thesis using inv by (auto simp: set_rate_def argument_def)
next
  case False
  let ?w = "c_str (ts ! 2)"
  have new: "scan_inv P (pc, m\<lparr>m_cfg := c, m_nSubFrameAverages := n\<rparr>)"
    if "device_id c = device_id (m_cfg m)" "usable_rate (scan_rate_hz c)" "n \<noteq> 0" for c n
    using inv that by (auto simp: scan_inv_def cfg_ok_def scan_ok_def layout_ok_def packet_ok_def)
  have step: "well_answered P pc (bind_ub (UpdateScanAverages (m\<lparr>m_cfg := c\<rparr>)) (\<lambda>m2. reply cmd m2 e)) =
      usable_rate (scan_rate_hz c)" if d: "device_id c = device_id (m_cfg m)" for c
  proof (cases "usable_rate (scan_rate_hz c)")
    case True
    obtain n where "n \<noteq> 0" "UpdateScanAverages (m\<lparr>m_cfg := c\<rparr>) = Inr (m\<lparr>m_cfg := c, m_nSubFrameAverages := n\<rparr>)"
      using UpdateScanAverages_usable [of "m\<lparr>m_cfg := c\<rparr>"] True by auto
    then show ?thesis using new [OF d True] True by simp
  next
    case F: False
    show ?thesis
    proof (cases "UpdateScanAverages (m\<lparr>m_cfg := c\<rparr>)")
      case (Inr m2)
      then have "m_cfg m2 = c" using UpdateScanAverages_Inr [OF Inr] by auto
      then show ?thesis using F Inr by (auto simp: scan_inv_def cfg_ok_def)
    qed (use F in \<open>simp add: well_answered_def\<close>)
  qed
  have old: "usable_rate (scan_rate_hz (m_cfg m))" using inv by (simp add: scan_inv_def cfg_ok_def)
  show ?thesis
    using False step [of "m_cfg m"] step [of "(m_cfg m)\<lparr>scan_rate_hz := x\<rparr>" for x] old
    by (auto simp: set_rate_def argument_def rate_word_usable set_cfg_def Let_def split: option.split)
qed

subsection \<open>What becomes of scans at other rates\<close>

text \<open>
  A scan that is on makes all its frames, and so does one that is started, at any time: what
  the scanner is for. \<open>StartScan\<close> leaves a scan that is on as it is.
\<close>

definition scans_work :: "mps_protocol \<Rightarrow> ('g, 'd) random_lib \<Rightarrow> ('g, 'd) mps \<Rightarrow> bool" where
  "scans_work P R m \<longleftrightarrow>
     (\<forall>t1 t2. \<exists>m1 ev. StartScan P R t1 t2 m = Inr (m1, ev) \<and>
        (\<forall>k start frame. is_defined (scan_run P R k start frame m1)))"

lemma scan_inv_scans_work:
  assumes "enums_ok P" "adc_ok P" "sizes_ok P" and inv: "scan_inv P (pc, m)"
  shows "scans_work P R m"
  unfolding scans_work_def
proof (intro allI)
  fix t1 t2
  show "\<exists>m1 ev. StartScan P R t1 t2 m = Inr (m1, ev) \<and> (\<forall>k start frame. is_defined (scan_run P R k start frame m1))"
  proof (cases "m_Scanning m")
    case True
    then have "scan_ok P m" using inv by (simp add: scan_inv_def)
    then show ?thesis using True scan_run_defined [OF assms(1-3)] by (auto simp: StartScan_def)
  next
    case False
    then obtain m1 ev where "StartScan P R t1 t2 m = Inr (m1, ev)" "scan_ok P m1"
      using StartScan_scan_ok [OF assms(3) _ _ False, of R t1 t2] inv by (auto simp: scan_inv_def cfg_ok_def)
    then show ?thesis using scan_run_defined [OF assms(1-3)] by blast
  qed
qed

text \<open>
  At a rate of \<open>10 ^ 9 / 2 ^ 31\<close> Hz or less, but not negative, the period of the first frame does
  not fit an \<open>int\<close>. For a negative rate, an infinite one or a NaN the averages are undefined or
  none, and the mean of a channel divides by their number.
\<close>

lemma averages_not_positive:
  assumes "scan_rate_hz (m_cfg m) \<in> {NaN, Infinity True} \<or> (\<exists>r. scan_rate_hz (m_cfg m) = Num True r \<and> 0 \<le> r)"
    and "UpdateScanAverages m = Inr m'"
  shows "m_nSubFrameAverages m' = 0"
proof -
  consider (nan) "scan_rate_hz (m_cfg m) = NaN" | (inf) "scan_rate_hz (m_cfg m) = Infinity True"
    | (num) r where "scan_rate_hz (m_cfg m) = Num True r" "0 \<le> r" using assms(1) by auto
  then show ?thesis
  proof cases
    case (num r)
    have "\<not> 500 \<le> - r" using num(2) by linarith
    then obtain n where n: "cast_u32 (fceil (fdiv binary32 (Num False 500) (Num True r))) = Inr n"
      and m': "m' = m\<lparr>m_nSubFrameAverages := n\<rparr>"
      using assms(2) num(1) by (auto simp: UpdateScanAverages_def Let_def bind_ub_Inr_iff)
    let ?q = "rnd_mag binary32 (500 / r)"
    have "0 \<le> ?q" using num(2) by (intro rnd_mag_nonneg) simp
    then have "?q < 1 \<Longrightarrow> \<lfloor>?q\<rfloor> = 0" by (simp add: floor_eq_iff)
    then show ?thesis using n m'
      by (auto simp: fl_def cast_u32_def Let_def bind_ub_Inr_iff split: if_splits)
  qed (use assms(2) in \<open>auto simp: UpdateScanAverages_def cast_u32_def Let_def bind_ub_Inr_iff\<close>)
qed

lemma no_averages_no_frame:
  assumes "m_nSubFrameAverages m = 0" and "0 < m_PhysicalPressureChannelCount m"
  shows "\<not> is_defined (scan_frame P R start frame m)"
proof -
  have "\<exists>u. resolve P m (replicate (m_PhysicalPressureChannelCount m) 0) = Inl u"
    using assms by (simp add: resolve_def average_counts_def)
  then have "\<not> is_defined (acquire P R m)" using assms(1) by (auto simp: acquire_def)
  then show ?thesis by (auto simp: scan_frame_def is_defined_bind)
qed

lemma unusable_rate:
  assumes inv: "scan_inv P (pc, m)" and dev: "device_id c = device_id (m_cfg m)"
    and x: "sscanf_f w = Some x" "scan_rate_hz c = x" "\<not> usable_rate x"
    and u: "UpdateScanAverages (m\<lparr>m_cfg := c\<rparr>) = Inr m'"
  shows "\<not> scans_work P R m'"
proof
  assume work: "scans_work P R m'"
  obtain n where m': "m' = m\<lparr>m_cfg := c, m_nSubFrameAverages := n\<rparr>" using UpdateScanAverages_Inr [OF u] by auto
  obtain m1 ev where m1: "StartScan P R 0 0 m' = Inr (m1, ev)" "is_defined (scan_run P R 1 0 1 m1)"
    using work unfolding scans_work_def by blast
  have sup: "supported P (device_id c)" using inv dev by (simp add: scan_inv_def cfg_ok_def)
  have m1': "m_Scanning m1 \<and> m_cfg m1 = c \<and> layout_ok P m1 \<and>
      (x \<in> {NaN, Infinity True} \<or> (\<exists>r. x = Num True r \<and> 0 \<le> r) \<longrightarrow> m_nSubFrameAverages m1 = 0)"
  proof (cases "m_Scanning m")
    case True
    then have "m1 = m'" using m1(1) by (simp add: StartScan_def m')
    moreover have "layout_ok P m'" using inv True by (simp add: m' scan_inv_def scan_ok_def layout_ok_def)
    ultimately show ?thesis using True averages_not_positive [OF _ u] x(2) by (simp add: m')
  next
    case False
    then have idle: "\<not> m_Scanning m'" by (simp add: m')
    obtain k where k: "m1 = (ConfigureScanLayout P k)\<lparr>m_nSubFrameAverages := m_nSubFrameAverages m1, m_Scanning := True,
        m_Status := MPS_STATUS_SCAN P\<rparr>" "m_cfg k = m_cfg m'"
      "UpdateScanAverages m' = Inr (m'\<lparr>m_nSubFrameAverages := m_nSubFrameAverages m1\<rparr>)"
    proof -
      let ?k = "m'\<lparr>m_RandomGenerator := mt19937 R (ucast (hash_string R (m_Name m'))),
             m_ScanStartTime := 0, m_ScanStartTimePTPSeconds := Some (word_of_int (ptp_seconds 0)),
             m_ScanStartTimePTPNanoseconds := Some (word_of_int (0 - ptp_seconds 0 * 10 ^ 9))\<rparr>"
      obtain n where "m1 = (ConfigureScanLayout P ?k)
             \<lparr>m_nSubFrameAverages := n, m_Scanning := True, m_Status := MPS_STATUS_SCAN P\<rparr>"
        "UpdateScanAverages m' = Inr (m'\<lparr>m_nSubFrameAverages := n\<rparr>)"
        using StartScan_form [OF m1(1) idle] by blast
      then show ?thesis by (intro that [of ?k]) simp_all
    qed
    have "layout_ok P (ConfigureScanLayout P k)" by (rule ConfigureScanLayout_ok) (simp add: k(2) m' sup)
    then have "layout_ok P m1" by (subst k(1)) (simp add: layout_ok_def)
    moreover have "m_cfg m1 = c" by (subst k(1)) (simp add: k(2) m')
    moreover have "m_Scanning m1" by (subst k(1)) simp
    ultimately show ?thesis using averages_not_positive [OF _ k(3)] x(2) by (simp add: m')
  qed
  have frame: "is_defined (scan_frame P R 0 1 m1)"
    using m1(2) m1' [THEN conjunct1] by (cases "scan_frame P R 0 1 m1") (simp_all add: scan_run.simps [of P R "Suc 0"])
  show False
  proof (cases "\<exists>r. x = Num False r \<and> 0 \<le> r \<and> r * 2 ^ 31 \<le> 10 ^ 9")
    case True
    then have "frame_period (scan_rate_hz (m_cfg m1)) = Inl Unrepresentable" using frame_period_slow m1' x(2) by auto
    then show False using frame by (simp add: scan_frame_def)
  next
    case False
    have "x \<in> {NaN, Infinity True} \<or> (\<exists>r. x = Num True r \<and> 0 \<le> r)"
      using x(1)
    proof (cases rule: sscanf_f_cases)
      case (num s q)
      have "\<not> Num False (10 ^ 9 / 2 ^ 31) < x" using x(1,3) usable_rate_scanned by blast
      then show ?thesis using False num rnd_mag_nonneg [OF num(2), of binary32] by (auto simp: fl_def Let_def split: if_splits)
    qed (use x(3) in auto)
    then have "m_nSubFrameAverages m1 = 0" using m1' by blast
    moreover have "0 < m_PhysicalPressureChannelCount m1" using m1' by (auto simp: layout_ok_def)
    ultimately show False using no_averages_no_frame frame by blast
  qed
qed

subsection \<open>One command, continued\<close>

lemma set_rate_scans:
  assumes inv: "scan_inv P (pc, m)" and r: "set_rate cmd ts e m = Inr (s, m', e', ev)" and "scans_work P R m'"
  shows "argument 2 rate_word ts"
proof (rule ccontr)
  assume no: "\<not> argument 2 rate_word ts"
  then obtain x where x: "sscanf_f (c_str (ts ! 2)) = Some x" "\<not> usable_rate x" and len: "\<not> length ts < 3"
    by (auto simp: argument_def rate_word_usable split: option.splits)
  then obtain m1 where "UpdateScanAverages (m\<lparr>m_cfg := (m_cfg m)\<lparr>scan_rate_hz := x\<rparr>\<rparr>) = Inr m1" "m' = m1"
    using r by (auto simp: set_rate_def set_cfg_def reply_def bind_ub_Inr_iff)
  then show False using unusable_rate [OF inv _ x(1) _ x(2), of "(m_cfg m)\<lparr>scan_rate_hz := x\<rparr>"] assms(3) by auto
qed

lemma parse_tokens_set:
  assumes "ts ! 0 \<in> {''SET'', ''set''}"
  shows "parse_tokens P R t1 t2 cmd ts e m =
     (case parse_set P cmd ts e m of Some r \<Rightarrow> r | None \<Rightarrow> invalid_command cmd m e)"
proof -
  have a: "parse_action P R t1 t2 (ts ! 0) e m = None"
    using assms by (auto simp: parse_action_def char0_def ESC_def)
  have b: "ts ! 0 \<notin> {''GET'', ''get''}" "ts ! 0 \<notin> {''LIST'', ''list''}" using assms by auto
  show ?thesis
    unfolding parse_tokens_def Let_def a if_not_P [OF b(1)] if_not_P [OF b(2)] if_P [OF assms]
    by (cases "parse_set P cmd ts e m") simp_all
qed

lemma set_commands_well:
  assumes "scan_inv P (pc, m)"
  shows "well_answered P pc (set_fps cmd ts e m) = argument 2 (fits 32) ts"
    and "well_answered P pc (set_enudp cmd ts e m) = argument 2 switch_word ts"
    and "well_answered P pc (set_enftp cmd ts e m) = argument 2 switch_word ts"
    and "well_answered P pc (set_ipudp cmd ts e m) = argument 3 (fits 16) ts"
    and "well_answered P pc (set_format P ts e m)" and "well_answered P pc (set_units P cmd ts e m)"
    and "well_answered P pc (set_sim cmd ts e m)"
proof -
  note same = well_answered_same [OF assms]
  have d: "well_answered P pc (set_fps cmd ts e m) = is_defined (set_fps cmd ts e m)"
    "well_answered P pc (set_enudp cmd ts e m) = is_defined (set_enudp cmd ts e m)"
    "well_answered P pc (set_enftp cmd ts e m) = is_defined (set_enftp cmd ts e m)"
    "well_answered P pc (set_ipudp cmd ts e m) = is_defined (set_ipudp cmd ts e m)"
    "well_answered P pc (set_format P ts e m) = is_defined (set_format P ts e m)"
    "well_answered P pc (set_units P cmd ts e m) = is_defined (set_units P cmd ts e m)"
    "well_answered P pc (set_sim cmd ts e m) = is_defined (set_sim cmd ts e m)"
    by (rule same; erule set_commands_same)+
  show "well_answered P pc (set_fps cmd ts e m) = argument 2 (fits 32) ts"
    unfolding d by (auto simp: set_fps_def argument_def fits_def reply_def split: scan.split)
  show "well_answered P pc (set_enudp cmd ts e m) = argument 2 switch_word ts"
    unfolding d by (auto simp: set_enudp_def argument_def switch_word_def reply_def split: scan.split)
  show "well_answered P pc (set_enftp cmd ts e m) = argument 2 switch_word ts"
    unfolding d by (auto simp: set_enftp_def argument_def switch_word_def reply_def split: scan.split)
  show "well_answered P pc (set_ipudp cmd ts e m) = argument 3 (fits 16) ts"
    unfolding d by (auto simp: set_ipudp_def argument_def fits_def reply_def Let_def split: scan.split)
  show "well_answered P pc (set_format P ts e m)" "well_answered P pc (set_units P cmd ts e m)"
    "well_answered P pc (set_sim cmd ts e m)"
    unfolding d using set_format_defined [of P ts e m] set_units_defined [of P cmd ts e m] set_sim_defined [of cmd ts e m]
    by (auto simp: is_defined_def split: sum.split)
qed

lemma parse_set_well:
  assumes inv: "scan_inv P (pc, m)" and ts: "ts ! 0 \<in> {''SET'', ''set''}"
  shows "well_answered P pc (case parse_set P cmd ts e m of Some r \<Rightarrow> r | None \<Rightarrow> invalid_command cmd m e) = in_range ts"
proof -
  note well = set_commands_well [OF inv] set_rate_well [OF inv]
  have inval: "well_answered P pc (invalid_command cmd m e)" using inv by (simp add: invalid_command_def)
  consider (short) "length ts < 2"
    | (rate) "2 \<le> length ts" "ts ! 1 \<in> {''RATE'', ''rate''}"
    | (fps) "2 \<le> length ts" "ts ! 1 \<in> {''FPS'', ''fps''}"
    | (enudp) "2 \<le> length ts" "ts ! 1 \<in> {''ENUDP'', ''enudp''}"
    | (enftp) "2 \<le> length ts" "ts ! 1 \<in> {''ENFTP''}"
    | (ipudp) "2 \<le> length ts" "ts ! 1 \<in> {''IPUDP'', ''ipudp''}"
    | (other) "2 \<le> length ts" "ts ! 1 \<notin> {''RATE'', ''rate''}" "ts ! 1 \<notin> {''FPS'', ''fps''}" "ts ! 1 \<notin> {''ENUDP'', ''enudp''}" "ts ! 1 \<notin> {''ENFTP''}" "ts ! 1 \<notin> {''IPUDP'', ''ipudp''}"
    by linarith
  then show ?thesis
  proof cases
    case short
    then show ?thesis using inv by (simp add: parse_set_def in_range_def)
  next
    case rate
    have "parse_set P cmd ts e m = Some (set_rate cmd ts e m)"
      using rate by (elim insertE emptyE) (simp_all add: parse_set_def)
    moreover have "in_range ts = argument 2 rate_word ts" using rate ts by (elim insertE emptyE) (simp_all add: in_range_def)
    ultimately show ?thesis by (simp add: well)
  next
    case fps
    have "parse_set P cmd ts e m = Some (set_fps cmd ts e m)"
      using fps by (elim insertE emptyE) (simp_all add: parse_set_def)
    moreover have "in_range ts = argument 2 (fits 32) ts" using fps ts by (elim insertE emptyE) (simp_all add: in_range_def)
    ultimately show ?thesis by (simp add: well)
  next
    case enudp
    have "parse_set P cmd ts e m = Some (set_enudp cmd ts e m)"
      using enudp by (elim insertE emptyE) (simp_all add: parse_set_def)
    moreover have "in_range ts = argument 2 switch_word ts" using enudp ts by (elim insertE emptyE) (simp_all add: in_range_def)
    ultimately show ?thesis by (simp add: well)
  next
    case enftp
    have "parse_set P cmd ts e m = Some (set_enftp cmd ts e m)"
      using enftp by (elim insertE emptyE) (simp_all add: parse_set_def)
    moreover have "in_range ts = argument 2 switch_word ts" using enftp ts by (elim insertE emptyE) (simp_all add: in_range_def)
    ultimately show ?thesis by (simp add: well)
  next
    case ipudp
    have "parse_set P cmd ts e m = Some (set_ipudp cmd ts e m)"
      using ipudp by (elim insertE emptyE) (simp_all add: parse_set_def)
    moreover have "in_range ts = argument 3 (fits 16) ts" using ipudp ts by (elim insertE emptyE) (simp_all add: in_range_def)
    ultimately show ?thesis by (simp add: well)
  next
    case other
    have "in_range ts" using other(2-6) by (simp add: in_range_def)
    moreover have "well_answered P pc (case parse_set P cmd ts e m of Some r \<Rightarrow> r | None \<Rightarrow> invalid_command cmd m e)"
      using other well inval by (simp add: parse_set_def Let_def)
    ultimately show ?thesis by simp
  qed
qed

lemma ParseCommands_well:
  assumes P: "enums_ok P" "sizes_ok P" and inv: "scan_inv P (pc, m)"
  shows "well_answered P pc (ParseCommands P R t1 t2 cmd e m) = in_range (SplitString cmd command_delims)"
proof -
  let ?ts = "SplitString cmd command_delims"
  define r where "r = parse_tokens P R t1 t2 cmd ?ts e m"
  show ?thesis
  proof (cases "?ts ! 0 \<in> {''SET'', ''set''}")
    case True
    then show ?thesis
      using parse_set_well [OF inv True] by (simp add: ParseCommands_def parse_tokens_set [OF True])
  next
    case False
    then have "in_range ?ts" by (simp add: in_range_def)
    moreover have "well_answered P pc r"
      using parse_tokens_cases [of P R t1 t2 ?ts e m cmd]
    proof (cases rule: parse_tokens_cases [of P R t1 t2 ?ts e m cmd])
      case action
      then have "parse_action P R t1 t2 (?ts ! 0) e m = Some r" by (simp add: r_def)
      then show ?thesis
      proof (cases rule: parse_action_cases)
        case scan
        then show ?thesis using control_step_inv [OF P inv, of "Start_Scan t1 t2" R]
          by (auto simp: well_answered_def)
      next
        case calz
        then show ?thesis using control_step_inv [OF P inv, of Cal_Z R]
          by (cases "CalZ P m") (auto simp: well_answered_def)
      next
        case stop
        then show ?thesis using control_step_inv [OF P inv, of Stop_Scan R]
          by (cases "StopScan P m") (auto simp: well_answered_def)
      qed (use inv in simp)
    next
      case set
      then show ?thesis using False by simp
    next
      case get
      then have "parse_get P ?ts e m = Some r" by (simp add: r_def)
      then show ?thesis using inv by (auto simp: parse_get_def Let_def split: if_splits)
    next
      case list
      then have "parse_list P ?ts e m = Some r" by (simp add: r_def)
      then show ?thesis using inv by (auto simp: parse_list_def well_answered_def reply_def Let_def split: if_splits)
    next
      case invalid
      then show ?thesis using inv by (simp add: r_def invalid_command_def)
    qed
    ultimately show ?thesis by (simp add: ParseCommands_def r_def)
  qed
qed

lemma parse_set_same:
  assumes "parse_set P cmd ts e m = Some (Inr (s, m', e', ev))" and "ts ! 1 \<notin> {''RATE'', ''rate''}"
  shows "scan_same m m'"
  using assms set_commands_same unfolding parse_set_def Let_def
  by (simp only: if_False option.inject option.distinct reply_def sum.inject prod.inject scan_same_refl
      split: if_split_asm) (blast | simp)+

lemma answered_well:
  assumes P: "enums_ok P" "sizes_ok P" and inv: "scan_inv P (pc, m)"
    and r: "ParseCommands P R t1 t2 cmd e m = Inr (s, m', e', ev)"
    and other: "\<not> (SplitString cmd command_delims ! 0 \<in> {''SET'', ''set''} \<and> 2 \<le> length (SplitString cmd command_delims) \<and>
      SplitString cmd command_delims ! 1 \<in> {''RATE'', ''rate''})"
  shows "scan_inv P (pc, m')"
proof -
  let ?ts = "SplitString cmd command_delims"
  note well = ParseCommands_well [OF P inv, of R t1 t2 cmd e]
  show ?thesis
  proof (cases "?ts ! 0 \<in> {''SET'', ''set''} \<and> 2 \<le> length ?ts")
    case False
    then have "in_range ?ts" by (auto simp: in_range_def)
    then show ?thesis using well r by (simp add: well_answered_def)
  next
    case True
    then have rate: "?ts ! 1 \<notin> {''RATE'', ''rate''}" using other by blast
    have p: "(case parse_set P cmd ?ts e m of Some r \<Rightarrow> r | None \<Rightarrow> invalid_command cmd m e) = Inr (s, m', e', ev)"
      using r True by (simp add: ParseCommands_def parse_tokens_set)
    show ?thesis
    proof (cases "parse_set P cmd ?ts e m")
      case None
      then show ?thesis using p inv by (simp add: invalid_command_def reply_def)
    next
      case (Some a)
      then show ?thesis using p scan_same_inv [OF parse_set_same [OF _ rate] inv] by auto
    qed
  qed
qed

lemma ParseCommands_rate:
  assumes "ts = SplitString cmd command_delims" and "ts ! 0 \<in> {''SET'', ''set''}" and "2 \<le> length ts"
    and "ts ! 1 \<in> {''RATE'', ''rate''}"
  shows "ParseCommands P R t1 t2 cmd e m = set_rate cmd ts e m" and "in_range ts = argument 2 rate_word ts"
proof -
  have "parse_set P cmd ts e m = Some (set_rate cmd ts e m)"
    using assms(3,4) by (elim insertE emptyE) (simp_all add: parse_set_def)
  then show "ParseCommands P R t1 t2 cmd e m = set_rate cmd ts e m"
    unfolding ParseCommands_def assms(1) [symmetric] by (simp add: parse_tokens_set [OF assms(2)])
  show "in_range ts = argument 2 rate_word ts"
    using assms(2-4) by (elim insertE emptyE) (simp_all add: in_range_def)
qed

text \<open>
  Property C5: which commands the scanner is safe from, exactly, as a condition on the text
  alone. In any state of the scanner that its thread can reach, a text is answered and after it
  every scan, the one that is on or one that is started later, makes all its frames without
  leaving defined behaviour, if and only if the number that the text sets, if any, is in range:
  the rate of RATE is no number or one above \<open>10 ^ 9 / 2 ^ 31\<close> Hz (about 0.4657), that of FPS no
  number or one of 32 bits, the switch of ENUDP and ENFTP one of 32 bits, the port of IPUDP no
  number or one of 16 bits. Any other text, and a setting without its argument, is safe. The
  state is then again one of those that the thread is safe in.
\<close>

theorem commands_in_range:
  assumes "enums_ok P" and "adc_ok P" and "sizes_ok P" and "scan_inv P (pc, m)"
  shows "((\<exists>response m' errno' events. ParseCommands P R t1 t2 cmd errno m = Inr (response, m', errno', events) \<and>
             scans_work P R m') \<longleftrightarrow> in_range (SplitString cmd command_delims)) \<and>
         (in_range (SplitString cmd command_delims) \<longrightarrow>
            (\<exists>response m' errno' events. ParseCommands P R t1 t2 cmd errno m = Inr (response, m', errno', events) \<and>
               scan_inv P (pc, m')))"
proof -
  let ?ts = "SplitString cmd command_delims"
  note well = ParseCommands_well [OF assms(1,3,4), of R t1 t2 cmd errno]
  have safe: "\<exists>response m' errno' events. ParseCommands P R t1 t2 cmd errno m = Inr (response, m', errno', events) \<and>
      scan_inv P (pc, m')" if "in_range ?ts"
    using that well by (auto simp: well_answered_def split: sum.splits)
  have "in_range ?ts" if r: "ParseCommands P R t1 t2 cmd errno m = Inr (response, m', errno', events)"
    and work: "scans_work P R m'" for response m' errno' events
  proof (cases "?ts ! 0 \<in> {''SET'', ''set''} \<and> 2 \<le> length ?ts \<and> ?ts ! 1 \<in> {''RATE'', ''rate''}")
    case True
    then show ?thesis
      using ParseCommands_rate [OF refl, of cmd] r set_rate_scans [OF assms(4) _ work, of cmd ?ts errno] by metis
  next
    case False
    then show ?thesis using answered_well [OF assms(1,3,4) r] well r by (simp add: well_answered_def)
  qed
  then show ?thesis using safe scan_inv_scans_work [OF assms(1-3)] by blast
qed

lemma sample_scan_inv: "scan_inv sample_protocol (Loop_Top, sample_device (Num False 10))"
  by (auto simp: scan_inv_def cfg_ok_def sample_device_def Mps_def sample_config_def sample_protocol_def
      supported_def device_types_def simp: slowest_rate_def)

theorem commands_in_range_witness:
  "\<exists>response m' errno' events. ParseCommands sample_protocol sample_random 0 0 ''SCAN'' False
     (sample_device (Num False 10)) = Inr (response, m', errno', events) \<and> scans_work sample_protocol sample_random m'"
proof -
  have "SplitString ''SCAN'' command_delims = [''SCAN'']"
    by (rule SplitString_no_delim) (auto simp: command_delims_set char_defs)
  then have "in_range (SplitString ''SCAN'' command_delims)" by (simp add: in_range_def)
  then show ?thesis
    using commands_in_range [OF sample_enums_ok sample_adc_ok sample_sizes_ok sample_scan_inv] by blast
qed

subsection \<open>What the layer makes of a line\<close>

lemma execute_command_safe:
  assumes P: "enums_ok P" "sizes_ok P" and h: "heap_ok h" and L: "m_Device L = Some m" "m_Server L = Some s"
    and s: "connections_ok s" and inv: "scan_inv P (pc, m)" and t: "in_range (SplitString t command_delims)"
  shows "\<exists>e' m' h' ev. execute_command P R t1 t2 cid t e L h = Inr (e', L\<lparr>m_Device := Some m'\<rparr>, h', ev) \<and>
           scan_inv P (pc, m') \<and> blocks h' = blocks h \<and> heap_ok h'"
proof -
  have same: "L\<lparr>m_Device := Some m\<rparr> = L" by (simp flip: L(1))
  have said: "\<exists>h'. send_string cid str L h = Inr (h', told cid str s) \<and> blocks h' = blocks h \<and> heap_ok h'" for str
    by (rule send_string_eq [OF h L(2) s])
  consider (own) "t \<in> own_commands" | (empty) "t = [] \<or> char0 t = CR"
    | (device) "t \<notin> own_commands" "t \<noteq> []" "char0 t \<noteq> CR" by blast
  then show ?thesis
  proof cases
    case own
    obtain str where eq: "execute_command P R t1 t2 cid t e L h =
       bind_ub (if m_EnableConsole L \<and> (request_of t = Shutdown_Request \<or> m_Server L \<noteq> None)
                then bind_ub (send_string cid str L h) (\<lambda>(h1, ev). Inr (e, L, h1, ev))
                else Inr (e, L, h, []))
         (\<lambda>(e1, L1, h1, ev). Inr (e1, L1, h1, ev @ [request_event (request_of t)]))"
      using own_command_eq [OF own] by blast
    obtain h1 where h1: "send_string cid str L h = Inr (h1, told cid str s)" "blocks h1 = blocks h" "heap_ok h1"
      using said by blast
    have "\<exists>ev. execute_command P R t1 t2 cid t e L h = Inr (e, L, if m_EnableConsole L then h1 else h, ev)"
      unfolding eq by (simp add: L(2) h1(1))
    then show ?thesis using inv h h1(2,3)
      by (intro exI [of _ e] exI [of _ m] exI [of _ "if m_EnableConsole L then h1 else h"]) (simp add: same)
  next
    case empty
    obtain h1 where h1: "send_string cid [CR, CHR ''>''] L h = Inr (h1, told cid [CR, CHR ''>''] s)"
      "blocks h1 = blocks h" "heap_ok h1"
      using said by blast
    have "char0 t = CR \<or> t = []" using empty by blast
    then have "\<exists>ev. execute_command P R t1 t2 cid t e L h = Inr (e, L, h1, ev)"
      unfolding execute_command_def Let_def if_P [OF \<open>char0 t = CR \<or> t = []\<close>] h1(1) by simp
    then show ?thesis using inv h1(2,3) by (intro exI [of _ e] exI [of _ m] exI [of _ h1]) (simp add: same)
  next
    case device
    obtain resp m1 e1 es where r: "ParseCommands P R t1 t2 t e m = Inr (resp, m1, e1, es)" "scan_inv P (pc, m1)"
      using ParseCommands_well [OF P inv, of R t1 t2 t e] t by (auto simp: well_answered_def split: sum.splits)
    let ?L = "L\<lparr>m_Device := Some m1\<rparr>"
    obtain h1 where h1: "device_events P es ?L h = Inr (?L, h1, concat (map (announced P ?L s m1) es))"
      "blocks h1 = blocks h" "heap_ok h1"
      using status_events [OF h _ _ s ParseCommands_events [OF r(1)], of ?L m1] L by auto
    obtain h2 where h2: "send_string cid resp ?L h1 = Inr (h2, told cid resp s)" "blocks h2 = blocks h1" "heap_ok h2"
      using send_string_eq [OF h1(3) _ s, of ?L] L by auto
    have "\<exists>ev. execute_command P R t1 t2 cid t e L h = Inr (e1, ?L, h2, ev)"
      using device L r(1) h1(1) h2(1) by (auto simp: execute_command_def own_commands_def Let_def)
    then show ?thesis using r(2) h1(2) h2(2,3) by auto
  qed
qed

text \<open>
  Data that whoever holds the control sends: the line that it completes, if any, has its numbers
  in range. Nothing is asked of data from others.
\<close>

definition line_in_range :: "u64 \<Rightarrow> string \<Rightarrow> ('g, 'd) ServerLayer \<Rightarrow> bool" where
  "line_in_range cid cmd L \<longleftrightarrow>
     (has_control cid L \<longrightarrow>
        (let (line, complete) = build_command (unfinished cid L) cmd
         in complete \<longrightarrow> in_range (SplitString (SplitString line crlf ! 0) command_delims)))"

text \<open>What a command leaves: the layer but for the device and the lines in work.\<close>

definition commanded :: "mps_protocol \<Rightarrow> scan_pc \<Rightarrow> ('g, 'd) ServerLayer \<Rightarrow> heap
    \<Rightarrow> bool \<times> ('g, 'd) ServerLayer \<times> heap \<times> layer_event list \<Rightarrow> bool" where
  "commanded P pc L h = (\<lambda>(e', L', h', ev). \<exists>m' c. L' = L\<lparr>m_Device := Some m', m_Cmds := c\<rparr> \<and> scan_inv P (pc, m') \<and>
     map_ok c \<and> dom (map_of c) \<subseteq> {0, m_ActiveTCPCommandClientId L} \<and> blocks h' = blocks h \<and> heap_ok h')"

lemma OnCommand_safe:
  assumes P: "enums_ok P" "sizes_ok P" and h: "heap_ok h" and L: "m_Device L = Some m" "m_Server L = Some s"
    and s: "connections_ok s" and inv: "scan_inv P (pc, m)" and line: "line_in_range cid cmd L"
    and cmds: "map_ok (m_Cmds L)" "dom (map_of (m_Cmds L)) \<subseteq> {0, m_ActiveTCPCommandClientId L}"
  shows "\<exists>r. OnCommand P R t1 t2 cid cmd e L h = Inr r \<and> commanded P pc L h r"
proof -
  have same: "L\<lparr>m_Device := Some m, m_Cmds := c\<rparr> = L\<lparr>m_Cmds := c\<rparr>" for c by (simp flip: L(1))
  show ?thesis
  proof (cases "has_control cid L")
    case False
    then have no: "m_Server L \<noteq> None \<and> cid \<noteq> m_ActiveTCPCommandClientId L \<and> cid \<noteq> 0"
      using L(2) by (auto simp: has_control_def)
    obtain str h1 where "send_string cid str L h = Inr (h1, told cid str s)" "blocks h1 = blocks h" "heap_ok h1"
      and "OnCommand P R t1 t2 cid cmd e L h = bind_ub (send_string cid str L h) (\<lambda>(h1, ev). Inr (e, L, h1, ev))"
      using send_string_eq [OF h L(2) s] no by (fastforce simp: OnCommand_def)
    then show ?thesis using inv cmds L(1)
      by (auto simp: commanded_def intro!: exI [of _ m] exI [of _ "m_Cmds L"])
  next
    case True
    let ?put = "\<lambda>str. L\<lparr>m_Cmds := map_put cid str (m_Cmds L)\<rparr>"
    have cid: "cid \<in> {0, m_ActiveTCPCommandClientId L}" using True by (auto simp: has_control_def)
    have put: "map_ok (map_put cid str (m_Cmds L))"
      "dom (map_of (map_put cid str (m_Cmds L))) \<subseteq> {0, m_ActiveTCPCommandClientId L}" for str
    proof -
      show "map_ok (map_put cid str (m_Cmds L))" by (rule smap.ok_put [OF cmds(1)])
      have "dom (map_of (map_put cid str (m_Cmds L))) \<subseteq> insert cid (dom (map_of (m_Cmds L)))"
        by (auto simp: smap.find_put [OF cmds(1)] split: if_splits)
      then show "dom (map_of (map_put cid str (m_Cmds L))) \<subseteq> {0, m_ActiveTCPCommandClientId L}"
        using cmds(2) cid by blast
    qed
    obtain line fin where b: "build_command (unfinished cid L) cmd = (line, fin)" by fastforce
    show ?thesis
    proof (cases "fin")
      case False
      have "OnCommand P R t1 t2 cid cmd e L h = Inr (e, ?put line, h, [])"
        using True b False by (auto simp: OnCommand_def has_control_def unfinished_def Let_def)
      then show ?thesis using inv put h
        by (auto simp: commanded_def same intro!: exI [of _ m] exI [of _ "map_put cid line (m_Cmds L)"])
    next
      case d: True
      have t: "in_range (SplitString (SplitString line crlf ! 0) command_delims)"
        using line True b d by (simp add: line_in_range_def)
      have run: "OnCommand P R t1 t2 cid cmd e L h =
          execute_command P R t1 t2 cid (SplitString line crlf ! 0) e (?put []) h"
        using OnCommand_complete [OF True] b d by simp
      obtain e' m' h' ev where "execute_command P R t1 t2 cid (SplitString line crlf ! 0) e (?put []) h =
          Inr (e', (?put [])\<lparr>m_Device := Some m'\<rparr>, h', ev)" "scan_inv P (pc, m')" "blocks h' = blocks h" "heap_ok h'"
        using execute_command_safe [OF P h _ _ s inv t, of "?put []" R t1 t2 cid e] L by auto
      then show ?thesis unfolding run using put
        by (auto simp: commanded_def intro!: exI [of _ m'] exI [of _ "map_put cid [] (m_Cmds L)"])
    qed
  qed
qed

end
