(* ===== verification/Emulator.thy ===== *)
theory Emulator
  imports SafeCommands
begin

section \<open>The emulator: all its threads on one state\<close>

text \<open>
  The running program as one state that its threads share, and their turns on it: the scan
  thread of the device, the workers of the two servers' pools, each in the task it runs, the
  console's input thread, and the main thread in its loop. One turn is one pass through the
  loop that a thread is in (\<open>server.cpp\<close>, \<open>threads.cpp\<close>, \<open>application.cpp\<close>), with the callbacks
  that it makes; a turn of the scan thread (\<open>mps.cpp\<close>) is the part of a frame between two of its
  sleeps. The threads take their turns in any order.
\<close>

subsection \<open>The two servers of the layer\<close>

text \<open>
  What \<open>ServerLayer::OnAttach\<close> hooks to the server for commands and to the one for binary
  clients.
\<close>

datatype port = Command_Port | Binary_Port

fun server_of :: "port \<Rightarrow> ('g, 'd) ServerLayer \<Rightarrow> Server option" where
  "server_of Command_Port L = m_Server L"
| "server_of Binary_Port L = m_TCPBinaryServer L"

fun with_server :: "port \<Rightarrow> Server \<Rightarrow> ('g, 'd) ServerLayer \<Rightarrow> ('g, 'd) ServerLayer" where
  "with_server Command_Port s L = L\<lparr>m_Server := Some s\<rparr>"
| "with_server Binary_Port s L = L\<lparr>m_TCPBinaryServer := Some s\<rparr>"

fun on_port :: "port \<Rightarrow> net_event \<Rightarrow> layer_event" where
  "on_port Command_Port = On_Command"
| "on_port Binary_Port = On_Binary"

text \<open>What the operating system and the clocks answer in one turn, and whether errno is set.\<close>

record world =
  accept_reply :: accept_answer
  recv_reply :: received
  ntop :: "u32 \<Rightarrow> string"
  system_now :: int
  steady_now :: int
  errno_set :: bool

fun on_accept :: "port \<Rightarrow> accept_result \<Rightarrow> ('g, 'd) ServerLayer \<Rightarrow> heap \<Rightarrow> ('g, 'd) layer_result" where
  "on_accept Command_Port r L h = command_accept r L h"
| "on_accept Binary_Port r L h = bind_ub (binary_accept r L) (\<lambda>(L1, ev). Inr (L1, h, ev))"

fun on_data :: "mps_protocol \<Rightarrow> ('g, 'd) random_lib \<Rightarrow> world \<Rightarrow> port \<Rightarrow> u64 \<Rightarrow> buffer \<Rightarrow> ('g, 'd) ServerLayer
    \<Rightarrow> heap \<Rightarrow> ('g, 'd) layer_result" where
  "on_data P R w Command_Port cid buf L h =
     bind_ub (OnDataReceived P R (system_now w) (steady_now w) cid buf (errno_set w) L h)
       (\<lambda>(_, L1, h1, ev). Inr (L1, h1, ev))"
| "on_data P R w Binary_Port cid buf L h =
     OnTCPBinaryDataReceived P R (system_now w) (steady_now w) cid buf L h"

fun kick :: "port \<Rightarrow> u64 \<Rightarrow> ('g, 'd) ServerLayer \<Rightarrow> ub + ('g, 'd) ServerLayer \<times> layer_event list" where
  "kick Command_Port cid L = kick_command cid L"
| "kick Binary_Port cid L = kick_binary cid L"

subsection \<open>The tasks of the pools\<close>

text \<open>
  The loop of \<open>HandleConnectionThreadFn\<close> in two steps, since other threads act while \<open>recv\<close>
  blocks: up to the call, and from its return.
\<close>

definition HandleConnectionThread_check :: "u64 \<Rightarrow> buffer \<Rightarrow> Server \<Rightarrow> heap \<Rightarrow> ub + bool \<times> heap" where
  "HandleConnectionThread_check cid buf s h =
     (if \<not> m_ServerIsRunning s then Inr (False, h)
      else bind_ub (Zero buf h) (\<lambda>h1. Inr (map_of (m_Connections s) cid \<noteq> None, h1)))"

definition HandleConnectionThread_recv :: "buffer \<Rightarrow> received \<Rightarrow> Server \<Rightarrow> heap
    \<Rightarrow> ub + bool \<times> heap \<times> buffer option" where
  "HandleConnectionThread_recv buf r s h =
     (case r of
        Recv_Error \<Rightarrow> Inr (False, h, None)
      | Recv_Closed \<Rightarrow> Inr (False, h, None)
      | Received bs \<Rightarrow>
          bind_ub (store (buf_data buf) (map Some bs) h) (\<lambda>h1.
            if m_DataReceivedCallback s
            then bind_ub (Copy (buf_data buf) (length bs) h1) (\<lambda>(c, h2). Inr (True, h2, Some c))
            else Inr (True, h1, None)))"

text \<open>Without others in between they are the one step of \<open>Server\<close>.\<close>

lemma HandleConnectionThread_step_parts:
  "HandleConnectionThread_step cid buf r s h =
     bind_ub (HandleConnectionThread_check cid buf s h) (\<lambda>(go, h1).
       if go then HandleConnectionThread_recv buf r s h1 else Inr (False, h1, None))"
  by (cases "Zero buf h") (auto simp: HandleConnectionThread_step_def HandleConnectionThread_check_def
      HandleConnectionThread_recv_def split: received.splits)

text \<open>
  A connection's handler, with the buffer it receives into: at the head of its loop, in \<open>recv\<close>,
  or past the loop. It has no buffer before its first turn. The handlers are known by the worker
  that runs them.
\<close>

datatype handler = At_Check buffer | In_Recv buffer | Leaving buffer

type_synonym handlers = "port \<times> nat \<rightharpoonup> handler"

fun handler_buffer :: "handler \<Rightarrow> buffer" where
  "handler_buffer (At_Check b) = b"
| "handler_buffer (In_Recv b) = b"
| "handler_buffer (Leaving b) = b"

text \<open>The results of a task's turn: whether the task goes on, and what it leaves.\<close>

definition accept_turn :: "world \<Rightarrow> port \<Rightarrow> ('g, 'd) ServerLayer \<Rightarrow> heap
    \<Rightarrow> ub + bool \<times> ('g, 'd) ServerLayer \<times> heap \<times> layer_event list" where
  "accept_turn w port L h =
     bind_ub (deref (server_of port L)) (\<lambda>s.
       if \<not> m_ServerIsRunning s then Inr (False, L, h, [])
       else bind_ub (on_accept port (wait_for_connection (ntop w) (accept_reply w)) L h)
              (\<lambda>(L1, h1, ev). Inr (True, L1, h1, ev)))"

definition stream_turn :: "port \<Rightarrow> ('g, 'd) ServerLayer \<Rightarrow> heap
    \<Rightarrow> ub + bool \<times> ('g, 'd) ServerLayer \<times> heap \<times> layer_event list" where
  "stream_turn port L h =
     bind_ub (deref (server_of port L)) (\<lambda>s.
       if \<not> m_ServerIsRunning s then Inr (False, L, h, [])
       else bind_ub (DataStreamThread_step s h)
              (\<lambda>(s1, h1, ev). Inr (True, with_server port s1 L, h1, map (on_port port) ev)))"

definition check_turn :: "port \<Rightarrow> u64 \<Rightarrow> buffer \<Rightarrow> ('g, 'd) ServerLayer \<Rightarrow> heap \<Rightarrow> ub + bool \<times> heap" where
  "check_turn port cid buf L h =
     bind_ub (deref (server_of port L)) (\<lambda>s. HandleConnectionThread_check cid buf s h)"

definition receive_turn :: "mps_protocol \<Rightarrow> ('g, 'd) random_lib \<Rightarrow> world \<Rightarrow> port \<Rightarrow> u64 \<Rightarrow> buffer
    \<Rightarrow> ('g, 'd) ServerLayer \<Rightarrow> heap \<Rightarrow> ub + bool \<times> ('g, 'd) ServerLayer \<times> heap \<times> layer_event list" where
  "receive_turn P R w port cid buf L h =
     bind_ub (deref (server_of port L)) (\<lambda>s.
     bind_ub (HandleConnectionThread_recv buf (recv_reply w) s h) (\<lambda>(go, h1, msg).
       case msg of
         None \<Rightarrow> Inr (go, L, h1, [])
       | Some c \<Rightarrow> bind_ub (on_data P R w port cid c L h1) (\<lambda>(L1, h2, ev). Inr (go, L1, h2, ev))))"

definition leave_turn :: "port \<Rightarrow> u64 \<Rightarrow> buffer \<Rightarrow> ('g, 'd) ServerLayer \<Rightarrow> heap
    \<Rightarrow> ub + ('g, 'd) ServerLayer \<times> heap \<times> layer_event list" where
  "leave_turn port cid buf L h =
     bind_ub (Release buf h) (\<lambda>(_, h1).
     bind_ub (kick port cid L) (\<lambda>(L1, ev). Inr (L1, h1, ev)))"

definition handler_turn :: "mps_protocol \<Rightarrow> ('g, 'd) random_lib \<Rightarrow> world \<Rightarrow> port \<Rightarrow> u64 \<Rightarrow> handler option
    \<Rightarrow> ('g, 'd) ServerLayer \<Rightarrow> heap
    \<Rightarrow> ub + handler option \<times> ('g, 'd) ServerLayer \<times> heap \<times> layer_event list" where
  "handler_turn P R w port cid st L h =
     (case st of
        None \<Rightarrow>
          bind_ub (deref (server_of port L)) (\<lambda>s.
          bind_ub (HandleConnectionThread_start s h) (\<lambda>(buf, h1). Inr (Some (At_Check buf), L, h1, [])))
      | Some (At_Check buf) \<Rightarrow>
          bind_ub (check_turn port cid buf L h) (\<lambda>(go, h1).
            Inr (Some (if go then In_Recv buf else Leaving buf), L, h1, []))
      | Some (In_Recv buf) \<Rightarrow>
          bind_ub (receive_turn P R w port cid buf L h) (\<lambda>(go, L1, h1, ev).
            Inr (Some (if go then At_Check buf else Leaving buf), L1, h1, ev))
      | Some (Leaving buf) \<Rightarrow>
          bind_ub (leave_turn port cid buf L h) (\<lambda>(L1, h1, ev). Inr (None, L1, h1, ev)))"

subsection \<open>The threads\<close>

record ('g, 'd) emulator =
  em_layer :: "('g, 'd) ServerLayer"
  em_heap :: heap
  em_wsa :: wsa
  em_scan :: scan_pc
  em_handlers :: handlers

type_synonym ('g, 'd) turn = "(ub + ('g, 'd) emulator \<times> layer_event list) option"

text \<open>The scan thread; its callbacks find the device as the step leaves it.\<close>

definition scan_turn :: "mps_protocol \<Rightarrow> ('g, 'd) random_lib \<Rightarrow> ('g, 'd) emulator \<Rightarrow> ('g, 'd) turn" where
  "scan_turn P R e =
     (case m_Device (em_layer e) of
        None \<Rightarrow> None
      | Some m \<Rightarrow>
          if em_scan e = Thread_End then None
          else Some
            (bind_ub (scan_thread_step P R (em_scan e) m) (\<lambda>(pc, m1, es).
             bind_ub (device_events P es ((em_layer e)\<lparr>m_Device := Some m1\<rparr>) (em_heap e)) (\<lambda>(L1, h1, ev).
               Inr (e\<lparr>em_layer := L1, em_heap := h1, em_scan := pc\<rparr>, ev)))))"

text \<open>A worker of a pool in the loop of \<open>ThreadPool::ThreadPool\<close>, also at the end of its task.\<close>

definition pool_turn :: "port \<Rightarrow> nat \<Rightarrow> ('g, 'd) ServerLayer \<Rightarrow> ('g, 'd) ServerLayer option" where
  "pool_turn port i L =
     (case server_of port L of
        None \<Rightarrow> None
      | Some s \<Rightarrow> map_option (\<lambda>(p, _). with_server port (s\<lparr>m_Pool := p\<rparr>) L) (worker_step i (m_Pool s)))"

definition task_over :: "port \<Rightarrow> nat \<Rightarrow> ('g, 'd) ServerLayer \<Rightarrow> ('g, 'd) ServerLayer" where
  "task_over port i L = (case pool_turn port i L of None \<Rightarrow> L | Some L1 \<Rightarrow> L1)"

text \<open>A worker in its task.\<close>

definition loop_turn :: "port \<Rightarrow> nat \<Rightarrow> ('g, 'd) emulator
    \<Rightarrow> ub + bool \<times> ('g, 'd) ServerLayer \<times> heap \<times> layer_event list
    \<Rightarrow> ub + ('g, 'd) emulator \<times> layer_event list" where
  "loop_turn port i e r =
     bind_ub r (\<lambda>(go, L, h, ev).
       Inr (e\<lparr>em_layer := if go then L else task_over port i L, em_heap := h\<rparr>, ev))"

definition task_turn :: "mps_protocol \<Rightarrow> ('g, 'd) random_lib \<Rightarrow> world \<Rightarrow> port \<Rightarrow> nat \<Rightarrow> server_task
    \<Rightarrow> ('g, 'd) emulator \<Rightarrow> ub + ('g, 'd) emulator \<times> layer_event list" where
  "task_turn P R w port i task e =
     (case task of
        AcceptConnectionThread \<Rightarrow> loop_turn port i e (accept_turn w port (em_layer e) (em_heap e))
      | DataStreamThread \<Rightarrow> loop_turn port i e (stream_turn port (em_layer e) (em_heap e))
      | HandleConnectionThread cid \<Rightarrow>
          bind_ub (handler_turn P R w port cid (em_handlers e (port, i)) (em_layer e) (em_heap e))
            (\<lambda>(st, L, h, ev).
              Inr (e\<lparr>em_layer := if st = None then task_over port i L else L, em_heap := h,
                     em_handlers := (em_handlers e)((port, i) := st)\<rparr>, ev)))"

definition worker_turn :: "mps_protocol \<Rightarrow> ('g, 'd) random_lib \<Rightarrow> world \<Rightarrow> port \<Rightarrow> nat \<Rightarrow> ('g, 'd) emulator
    \<Rightarrow> ('g, 'd) turn" where
  "worker_turn P R w port i e =
     (case server_of port (em_layer e) of
        None \<Rightarrow> None
      | Some s \<Rightarrow>
          if length (m_Threads (m_Pool s)) \<le> i then None
          else case fst (m_Threads (m_Pool s) ! i) of
            Running task \<Rightarrow> Some (task_turn P R w port i task e)
          | _ \<Rightarrow> map_option (\<lambda>L. Inr (e\<lparr>em_layer := L\<rparr>, [])) (pool_turn port i (em_layer e)))"

text \<open>The console's thread with a line that it has read, and the main thread in its loop.\<close>

definition console_turn :: "mps_protocol \<Rightarrow> ('g, 'd) random_lib \<Rightarrow> world \<Rightarrow> string \<Rightarrow> ('g, 'd) emulator
    \<Rightarrow> ('g, 'd) turn" where
  "console_turn P R w line e =
     (if m_Console (em_layer e)
      then Some (bind_ub (OnConsoleInput P R (system_now w) (steady_now w) line (errno_set w) (em_layer e) (em_heap e))
             (\<lambda>(_, L, h, ev). Inr (e\<lparr>em_layer := L, em_heap := h\<rparr>, ev)))
      else None)"

definition update_turn :: "net_env \<Rightarrow> net_env \<Rightarrow> ('g, 'd) emulator \<Rightarrow> ('g, 'd) turn" where
  "update_turn env1 env2 e =
     Some (bind_ub (OnUpdate env1 env2 (em_wsa e) (em_layer e))
       (\<lambda>(L, w, ev). Inr (e\<lparr>em_layer := L, em_wsa := w\<rparr>, ev)))"

datatype thread =
    Scan_Thread
  | Worker port nat world
  | Console_Thread world string
  | Main_Thread net_env net_env

fun emulator_turn :: "mps_protocol \<Rightarrow> ('g, 'd) random_lib \<Rightarrow> thread \<Rightarrow> ('g, 'd) emulator \<Rightarrow> ('g, 'd) turn" where
  "emulator_turn P R Scan_Thread e = scan_turn P R e"
| "emulator_turn P R (Worker port i w) e = worker_turn P R w port i e"
| "emulator_turn P R (Console_Thread w line) e = console_turn P R w line e"
| "emulator_turn P R (Main_Thread env1 env2) e = update_turn env1 env2 e"

text \<open>
  What is asked of the outside: no socket is 0, \<open>recv\<close> returns at least one byte and no more
  than there is room for, and the line at the console is not empty, since the layer reads its
  first character all the same; and of those who command the scanner that the numbers in their
  commands are in range.
\<close>

definition serves :: "port \<Rightarrow> nat \<Rightarrow> u64 \<Rightarrow> ('g, 'd) ServerLayer \<Rightarrow> bool" where
  "serves port i cid L \<longleftrightarrow> (case server_of port L of
     None \<Rightarrow> False
   | Some s \<Rightarrow> i < length (m_Threads (m_Pool s)) \<and>
       fst (m_Threads (m_Pool s) ! i) = Running (HandleConnectionThread cid))"

definition data_in_range :: "port \<Rightarrow> nat \<Rightarrow> received \<Rightarrow> ('g, 'd) ServerLayer \<Rightarrow> bool" where
  "data_in_range port i r L \<longleftrightarrow> (case r of
     Received bs \<Rightarrow> bs \<noteq> [] \<and> length bs \<le> 1024 \<and>
       (\<forall>cid. port = Command_Port \<and> serves port i cid L \<longrightarrow> line_in_range cid (string_of bs) L)
   | _ \<Rightarrow> True)"

fun allowed :: "thread \<Rightarrow> ('g, 'd) ServerLayer \<Rightarrow> bool" where
  "allowed (Worker port i w) L = (accept_fd (accept_reply w) \<noteq> 0 \<and> data_in_range port i (recv_reply w) L)"
| "allowed (Console_Thread w line) L =
     (line \<noteq> [] \<and> (hd line = CHR ''/'' \<and> 1 < length line \<longrightarrow> line_in_range 0 (tl line) L))"
| "allowed _ L = True"

inductive emulator_step :: "mps_protocol \<Rightarrow> ('g, 'd) random_lib \<Rightarrow> ('g, 'd) emulator \<Rightarrow> ('g, 'd) emulator \<Rightarrow> bool"
  for P R where
  turn: "allowed th (em_layer e) \<Longrightarrow> emulator_turn P R th e = Some (Inr (e', ev)) \<Longrightarrow> emulator_step P R e e'"

inductive_cases emulator_stepE: "emulator_step P R e e'"

text \<open>After \<open>OnAttach\<close>, with the scan thread at the start and \<open>h\<close> the storage in use.\<close>

definition emulator_init :: "mps_protocol \<Rightarrow> ('g, 'd) random_lib \<Rightarrow> heap \<Rightarrow> ('g, 'd) emulator \<Rightarrow> bool" where
  "emulator_init P R h e \<longleftrightarrow>
     (\<exists>dev ip port con env1 env2 w L w1 ev. supported P (uint dev) \<and>
        OnAttach P R env1 env2 w (ServerLayer dev ip port con) = (L, w1, ev) \<and>
        e = \<lparr>em_layer = L, em_heap = h, em_wsa = w1, em_scan = Loop_Top, em_handlers = Map.empty\<rparr>)"

end
