(* ===== verification/EmulatorMemory.thy ===== *)
theory EmulatorMemory
  imports Emulator
begin

section \<open>The storage of the running emulator\<close>

text \<open>
  What the threads have allocated: a receive buffer for each connection's handler and a copy of
  each queued datagram, apart from each other and from the storage of others; and what
  allocating, writing, copying and releasing make of it.
\<close>

definition handler_blocks :: "('k \<rightharpoonup> handler) \<Rightarrow> nat set" where
  "handler_blocks hs = {buf_data (handler_buffer st) | k st. hs k = Some st}"

definition in_use :: "('k \<rightharpoonup> handler) \<Rightarrow> DataPacket list \<Rightarrow> nat set" where
  "in_use hs q = handler_blocks hs \<union> set (owned q)"

definition buffers_ok :: "heap \<Rightarrow> ('k \<rightharpoonup> handler) \<Rightarrow> bool" where
  "buffers_ok h hs \<longleftrightarrow>
     (\<forall>k st. hs k = Some st \<longrightarrow> recv_buffer h (handler_buffer st) \<and> buf_size (handler_buffer st) = 1024) \<and>
     (\<forall>k k' st st'. hs k = Some st \<and> hs k' = Some st' \<and>
        buf_data (handler_buffer st) = buf_data (handler_buffer st') \<longrightarrow> k = k')"

text \<open>
  Next to the storage \<open>B\<close> that others use, which is as it was, exactly the handlers' buffers and
  the datagrams are there, all apart from each other.
\<close>

definition memory_ok :: "(nat \<rightharpoonup> u8 option list) \<Rightarrow> ('k \<rightharpoonup> handler) \<Rightarrow> heap \<Rightarrow> DataPacket list \<Rightarrow> bool" where
  "memory_ok B hs h q \<longleftrightarrow>
     heap_ok h \<and> buffers_ok h hs \<and> (\<exists>ds. queue_holds h q ds) \<and> handler_blocks hs \<inter> set (owned q) = {} \<and>
     (\<forall>a \<in> in_use hs q. B a = None) \<and> (\<forall>a. a \<notin> in_use hs q \<longrightarrow> blocks h a = B a)"

lemma handler_blocks_iff: "a \<in> handler_blocks hs \<longleftrightarrow> (\<exists>k st. hs k = Some st \<and> a = buf_data (handler_buffer st))"
  unfolding handler_blocks_def by blast

lemma handler_blocksI: "hs k = Some st \<Longrightarrow> buf_data (handler_buffer st) \<in> handler_blocks hs"
  by (auto simp: handler_blocks_def)

lemma handler_blocks_used: "buffers_ok h hs \<Longrightarrow> a \<in> handler_blocks hs \<Longrightarrow> blocks h a \<noteq> None"
  unfolding handler_blocks_def buffers_ok_def recv_buffer_def by fastforce

lemma memory_okD:
  assumes "memory_ok B hs h q"
  shows "heap_ok h" "buffers_ok h hs" "\<exists>ds. queue_holds h q ds" "handler_blocks hs \<inter> set (owned q) = {}"
    "a \<in> in_use hs q \<Longrightarrow> B a = None" "a \<notin> in_use hs q \<Longrightarrow> blocks h a = B a"
  using assms by (simp_all add: memory_ok_def)

lemma in_use_used: "memory_ok B hs h q \<Longrightarrow> a \<in> in_use hs q \<Longrightarrow> blocks h a \<noteq> None"
  using handler_blocks_used queue_holds_dom by (fastforce simp: memory_ok_def in_use_def)

lemma memory_dom:
  assumes "memory_ok B hs h q"
  shows "dom (blocks h) = dom B \<union> in_use hs q" and "dom B \<inter> in_use hs q = {}"
proof -
  have "a \<in> dom (blocks h) \<longleftrightarrow> a \<in> dom B \<union> in_use hs q" for a
    using in_use_used [OF assms, of a] assms by (cases "a \<in> in_use hs q") (auto simp: memory_ok_def)
  then show "dom (blocks h) = dom B \<union> in_use hs q" by blast
  show "dom B \<inter> in_use hs q = {}" using assms by (auto simp: memory_ok_def)
qed

lemma buffers_ok_cong:
  assumes "buffers_ok h hs" and "\<And>a. a \<in> handler_blocks hs \<Longrightarrow> blocks h' a = blocks h a"
  shows "buffers_ok h' hs"
  using assms handler_blocksI [of hs] by (fastforce simp: buffers_ok_def recv_buffer_def)

lemma memory_same:
  assumes "memory_ok B hs h q" and "blocks h' = blocks h" and "heap_ok h'"
  shows "memory_ok B hs h' q"
  using assms buffers_ok_cong [of h hs h'] queue_holds_cong [of h q _ h'] by (auto simp: memory_ok_def)

lemma memory_queued:
  assumes m: "memory_ok B hs h q" and h': "heap_ok h'" "queue_holds h' q' ds" and n: "new_packets h q q'"
    and same: "\<forall>a. a \<notin> set (owned q') \<longrightarrow> blocks h' a = blocks h a"
  shows "memory_ok B hs h' q'"
proof -
  obtain r where r: "q' = q @ r" "\<forall>a \<in> set (owned r). blocks h a = None" using n by (auto simp: new_packets_def)
  have new: "a \<notin> in_use hs q" if "a \<in> set (owned r)" for a
    using in_use_used [OF m, of a] r(2) that by auto
  then have apart: "handler_blocks hs \<inter> set (owned q') = {}" using m r(1) by (auto simp: memory_ok_def in_use_def)
  have "buffers_ok h' hs"
    by (rule buffers_ok_cong [OF memory_okD(2) [OF m]]) (use apart same in blast)
  moreover have "B a = None" if "a \<in> in_use hs q'" for a
  proof (cases "a \<in> set (owned r)")
    case True
    then show ?thesis using new r(2) m by (auto simp: memory_ok_def)
  next
    case False
    then show ?thesis using that m r(1) by (auto simp: memory_ok_def in_use_def)
  qed
  moreover have "blocks h' a = B a" if "a \<notin> in_use hs q'" for a
    using that same m r(1) by (auto simp: memory_ok_def in_use_def)
  ultimately show ?thesis using h' apart by (auto simp: memory_ok_def)
qed

lemma memory_popped:
  assumes m: "memory_ok B hs h (p # q)" and h': "heap_ok h'" "queue_holds h' q ds"
    and freed: "\<forall>a. blocks h' a = (if a \<in> set (owned [p]) then None else blocks h a)"
  shows "memory_ok B hs h' q"
proof -
  have own: "set (owned (p # q)) = set (owned [p]) \<union> set (owned q)" by (auto simp: owned_Cons)
  have apart: "handler_blocks hs \<inter> set (owned (p # q)) = {}" using m by (simp add: memory_ok_def)
  have "blocks h' a = blocks h a" if "a \<in> handler_blocks hs" for a
    using that freed apart own by auto
  then have "buffers_ok h' hs" by (rule buffers_ok_cong [OF memory_okD(2) [OF m]])
  moreover have "blocks h' a = B a" if "a \<notin> in_use hs q" for a
  proof (cases "a \<in> set (owned [p])")
    case True
    then have "a \<in> in_use hs (p # q)" by (simp add: in_use_def own)
    then have "B a = None" using m by (simp add: memory_ok_def)
    then show ?thesis using freed True by simp
  next
    case False
    then have "a \<notin> in_use hs (p # q)" using that by (simp add: in_use_def own)
    then have "blocks h a = B a" using m by (simp add: memory_ok_def)
    then show ?thesis using freed False by simp
  qed
  moreover have "\<forall>a \<in> in_use hs q. B a = None" "handler_blocks hs \<inter> set (owned q) = {}"
    using m own by (auto simp: memory_ok_def in_use_def)
  ultimately show ?thesis using h' by (auto simp: memory_ok_def)
qed

text \<open>A handler's buffer: allocated, written to, and released.\<close>

lemma memory_written:
  assumes m: "memory_ok B hs h q" and st: "hs k = Some st" and h': "heap_ok h'" "recv_buffer h' (handler_buffer st)"
    and same: "\<forall>a. a \<noteq> buf_data (handler_buffer st) \<longrightarrow> blocks h' a = blocks h a"
  shows "memory_ok B hs h' q"
proof -
  let ?a = "buf_data (handler_buffer st)"
  have a: "?a \<in> in_use hs q" "?a \<notin> set (owned q)"
    using handler_blocksI [of hs, OF st] memory_okD(4) [OF m] by (auto simp: in_use_def)
  have other: "j = k \<or> buf_data (handler_buffer st') \<noteq> ?a" if "hs j = Some st'" for j st'
    using memory_okD(2) [OF m] st that unfolding buffers_ok_def by metis
  have "recv_buffer h' (handler_buffer st')" if "hs j = Some st'" for j st'
  proof (cases "j = k")
    case True
    then show ?thesis using st that h'(2) by simp
  next
    case False
    then have "blocks h' (buf_data (handler_buffer st')) = blocks h (buf_data (handler_buffer st'))"
      using other [OF that] same by simp
    moreover have "recv_buffer h (handler_buffer st')" using memory_okD(2) [OF m] that by (simp add: buffers_ok_def)
    ultimately show ?thesis by (simp add: recv_buffer_def)
  qed
  then have "buffers_ok h' hs" using memory_okD(2) [OF m] by (simp add: buffers_ok_def)
  moreover obtain ds where "queue_holds h q ds" using memory_okD(3) [OF m] by blast
  then have "queue_holds h' q ds"
    by (rule queue_holds_cong [OF _ memory_okD(1) [OF m]]) (use same a(2) in metis)
  moreover have "blocks h' b = B b" if "b \<notin> in_use hs q" for b
  proof -
    have "b \<noteq> ?a" using that a(1) by blast
    then show ?thesis using same memory_okD(6) [OF m that] by simp
  qed
  ultimately show ?thesis using m h'(1) by (auto simp: memory_ok_def)
qed

lemma handler_blocks_same:
  assumes "hs k = Some st" and "handler_buffer st' = handler_buffer st"
  shows "handler_blocks (hs(k \<mapsto> st')) = handler_blocks hs"
proof -
  have "(\<exists>j s. (hs(k \<mapsto> st')) j = Some s \<and> a = buf_data (handler_buffer s)) \<longleftrightarrow>
        (\<exists>j s. hs j = Some s \<and> a = buf_data (handler_buffer s))" for a
    using assms by (metis fun_upd_apply option.inject)
  then show ?thesis by (intro set_eqI) (simp only: handler_blocks_iff)
qed

lemma memory_relabelled:
  assumes m: "memory_ok B hs h q" and st: "hs k = Some st" "handler_buffer st' = handler_buffer st"
  shows "memory_ok B (hs(k \<mapsto> st')) h q"
proof -
  have "buffers_ok h (hs(k \<mapsto> st'))"
    using memory_okD(2) [OF m] st unfolding buffers_ok_def fun_upd_apply
    by (simp split: if_splits) blast
  then show ?thesis using m by (simp add: memory_ok_def in_use_def handler_blocks_same [of hs, OF st])
qed

lemma memory_allocated:
  assumes m: "memory_ok B hs h q" and k: "hs k = None"
  shows "\<exists>b h'. Allocate 1024 empty_buffer h = Inr (b, h') \<and> memory_ok B (hs(k \<mapsto> At_Check b)) h' q"
proof -
  define b h' where "b = \<lparr>buf_data = fresh h, buf_size = 1024\<rparr>" and "h' = snd (new_block 1024 h)"
  have all: "Allocate 1024 empty_buffer h = Inr (b, h')" by (simp add: Allocate_fresh b_def h'_def)
  have free: "blocks h (fresh h) = None" by (rule heap_ok_fresh [OF memory_okD(1) [OF m]])
  then have new: "fresh h \<notin> in_use hs q" using in_use_used [OF m, of "fresh h"] by auto
  have bl: "blocks h' = (blocks h)(fresh h \<mapsto> replicate 1024 None)" by (simp add: h'_def new_block_def)
  have rb: "recv_buffer h' b" by (simp add: recv_buffer_def bl b_def)
  have keep: "blocks h' a = blocks h a" if "a \<in> in_use hs q" for a using that new by (auto simp: bl)
  have ne: "buf_data (handler_buffer st) \<noteq> buf_data b" if "hs j = Some st" for j st
    using handler_blocksI [of hs, OF that] new by (auto simp: in_use_def b_def)
  have old: "buffers_ok h' hs"
    by (rule buffers_ok_cong [OF memory_okD(2) [OF m]]) (use keep in \<open>simp add: in_use_def\<close>)
  then have bo: "buffers_ok h' (hs(k \<mapsto> At_Check b))"
    using rb ne k by (auto simp: buffers_ok_def b_def dest: ne [symmetric])
  have hb: "handler_blocks (hs(k \<mapsto> At_Check b)) = insert (fresh h) (handler_blocks hs)"
  proof -
    have "(\<exists>j s. (hs(k \<mapsto> At_Check b)) j = Some s \<and> a = buf_data (handler_buffer s)) \<longleftrightarrow>
          a = fresh h \<or> (\<exists>j s. hs j = Some s \<and> a = buf_data (handler_buffer s))" for a
      using k by (auto simp: b_def) (metis option.distinct(1))
    then show ?thesis by (intro set_eqI) (simp only: handler_blocks_iff insert_iff)
  qed
  obtain ds where "queue_holds h q ds" using memory_okD(3) [OF m] by blast
  then have "queue_holds h' q ds"
    by (rule queue_holds_cong) (use memory_okD(1) [OF m] keep in \<open>auto simp: in_use_def\<close>)
  moreover have "B (fresh h) = None" using memory_okD(6) [OF m new] free by simp
  moreover have "heap_ok h'" using heap_ok_new [OF memory_okD(1) [OF m]] by (simp add: h'_def)
  moreover have "blocks h' a = B a" if "a \<notin> insert (fresh h) (in_use hs q)" for a
    using that memory_okD(6) [OF m, of a] by (simp add: bl)
  ultimately have "memory_ok B (hs(k \<mapsto> At_Check b)) h' q"
    using bo memory_okD(4,5) [OF m] new unfolding memory_ok_def in_use_def hb by auto
  then show ?thesis using all by blast
qed

lemma memory_released:
  assumes m: "memory_ok B hs h q" and st: "hs k = Some st"
  shows "\<exists>h'. Release (handler_buffer st) h = Inr (empty_buffer, h') \<and> memory_ok B (hs(k := None)) h' q"
proof -
  let ?a = "buf_data (handler_buffer st)"
  define h' where "h' = h\<lparr>blocks := (blocks h)(?a := None)\<rparr>"
  have a: "?a \<in> handler_blocks hs" "?a \<notin> set (owned q)"
    using handler_blocksI [of hs, OF st] memory_okD(4) [OF m] by auto
  have used: "blocks h ?a \<noteq> None" by (rule handler_blocks_used [OF memory_okD(2) [OF m] a(1)])
  have null: "?a \<noteq> 0"
  proof
    assume "?a = 0"
    with used heap_ok_null [OF memory_okD(1) [OF m]] show False by simp
  qed
  then have rel: "Release (handler_buffer st) h = Inr (empty_buffer, h')"
    using used by (auto simp: Release_def free_data_def delete_block_def h'_def)
  have other: "j = k \<or> buf_data (handler_buffer st') \<noteq> ?a" if "hs j = Some st'" for j st'
    using memory_okD(2) [OF m] st that unfolding buffers_ok_def by metis
  have hb: "handler_blocks (hs(k := None)) = handler_blocks hs - {?a}"
  proof -
    have "(\<exists>j s. (hs(k := None)) j = Some s \<and> b = buf_data (handler_buffer s)) \<longleftrightarrow>
          (\<exists>j s. hs j = Some s \<and> b = buf_data (handler_buffer s)) \<and> b \<noteq> ?a" for b
    proof (cases "b = ?a")
      case True
      then show ?thesis using other unfolding fun_upd_apply by (metis option.distinct(1))
    next
      case False
      then show ?thesis using st by (metis fun_upd_apply option.distinct(1) option.inject)
    qed
    then show ?thesis by (intro set_eqI) (simp only: handler_blocks_iff Diff_iff singleton_iff)
  qed
  have bl: "blocks h' b = (if b = ?a then None else blocks h b)" for b by (simp add: h'_def)
  have "buffers_ok h (hs(k := None))"
    using memory_okD(2) [OF m] unfolding buffers_ok_def by (metis fun_upd_apply option.distinct(1))
  then have bo: "buffers_ok h' (hs(k := None))"
    by (rule buffers_ok_cong) (simp add: hb bl)
  obtain ds where "queue_holds h q ds" using memory_okD(3) [OF m] by blast
  then have "queue_holds h' q ds"
    by (rule queue_holds_cong) (use memory_okD(1) [OF m] a in \<open>auto simp: bl\<close>)
  moreover have "heap_ok h'" unfolding h'_def by (rule heap_ok_free [OF memory_okD(1) [OF m]])
  moreover have "blocks h' b = B b" if "b \<notin> in_use (hs(k := None)) q" for b
  proof (cases "b = ?a")
    case True
    then show ?thesis using memory_okD(5) [OF m, of ?a] a(1) by (simp add: bl in_use_def)
  next
    case False
    then have "b \<notin> in_use hs q" using that by (simp add: in_use_def hb)
    then show ?thesis using memory_okD(6) [OF m] False by (simp add: bl)
  qed
  moreover have "\<forall>b \<in> in_use (hs(k := None)) q. B b = None"
    using memory_okD(5) [OF m] unfolding in_use_def hb by blast
  moreover have "handler_blocks (hs(k := None)) \<inter> set (owned q) = {}" using memory_okD(4) [OF m] hb by blast
  ultimately have "memory_ok B (hs(k := None)) h' q" using bo unfolding memory_ok_def by blast
  then show ?thesis using rel by blast
qed

text \<open>
  The copy of received data that a callback gets is one more block that others use, until it
  is released.
\<close>

lemma memory_copied:
  assumes m: "memory_ok B hs h q" and c: "copied h bs = (b, h')" and bs: "bs \<noteq> []"
  shows "memory_ok (B(buf_data b \<mapsto> map Some bs)) hs h' q" and "holds h' b bs" and "B (buf_data b) = None"
proof -
  note cp = copied_holds [OF memory_okD(1) [OF m] c]
  have free: "blocks h (buf_data b) = None" by (rule cp(5))
  then have new: "buf_data b \<notin> in_use hs q" using in_use_used [OF m, of "buf_data b"] by auto
  have bl: "blocks h' = (blocks h)(buf_data b \<mapsto> map Some bs)" using cp(4) bs by simp
  have keep: "blocks h' a = blocks h a" if "a \<in> in_use hs q" for a using that new by (auto simp: bl)
  show "holds h' b bs" by (rule cp(1))
  show "B (buf_data b) = None" using memory_okD(6) [OF m new] free by simp
  have "buffers_ok h' hs"
    by (rule buffers_ok_cong [OF memory_okD(2) [OF m]]) (use keep in \<open>simp add: in_use_def\<close>)
  moreover obtain ds where "queue_holds h q ds" using memory_okD(3) [OF m] by blast
  then have "queue_holds h' q ds"
    by (rule queue_holds_cong) (use memory_okD(1) [OF m] keep in \<open>auto simp: in_use_def\<close>)
  moreover have "blocks h' a = (B(buf_data b \<mapsto> map Some bs)) a" if "a \<notin> in_use hs q" for a
    using memory_okD(6) [OF m that] by (simp add: bl)
  moreover have "(B(buf_data b \<mapsto> map Some bs)) a = None" if "a \<in> in_use hs q" for a
    using memory_okD(5) [OF m that] that new by auto
  ultimately show "memory_ok (B(buf_data b \<mapsto> map Some bs)) hs h' q"
    using cp(2) memory_okD(4) [OF m] by (auto simp: memory_ok_def)
qed

lemma memory_copy_released:
  assumes m: "memory_ok (B(buf_data b \<mapsto> map Some bs)) hs h q" and b: "B (buf_data b) = None"
    and size: "buf_size b = length bs" and bs: "bs \<noteq> []"
  shows "\<exists>h'. Release b h = Inr (empty_buffer, h') \<and> memory_ok B hs h' q" and "holds h b bs"
proof -
  have new: "buf_data b \<notin> in_use hs q" using memory_okD(5) [OF m, of "buf_data b"] by auto
  then have bl: "blocks h (buf_data b) = Some (map Some bs)" using memory_okD(6) [OF m] by simp
  show holds: "holds h b bs" using bl size bs by (simp add: holds_def)
  define h' where "h' = h\<lparr>blocks := (blocks h)(buf_data b := None)\<rparr>"
  have keep: "blocks h' a = blocks h a" if "a \<in> in_use hs q" for a using that new by (auto simp: h'_def)
  have "buffers_ok h' hs"
    by (rule buffers_ok_cong [OF memory_okD(2) [OF m]]) (use keep in \<open>simp add: in_use_def\<close>)
  moreover obtain ds where "queue_holds h q ds" using memory_okD(3) [OF m] by blast
  then have "queue_holds h' q ds"
    by (rule queue_holds_cong) (use memory_okD(1) [OF m] keep in \<open>auto simp: in_use_def\<close>)
  moreover have "blocks h' a = B a" if "a \<notin> in_use hs q" for a
    using memory_okD(6) [OF m that] b by (simp add: h'_def)
  moreover have "B a = None" if "a \<in> in_use hs q" for a
    using memory_okD(5) [OF m that] that new by (auto split: if_splits)
  moreover have "heap_ok h'" unfolding h'_def by (rule heap_ok_free [OF memory_okD(1) [OF m]])
  ultimately have "memory_ok B hs h' q" using memory_okD(4) [OF m] by (auto simp: memory_ok_def)
  then show "\<exists>h'. Release b h = Inr (empty_buffer, h') \<and> memory_ok B hs h' q"
    using Release_eq [OF memory_okD(1) [OF m] holds] by (auto simp: h'_def)
qed

end
