(* ===== verification/EmulatorFrames.thy ===== *)
theory EmulatorFrames
  imports EmulatorMemory
begin

section \<open>What the emulator's threads keep\<close>

text \<open>
  The invariant of the running program: each server has the one client that the layer records,
  and each client its handler; the scanner can scan; the storage is as \<open>EmulatorMemory\<close> says.
  Accepting and losing a connection, commands and data, the events of the scanner, the stream
  and the turns of a connection's handler keep it.
\<close>

subsection \<open>What a server's events leave alone\<close>

definition view :: "Server \<Rightarrow> ServerInfo \<times> DataPacket list \<times> bool \<times> (server_task worker \<times> bool) list" where
  "view s = (m_ServerInfo s, m_DataQueue s, m_DataReceivedCallback s, m_Threads (m_Pool s))"

lemma view_simps [simp]:
  "view (s\<lparr>m_Connections := c\<rparr>) = view s" "view (enqueue_task t s) = view s"
  by (simp_all add: view_def enqueue_task_def Enqueue_def)

lemma view_accepted: "view (fst (AcceptConnectionThread_step r s)) = view s"
  by (cases r) (simp_all add: AcceptConnectionThread_step_def Let_def)

text \<open>
  What the server becomes: its clients are those it had, and new ones whose handlers are queued.
\<close>

definition covers :: "Server \<Rightarrow> Server \<Rightarrow> bool" where
  "covers s s' \<longleftrightarrow> view s' = view s \<and> set (m_Tasks (m_Pool s)) \<subseteq> set (m_Tasks (m_Pool s')) \<and>
     (\<forall>cid \<in> fst ` set (m_Connections s'). cid \<in> fst ` set (m_Connections s) \<or>
        HandleConnectionThread cid \<in> set (m_Tasks (m_Pool s')))"

lemma covers_refl [simp]: "covers s s" by (simp add: covers_def)

lemma covers_trans:
  assumes "covers s s'" and "covers s' s''"
  shows "covers s s''"
proof -
  have "cid \<in> fst ` set (m_Connections s) \<or> HandleConnectionThread cid \<in> set (m_Tasks (m_Pool s''))"
    if "cid \<in> fst ` set (m_Connections s'')" for cid
    using assms that unfolding covers_def by blast
  then show ?thesis using assms by (auto simp: covers_def)
qed

lemma covers_erase [simp]: "covers s (s\<lparr>m_Connections := map_erase k (m_Connections s)\<rparr>)"
  using set_map_erase [of _ k "m_Connections s"] by (auto simp: covers_def)

lemma keys_put: "cid \<in> fst ` set (map_put k v m) \<Longrightarrow> cid = k \<or> cid \<in> fst ` set m"
  using in_map_put [of _ k v m] by fastforce

lemma covers_accepted: "covers s (fst (AcceptConnectionThread_step r s))"
proof (cases r)
  case (Accepted k ip port)
  define s1 where "s1 = fst (AcceptConnectionThread_step r s)"
  have s1: "m_Connections s1 = map_put k \<lparr>client_id = k, client_ip = ip, client_port = port\<rparr> (m_Connections s)"
    "m_Tasks (m_Pool s1) = m_Tasks (m_Pool s) @ [HandleConnectionThread k]" "view s1 = view s"
    using view_accepted [of r s] by (simp_all add: s1_def Accepted accept_fields enqueue_task_def Enqueue_def queue_push_def)
  have "cid \<in> fst ` set (m_Connections s) \<or> HandleConnectionThread cid \<in> set (m_Tasks (m_Pool s1))"
    if "cid \<in> fst ` set (m_Connections s1)" for cid
    using keys_put [OF that [unfolded s1(1)]] by (auto simp: s1(2))
  then show ?thesis using s1(2,3) by (auto simp: covers_def simp flip: s1_def)
qed (simp add: AcceptConnectionThread_step_def)

definition command_part :: "('g, 'd) ServerLayer \<Rightarrow> ('g, 'd) ServerLayer \<Rightarrow> bool" where
  "command_part L L' \<longleftrightarrow> m_Device L' = m_Device L \<and> m_TCPBinaryServer L' = m_TCPBinaryServer L \<and>
     m_TCPBinaryCleintConnected L' = m_TCPBinaryCleintConnected L \<and>
     m_ActiveTCPBinaryClientId L' = m_ActiveTCPBinaryClientId L \<and>
     rel_option covers (m_Server L) (m_Server L')"

definition binary_part :: "('g, 'd) ServerLayer \<Rightarrow> ('g, 'd) ServerLayer \<Rightarrow> bool" where
  "binary_part L L' \<longleftrightarrow> m_Device L' = m_Device L \<and> m_Server L' = m_Server L \<and>
     m_TCPCommandClientConnected L' = m_TCPCommandClientConnected L \<and>
     m_ActiveTCPCommandClientId L' = m_ActiveTCPCommandClientId L \<and> m_Cmds L' = m_Cmds L \<and>
     rel_option covers (m_TCPBinaryServer L) (m_TCPBinaryServer L')"

lemma kick_command_part:
  assumes s: "m_Server L = Some s" "m_ClientDisconnectCallback s" and k: "kick_command k L = Inr (L1, ev)"
  shows "command_part L L1"
  using k unfolding kick_command_eq [OF s] by (cases "k = m_ActiveTCPCommandClientId L") (auto simp: command_part_def OnClientDisconnected_def s(1))

lemma OnClientConnected_part:
  assumes s: "m_Server L = Some s" "m_ClientDisconnectCallback s" and c: "OnClientConnected k L h = Inr (L1, h1, ev)"
  shows "command_part L L1"
  using c s by (auto simp: OnClientConnected_def Let_def bind_ub_Inr_iff kick_command_eq command_part_def
      OnClientDisconnected_def split: if_splits)

lemma command_accept_part:
  assumes s: "m_Server L = Some s" "m_ClientConnectCallback s" "m_ClientDisconnectCallback s"
    and c: "command_accept r L h = Inr (L1, h1, ev)"
  shows "command_part L L1"
proof (cases r)
  case Accept_Failed
  then show ?thesis using c s(1) by (auto simp: command_accept_def AcceptConnectionThread_step_def command_part_def)
next
  case (Accepted k ip port)
  define s1 where "s1 = fst (AcceptConnectionThread_step r s)"
  have a: "AcceptConnectionThread_step r s = (s1, [Client_Connected k])" "m_ClientDisconnectCallback s1"
    using s by (simp_all add: s1_def Accepted accept_fields)
  obtain ev2 where "OnClientConnected k (L\<lparr>m_Server := Some s1\<rparr>) h = Inr (L1, h1, ev2)"
    using c s(1) a(1) by (auto simp: command_accept_def bind_ub_Inr_iff)
  then have "command_part (L\<lparr>m_Server := Some s1\<rparr>) L1" using OnClientConnected_part [OF _ a(2), of "L\<lparr>m_Server := Some s1\<rparr>"] by auto
  moreover have "covers s s1" unfolding s1_def by (rule covers_accepted)
  ultimately show ?thesis using s(1) by (auto simp: command_part_def option_rel_Some1 intro: covers_trans)
qed

lemma kick_binary_part:
  assumes s: "m_TCPBinaryServer L = Some s" "m_ClientDisconnectCallback s" and k: "kick_binary k L = Inr (L1, ev)"
  shows "binary_part L L1"
  using k unfolding kick_binary_eq [OF s] by (cases "k = m_ActiveTCPBinaryClientId L") (auto simp: binary_part_def OnTCPBinaryClientDisconnected_def s(1))

lemma binary_accept_part:
  assumes s: "m_TCPBinaryServer L = Some s" "m_ClientConnectCallback s" "m_ClientDisconnectCallback s"
    and c: "binary_accept r L = Inr (L1, ev)"
  shows "binary_part L L1"
proof (cases r)
  case Accept_Failed
  then show ?thesis using c s(1) by (auto simp: binary_accept_def AcceptConnectionThread_step_def binary_part_def)
next
  case (Accepted k ip port)
  define s1 where "s1 = fst (AcceptConnectionThread_step r s)"
  have a: "AcceptConnectionThread_step r s = (s1, [Client_Connected k])" "m_ClientDisconnectCallback s1"
    using s by (simp_all add: s1_def Accepted accept_fields)
  have v: "covers s s1" unfolding s1_def by (rule covers_accepted)
  obtain ev2 where "OnTCPBinaryClientConnected k (L\<lparr>m_TCPBinaryServer := Some s1\<rparr>) = Inr (L1, ev2)"
    using c s(1) a(1) by (auto simp: binary_accept_def bind_ub_Inr_iff)
  then show ?thesis using s(1) a(2) v
    by (auto simp: OnTCPBinaryClientConnected_def kick_binary_eq OnTCPBinaryClientDisconnected_def binary_part_def
        bind_ub_Inr_iff intro: covers_trans [OF v covers_erase] split: if_splits)
qed

subsection \<open>The invariant\<close>

text \<open>Every client of a server has its handler, in the queue of the pool or run by a worker.\<close>

definition attended :: "Server \<Rightarrow> bool" where
  "attended s \<longleftrightarrow> (\<forall>cid \<in> fst ` set (m_Connections s).
     HandleConnectionThread cid \<in> set (m_Tasks (m_Pool s)) \<or>
     (\<exists>i < length (m_Threads (m_Pool s)). fst (m_Threads (m_Pool s) ! i) = Running (HandleConnectionThread cid)))"

definition hooked :: "nat \<Rightarrow> Server \<Rightarrow> bool" where
  "hooked n s \<longleftrightarrow> m_DataReceivedCallback s \<and> info_buffer_size (m_ServerInfo s) = 1024 \<and>
     length (m_Threads (m_Pool s)) = n \<and> attended s"

lemma attended_covers: "covers s s' \<Longrightarrow> attended s \<Longrightarrow> attended s'"
  unfolding attended_def covers_def view_def by fastforce

text \<open>Only a worker that runs a connection's handler has its buffer.\<close>

definition busy :: "port \<Rightarrow> handlers \<Rightarrow> Server \<Rightarrow> bool" where
  "busy port hs s \<longleftrightarrow> (\<forall>i. hs (port, i) \<noteq> None \<longrightarrow> i < length (m_Threads (m_Pool s)) \<and>
     (\<exists>cid. fst (m_Threads (m_Pool s) ! i) = Running (HandleConnectionThread cid)))"

definition sound :: "mps_protocol \<Rightarrow> (nat \<rightharpoonup> u8 option list) \<Rightarrow> scan_pc \<Rightarrow> handlers \<Rightarrow> ('g, 'd) ServerLayer
    \<Rightarrow> heap \<Rightarrow> bool" where
  "sound P B pc hs L h \<longleftrightarrow> (\<exists>m s t. m_Device L = Some m \<and> m_Server L = Some s \<and> m_TCPBinaryServer L = Some t \<and>
     scan_inv P (pc, m) \<and> command_inv (blocks h) (L, h) \<and> binary_inv L \<and>
     hooked 5 s \<and> hooked 2 t \<and> busy Command_Port hs s \<and> busy Binary_Port hs t \<and>
     m_DataQueue t = [] \<and> memory_ok B hs h (m_DataQueue s))"

lemma soundE:
  assumes "sound P B pc hs L h"
  obtains m s t where "m_Device L = Some m" "m_Server L = Some s" "m_TCPBinaryServer L = Some t"
    "scan_inv P (pc, m)" "command_inv (blocks h) (L, h)" "binary_inv L"
    "hooked 5 s" "hooked 2 t" "busy Command_Port hs s" "busy Binary_Port hs t"
    "m_DataQueue t = []" "memory_ok B hs h (m_DataQueue s)"
  using assms unfolding sound_def by blast

lemma covers_fields:
  assumes "covers s s'"
  shows "hooked n s \<Longrightarrow> hooked n s'" "busy port hs s' = busy port hs s" "m_DataQueue s' = m_DataQueue s"
  using assms attended_covers [OF assms] by (simp_all add: covers_def view_def hooked_def busy_def)

lemma queue_fields [simp]:
  "hooked n (s\<lparr>m_DataQueue := q\<rparr>) = hooked n s" "busy port hs (s\<lparr>m_DataQueue := q\<rparr>) = busy port hs s"
  by (simp_all add: hooked_def busy_def attended_def)

lemma command_invE:
  assumes "command_inv B (L, h)" and "m_Server L = Some s"
  shows "heap_ok h" "blocks h = B" "m_ClientConnectCallback s" "m_ClientDisconnectCallback s" "connections_ok s"
    "map_ok (m_Cmds L)" "dom (map_of (m_Cmds L)) \<subseteq> {0, m_ActiveTCPCommandClientId L}"
  using assms slot_conns_ok by (auto simp: command_inv_def)

lemma binary_invE:
  assumes "binary_inv L" and "m_TCPBinaryServer L = Some t"
  shows "m_ClientConnectCallback t" "m_ClientDisconnectCallback t" "connections_ok t"
  using assms slot_conns_ok by (auto simp: binary_inv_def)

lemma command_inv_heap: "command_inv B (L, h) \<Longrightarrow> heap_ok h' \<Longrightarrow> command_inv (blocks h') (L, h')"
proof -
  have "command_slot (L, h') = command_slot (L, h)" by (simp add: command_slot_def)
  then show "command_inv B (L, h) \<Longrightarrow> heap_ok h' \<Longrightarrow> command_inv (blocks h') (L, h')" by (auto simp: command_inv_def)
qed

lemma inv_updates [simp]:
  "binary_inv (L\<lparr>m_Server := x\<rparr>) = binary_inv L" "binary_inv (L\<lparr>m_Device := d\<rparr>) = binary_inv L"
  "command_inv B (L\<lparr>m_TCPBinaryServer := x\<rparr>, h) = command_inv B (L, h)"
  "command_inv B (L\<lparr>m_Device := d\<rparr>, h) = command_inv B (L, h)"
  by (simp_all add: command_inv_def command_slot_def binary_inv_def binary_slot_def)

text \<open>A server that keeps its clients and callbacks.\<close>

lemma command_inv_server:
  assumes "command_inv B (L, h)" and "m_Server L = Some s" and "m_Connections s' = m_Connections s"
    and "m_ClientConnectCallback s' = m_ClientConnectCallback s"
    and "m_ClientDisconnectCallback s' = m_ClientDisconnectCallback s"
  shows "command_inv B (L\<lparr>m_Server := Some s'\<rparr>, h)"
proof -
  have "command_slot (L\<lparr>m_Server := Some s'\<rparr>, h) = command_slot (L, h)" by (simp add: command_slot_def)
  then show ?thesis using assms by (simp add: command_inv_def)
qed

lemma binary_inv_server:
  assumes "binary_inv L" and "m_TCPBinaryServer L = Some s" and "m_Connections s' = m_Connections s"
    and "m_ClientConnectCallback s' = m_ClientConnectCallback s"
    and "m_ClientDisconnectCallback s' = m_ClientDisconnectCallback s"
  shows "binary_inv (L\<lparr>m_TCPBinaryServer := Some s'\<rparr>)"
proof -
  have "binary_slot (L\<lparr>m_TCPBinaryServer := Some s'\<rparr>) = binary_slot L" by (simp add: binary_slot_def)
  then show ?thesis using assms by (simp add: binary_inv_def)
qed

lemma sound_command_part:
  assumes so: "sound P B pc hs L h" and part: "command_part L L1" and inv: "command_inv (blocks h) (L1, h1)"
  shows "sound P B pc hs L1 h1"
  using so
proof (rule soundE)
  fix m s t
  assume L: "m_Device L = Some m" "m_Server L = Some s" "m_TCPBinaryServer L = Some t"
    and i: "scan_inv P (pc, m)" "binary_inv L" "hooked 5 s" "hooked 2 t" "busy Command_Port hs s"
      "busy Binary_Port hs t" "m_DataQueue t = []" "memory_ok B hs h (m_DataQueue s)"
  obtain s1 where s1: "m_Server L1 = Some s1" "covers s s1"
    using part L(2) by (auto simp: command_part_def option_rel_Some1)
  have h1: "heap_ok h1" "blocks h1 = blocks h" using command_invE [OF inv s1(1)] by simp_all
  have "binary_slot L1 = binary_slot L" using part by (simp add: command_part_def binary_slot_def)
  then have "binary_inv L1" using i(2) part by (simp add: command_part_def binary_inv_def)
  then show ?thesis
    using L i s1 part inv h1 memory_same [OF i(8) h1(2,1)] covers_fields(1) [OF s1(2) i(3)]
    by (simp add: sound_def covers_fields(2,3) [OF s1(2)] command_part_def)
qed

lemma sound_binary_part:
  assumes so: "sound P B pc hs L h" and part: "binary_part L L1" and inv: "binary_inv L1"
  shows "sound P B pc hs L1 h"
  using so
proof (rule soundE)
  fix m s t
  assume L: "m_Device L = Some m" "m_Server L = Some s" "m_TCPBinaryServer L = Some t"
    and i: "scan_inv P (pc, m)" "command_inv (blocks h) (L, h)" "hooked 5 s" "hooked 2 t" "busy Command_Port hs s"
      "busy Binary_Port hs t" "m_DataQueue t = []" "memory_ok B hs h (m_DataQueue s)"
  obtain t1 where t1: "m_TCPBinaryServer L1 = Some t1" "covers t t1"
    using part L(3) by (auto simp: binary_part_def option_rel_Some1)
  have "command_slot (L1, h) = command_slot (L, h)" using part by (simp add: binary_part_def command_slot_def)
  then have "command_inv (blocks h) (L1, h)" using i(2) part by (simp add: binary_part_def command_inv_def)
  then show ?thesis
    using L i t1 part inv covers_fields(1) [OF t1(2) i(4)]
    by (simp add: sound_def covers_fields(2,3) [OF t1(2)] binary_part_def)
qed

subsection \<open>Connections\<close>

lemma accept_sound:
  assumes so: "sound P B pc hs L h" and r: "valid_op (Peer r)"
  shows "\<exists>L1 h1 ev. on_accept port r L h = Inr (L1, h1, ev) \<and> sound P B pc hs L1 h1"
  using so
proof (rule soundE)
  fix m s t
  assume L: "m_Server L = Some s" "m_TCPBinaryServer L = Some t"
    and i: "command_inv (blocks h) (L, h)" "binary_inv L"
  show ?thesis
  proof (cases port)
    case Command_Port
    obtain L1 h1 ev where a: "command_accept r L h = Inr (L1, h1, ev)" "command_inv (blocks h) (L1, h1)"
      using command.slot_step [OF i(1) r] by (auto simp: bind_ub_Inr_iff)
    have "command_part L L1" by (rule command_accept_part [OF L(1) command_invE(3,4) [OF i(1) L(1)] a(1)])
    then show ?thesis using sound_command_part [OF so _ a(2)] a(1) Command_Port by auto
  next
    case Binary_Port
    obtain L1 ev where a: "binary_accept r L = Inr (L1, ev)" "binary_inv L1"
      using binary.slot_step [OF i(2) r] by auto
    have "binary_part L L1" by (rule binary_accept_part [OF L(2) binary_invE(1,2) [OF i(2) L(2)] a(1)])
    then show ?thesis using sound_binary_part [OF so _ a(2)] a(1) Binary_Port by auto
  qed
qed

text \<open>Who is kicked is no client any more, and the pool goes on as it was.\<close>

definition gone :: "port \<Rightarrow> u64 \<Rightarrow> ('g, 'd) ServerLayer \<Rightarrow> ('g, 'd) ServerLayer \<Rightarrow> bool" where
  "gone port k L L1 \<longleftrightarrow> k \<notin> fst ` set (m_Connections (the (server_of port L1))) \<and>
     (\<forall>i cid. serves port i cid L1 = serves port i cid L)"

lemma goneI:
  assumes "server_of port L = Some s" and "connections_ok s"
    and "server_of port L1 = Some (s\<lparr>m_Connections := map_erase k (m_Connections s)\<rparr>)"
  shows "gone port k L L1"
proof -
  have "map_of (map_erase k (m_Connections s)) k = None"
    using map_of_erase [of "m_Connections s" k k] assms(2) by (simp add: connections_ok_def)
  then show ?thesis using assms(1,3) by (simp add: gone_def serves_def map_of_eq_None_iff)
qed

lemma kick_sound:
  assumes so: "sound P B pc hs L h"
  shows "\<exists>L1 ev. kick port k L = Inr (L1, ev) \<and> sound P B pc hs L1 h \<and> gone port k L L1"
  using so
proof (rule soundE)
  fix m s t
  assume L: "m_Server L = Some s" "m_TCPBinaryServer L = Some t"
    and i: "command_inv (blocks h) (L, h)" "binary_inv L"
  show ?thesis
  proof (cases port)
    case Command_Port
    obtain L1 ev where a: "kick_command k L = Inr (L1, ev)" "command_inv (blocks h) (L1, h)"
      using command.slot_step [OF i(1), of "Kick k"] by (auto simp: bind_ub_Inr_iff)
    note c = command_invE [OF i(1) L(1)]
    have "command_part L L1" by (rule kick_command_part [OF L(1) c(4) a(1)])
    moreover have "gone Command_Port k L L1"
      by (rule goneI [of _ _ s]) (use L(1) c(5) a(1) kick_command_eq [OF L(1) c(4)] in auto)
    ultimately show ?thesis using sound_command_part [OF so _ a(2)] a(1) Command_Port by auto
  next
    case Binary_Port
    obtain L1 ev where a: "kick_binary k L = Inr (L1, ev)" "binary_inv L1"
      using binary.slot_step [OF i(2), of "Kick k"] by auto
    note c = binary_invE [OF i(2) L(2)]
    have "binary_part L L1" by (rule kick_binary_part [OF L(2) c(2) a(1)])
    moreover have "gone Binary_Port k L L1"
      by (rule goneI [of _ _ t]) (use L(2) c(3) a(1) kick_binary_eq [OF L(2) c(2)] in auto)
    ultimately show ?thesis using sound_binary_part [OF so _ a(2)] a(1) Binary_Port by auto
  qed
qed

subsection \<open>Commands and data\<close>

lemma sound_device:
  assumes "sound P B pc hs L h" and "scan_inv P (pc', m')"
  shows "sound P B pc' hs (L\<lparr>m_Device := Some m'\<rparr>) h"
  using assms by (auto simp: sound_def)

lemma sound_heap:
  assumes "sound P B pc hs L h" and "blocks h' = blocks h" and "heap_ok h'"
  shows "sound P B pc hs L h'"
  using assms(1)
proof (rule soundE)
  fix m s t
  assume L: "m_Device L = Some m" "m_Server L = Some s" "m_TCPBinaryServer L = Some t"
    and i: "scan_inv P (pc, m)" "command_inv (blocks h) (L, h)" "binary_inv L"
      "hooked 5 s" "hooked 2 t" "busy Command_Port hs s" "busy Binary_Port hs t"
      "m_DataQueue t = []" "memory_ok B hs h (m_DataQueue s)"
  show ?thesis
    using L i memory_same [OF i(9) assms(2,3)] command_inv_heap [OF i(2) assms(3)] by (simp add: sound_def)
qed

lemma sound_commanded:
  assumes so: "sound P B pc hs L h" and c: "commanded P pc L h (e', L', h', ev)"
  shows "sound P B pc hs L' h'"
proof -
  obtain m' cmds where L': "L' = L\<lparr>m_Device := Some m', m_Cmds := cmds\<rparr>" and m': "scan_inv P (pc, m')"
    and cmds: "map_ok cmds" "dom (map_of cmds) \<subseteq> {0, m_ActiveTCPCommandClientId L}"
    and h': "blocks h' = blocks h" "heap_ok h'"
    using c by (auto simp: commanded_def)
  have so': "sound P B pc hs (L\<lparr>m_Device := Some m'\<rparr>) h'" by (rule sound_heap [OF sound_device [OF so m'] h'])
  let ?L = "L\<lparr>m_Device := Some m'\<rparr>"
  have "command_inv (blocks h') (?L, h')" using so' by (auto simp: sound_def)
  moreover have "command_slot (?L\<lparr>m_Cmds := cmds\<rparr>, h') = command_slot (?L, h')" by (simp add: command_slot_def)
  ultimately have "command_inv (blocks h') (?L\<lparr>m_Cmds := cmds\<rparr>, h')"
    using cmds by (simp add: command_inv_def)
  then show ?thesis unfolding L'
    using sound_command_part [OF so', of "?L\<lparr>m_Cmds := cmds\<rparr>"] by (simp add: command_part_def option.rel_refl)
qed

lemma OnCommand_sound:
  assumes P: "enums_ok P" "sizes_ok P" and so: "sound P B pc hs L h" and line: "line_in_range cid cmd L"
  shows "\<exists>e' L' h' ev. OnCommand P R t1 t2 cid cmd e L h = Inr (e', L', h', ev) \<and> sound P B pc hs L' h'"
  using so
proof (rule soundE)
  fix m s t
  assume L: "m_Device L = Some m" "m_Server L = Some s" and i: "scan_inv P (pc, m)" "command_inv (blocks h) (L, h)"
  note c = command_invE [OF i(2) L(2)]
  obtain r where r: "OnCommand P R t1 t2 cid cmd e L h = Inr r" "commanded P pc L h r"
    using OnCommand_safe [OF P c(1) L c(5) i(1) line c(6,7), of R t1 t2 e] by blast
  then show ?thesis using sound_commanded [OF so] by (cases r) auto
qed

lemma sound_released:
  assumes so: "sound P (B(buf_data b \<mapsto> map Some bs)) pc hs L h" and b: "B (buf_data b) = None"
    and size: "buf_size b = length bs" and bs: "bs \<noteq> []"
  shows "\<exists>h'. Release b h = Inr (empty_buffer, h') \<and> sound P B pc hs L h'"
  using so
proof (rule soundE)
  fix m s t
  assume L: "m_Device L = Some m" "m_Server L = Some s" "m_TCPBinaryServer L = Some t"
    and i: "scan_inv P (pc, m)" "command_inv (blocks h) (L, h)" "binary_inv L"
      "hooked 5 s" "hooked 2 t" "busy Command_Port hs s" "busy Binary_Port hs t"
      "m_DataQueue t = []" and m: "memory_ok (B(buf_data b \<mapsto> map Some bs)) hs h (m_DataQueue s)"
  obtain h' where h': "Release b h = Inr (empty_buffer, h')" "memory_ok B hs h' (m_DataQueue s)"
    using memory_copy_released(1) [OF m b size bs] by blast
  have "command_inv (blocks h') (L, h')" by (rule command_inv_heap [OF i(2) memory_okD(1) [OF h'(2)]])
  then show ?thesis using L i h' by (auto simp: sound_def)
qed

lemma sound_holds:
  assumes "sound P (B(buf_data b \<mapsto> map Some bs)) pc hs L h" and "B (buf_data b) = None"
    and "buf_size b = length bs" and "bs \<noteq> []"
  shows "holds h b bs"
  using assms(1)
proof (rule soundE)
  fix s :: Server
  assume "memory_ok (B(buf_data b \<mapsto> map Some bs)) hs h (m_DataQueue s)"
  from memory_copy_released(2) [OF this assms(2-4)] show ?thesis .
qed

lemma binary_data_sound:
  assumes P: "enums_ok P" "sizes_ok P" and so: "sound P B pc hs L h" and b: "holds h b bs" "bs \<noteq> []"
  shows "\<exists>L1 h1 ev. OnTCPBinaryDataReceived P R t1 t2 cid b L h =
           bind_ub (Release b h1) (\<lambda>(_, h2). Inr (L1, h2, ev)) \<and> sound P B pc hs L1 h1"
  using so
proof (rule soundE)
  fix m s t
  assume L: "m_Device L = Some m" "m_Server L = Some s" and i: "scan_inv P (pc, m)" "command_inv (blocks h) (L, h)"
  note c = command_invE [OF i(2) L(2)]
  have bl: "blocks h (buf_data b) = Some (map Some bs)" "buf_size b = length bs" using b by (auto simp: holds_def)
  then have val: "load_bytes (buf_data b) 1 h = Inr [hd bs]" "1 \<le> buf_size b"
    using b(2) by (cases bs; auto simp: load_bytes_def load_def)+
  define r where "r = (if hd bs = 1 then StartScan P R t1 t2 m else if hd bs = 0 then Inr (StopScan P m) else Inr (m, []))"
  have "\<exists>m1 es. r = Inr (m1, es) \<and> scan_inv P (pc, m1) \<and> set es \<subseteq> {Status_Changed}"
  proof -
    consider "hd bs = 1" | "hd bs \<noteq> 1" "hd bs = 0" | "hd bs \<noteq> 1" "hd bs \<noteq> 0" by blast
    then show ?thesis
    proof cases
      case 1
      then show ?thesis using control_step_inv [OF P i(1), of "Start_Scan t1 t2" R] StartScan_events
        by (fastforce simp: r_def)
    next
      case 2
      then have "r = Inr (StopScan P m)" by (simp add: r_def)
      moreover obtain m1 es where s: "StopScan P m = (m1, es)" by fastforce
      moreover have "scan_inv P (pc, m1)" using StopScan_inv [OF P(1) i(1)] s by simp
      moreover have "set es \<subseteq> {Status_Changed}" using s by (auto simp: StopScan_def Let_def notify_def split: if_splits)
      ultimately show ?thesis by simp
    qed (use i(1) in \<open>simp add: r_def\<close>)
  qed
  then obtain m1 es where r: "r = Inr (m1, es)" "scan_inv P (pc, m1)" "set es \<subseteq> {Status_Changed}" by blast
  obtain h1 ev where h1: "device_events P es (L\<lparr>m_Device := Some m1\<rparr>) h = Inr (L\<lparr>m_Device := Some m1\<rparr>, h1, ev)"
    "blocks h1 = blocks h" "heap_ok h1"
    using status_events [OF c(1) _ _ c(5) r(3), of "L\<lparr>m_Device := Some m1\<rparr>" m1 P] L by auto
  have "sound P B pc hs (L\<lparr>m_Device := Some m1\<rparr>) h1" by (rule sound_heap [OF sound_device [OF so r(2)] h1(2,3)])
  moreover have "OnTCPBinaryDataReceived P R t1 t2 cid b L h =
      bind_ub (Release b h1) (\<lambda>(_, h2). Inr (L\<lparr>m_Device := Some m1\<rparr>, h2, ev))"
    using val r(1) [unfolded r_def] h1(1) L(1)
    by (cases "hd bs = 1"; cases "hd bs = 0") (simp_all add: OnTCPBinaryDataReceived_def)
  ultimately show ?thesis by blast
qed

lemma data_sound:
  assumes P: "enums_ok P" "sizes_ok P" and so: "sound P (B(buf_data b \<mapsto> map Some bs)) pc hs L h"
    and b: "B (buf_data b) = None" "buf_size b = length bs" "bs \<noteq> []"
    and line: "port = Command_Port \<Longrightarrow> line_in_range cid (string_of bs) L"
  shows "\<exists>L1 h1 ev. on_data P R w port cid b L h = Inr (L1, h1, ev) \<and> sound P B pc hs L1 h1"
proof -
  have holds: "holds h b bs" by (rule sound_holds [OF so b])
  show ?thesis
  proof (cases port)
    case Command_Port
    obtain e' L' h' ev where c: "OnCommand P R (system_now w) (steady_now w) cid (string_of bs) (errno_set w) L h =
        Inr (e', L', h', ev)" "sound P (B(buf_data b \<mapsto> map Some bs)) pc hs L' h'"
      using OnCommand_sound [OF P so line [OF Command_Port]] by blast
    obtain h2 where "Release b h' = Inr (empty_buffer, h2)" "sound P B pc hs L' h2"
      using sound_released [OF c(2) b] by blast
    then show ?thesis using Command_Port c(1)
      by (simp add: OnDataReceived_def load_bytes_holds [OF holds])
  next
    case Binary_Port
    obtain L1 h1 ev where c: "OnTCPBinaryDataReceived P R (system_now w) (steady_now w) cid b L h =
        bind_ub (Release b h1) (\<lambda>(_, h2). Inr (L1, h2, ev))" "sound P (B(buf_data b \<mapsto> map Some bs)) pc hs L1 h1"
      using binary_data_sound [OF P so holds b(3)] by blast
    obtain h2 where "Release b h1 = Inr (empty_buffer, h2)" "sound P B pc hs L1 h2"
      using sound_released [OF c(2) b] by blast
    then show ?thesis using Binary_Port c(1) by simp
  qed
qed

subsection \<open>The scan thread\<close>

text \<open>A LabVIEW frame is made of whole words.\<close>

lemma length_words: "length (concat (map (le_bytes32 \<circ> f) xs)) = 4 * length xs"
  by (induction xs) simp_all

lemma labview_frame_words:
  assumes "sizes_ok P" and "labview_frame P m fd frame = Inr ev"
  shows "list_all whole_words ev"
proof -
  have "labview_size P n mod 4 = 0" for n
    using assms(1) by (simp add: labview_size_def sizes_ok_def)
  moreover have "min (4 * a) b mod 4 = 0" if "b mod 4 = 0" for a b :: nat using that by (simp add: min_def)
  ultimately show ?thesis
    using assms(2) by (auto simp: labview_frame_def Let_def length_words min.commute split: if_splits)
qed

lemma binary_frame_words: "binary_frame P m fd frame dt = Inr ev \<Longrightarrow> list_all whole_words ev"
  by (auto simp: binary_frame_def bind_ub_Inr_iff Let_def split: if_splits option.splits)

lemma stop_words: "list_all whole_words (snd (StopScan P m))"
  by (simp add: StopScan_def Let_def notify_def)

lemma scan_thread_words:
  assumes P: "sizes_ok P" and step: "scan_thread_step P R pc m = Inr (pc1, m1, es)"
  shows "list_all whole_words es"
proof (cases pc)
  case (Sampling fe dt frame i acc)
  have "list_all whole_words ev" if "frame_events P dt frame acc m = Inr ev" for ev
    using that labview_frame_words [OF P] binary_frame_words
    by (auto simp: frame_events_def bind_ub_Inr_iff split: if_splits)
  then show ?thesis using step Sampling
    by (auto simp: scan_thread_step_simps bind_ub_Inr_iff split: if_splits prod.splits)
next
  case (Frame_Sleep fe frame)
  then have "es = snd (end_of_frame P frame m)" using step by (simp add: scan_thread_step_simps)
  then show ?thesis by (simp add: end_of_frame_def stop_words)
qed (use step in \<open>auto simp: scan_thread_step_def notify_def Let_def bind_ub_Inr_iff split: if_splits\<close>)

lemma events_sound:
  assumes so: "sound P B pc hs L h" and w: "list_all whole_words es"
  shows "\<exists>L1 h1 ev. device_events P es L h = Inr (L1, h1, ev) \<and> sound P B pc hs L1 h1"
  using so
proof (rule soundE)
  fix m s t
  assume L: "m_Device L = Some m" "m_Server L = Some s" "m_TCPBinaryServer L = Some t"
    and i: "scan_inv P (pc, m)" "command_inv (blocks h) (L, h)" "binary_inv L"
      "hooked 5 s" "hooked 2 t" "busy Command_Port hs s" "busy Binary_Port hs t"
      "m_DataQueue t = []" and m: "memory_ok B hs h (m_DataQueue s)"
  obtain ds where q: "queue_holds h (m_DataQueue s) ds" using memory_okD(3) [OF m] by blast
  obtain q' h' where d: "device_events P es L h =
        Inr (L\<lparr>m_Server := Some (s\<lparr>m_DataQueue := q'\<rparr>)\<rparr>, h', concat (map (routed P L m s t) es))"
    "heap_ok h'" "queue_holds h' q' (ds @ concat (map (queued P m) es))" "new_packets h (m_DataQueue s) q'"
    "\<forall>a. a \<notin> set (owned q') \<longrightarrow> blocks h' a = blocks h a"
    using events_delivered [OF memory_okD(1) [OF m] q L command_invE(5) [OF i(2) L(2)] binary_invE(3) [OF i(3) L(3)]] w
    unfolding delivers_def by blast
  let ?s = "s\<lparr>m_DataQueue := q'\<rparr>"
  have "memory_ok B hs h' q'" by (rule memory_queued [OF m d(2-5)])
  moreover have "command_inv (blocks h') (L, h')" by (rule command_inv_heap [OF i(2) d(2)])
  then have "command_inv (blocks h') (L\<lparr>m_Server := Some ?s\<rparr>, h')" by (rule command_inv_server [OF _ L(2)]) simp_all
  moreover have "hooked 5 ?s" "busy Command_Port hs ?s" using i(4,6) by simp_all
  ultimately have "sound P B pc hs (L\<lparr>m_Server := Some ?s\<rparr>) h'" using L i by (simp add: sound_def)
  then show ?thesis using d(1) by blast
qed

subsection \<open>The stream and the handlers\<close>

lemma stream_sound:
  assumes so: "sound P B pc hs L h"
  shows "\<exists>go L1 h1 ev. stream_turn port L h = Inr (go, L1, h1, ev) \<and> sound P B pc hs L1 h1 \<and> (\<not> go \<longrightarrow> L1 = L)"
  using so
proof (rule soundE)
  fix m s t
  assume L: "m_Device L = Some m" "m_Server L = Some s" "m_TCPBinaryServer L = Some t"
    and i: "scan_inv P (pc, m)" "command_inv (blocks h) (L, h)" "binary_inv L"
      "hooked 5 s" "hooked 2 t" "busy Command_Port hs s" "busy Binary_Port hs t"
      "m_DataQueue t = []" and m: "memory_ok B hs h (m_DataQueue s)"
  have same: "L\<lparr>m_Server := Some s\<rparr> = L" "L\<lparr>m_TCPBinaryServer := Some t\<rparr> = L" by (simp_all flip: L(2,3))
  show ?thesis
  proof (cases "port = Binary_Port \<or> m_DataQueue s = [] \<or> \<not> m_ServerIsRunning s")
    case True
    then have "\<exists>go. stream_turn port L h = Inr (go, L, h, [])"
      by (cases port) (auto simp: stream_turn_def DataStreamThread_step_def L i(8) same)
    then show ?thesis using so by blast
  next
    case False
    then have f: "port = Command_Port" "m_DataQueue s \<noteq> []" "m_ServerIsRunning s" by (cases port; simp)+
    obtain ds where "queue_holds h (m_DataQueue s) ds" using memory_okD(3) [OF m] by blast
    moreover from this f(2) obtain ip pt bs ds' where ds: "ds = (ip, pt, bs) # ds'"
      by (cases ds) (auto simp: queue_holds_def)
    ultimately obtain p q h' where d: "m_DataQueue s = p # q"
      "DataStreamThread_step s h = Inr (s\<lparr>m_DataQueue := q\<rparr>, h', [Datagram (c_str ip) pt bs])"
      "heap_ok h'" "queue_holds h' q ds'" "\<forall>a. blocks h' a = (if a \<in> set (owned [p]) then None else blocks h a)"
      using DataStreamThread_step_pop [OF memory_okD(1) [OF m], of s ip pt bs ds'] by blast
    let ?s = "s\<lparr>m_DataQueue := q\<rparr>"
    have "memory_ok B hs h' q" by (rule memory_popped [OF m [unfolded d(1)] d(3-5)])
    moreover have "command_inv (blocks h') (L, h')" by (rule command_inv_heap [OF i(2) d(3)])
    then have "command_inv (blocks h') (L\<lparr>m_Server := Some ?s\<rparr>, h')" by (rule command_inv_server [OF _ L(2)]) simp_all
    moreover have "hooked 5 ?s" "busy Command_Port hs ?s" using i(4,6) by simp_all
    ultimately have "sound P B pc hs (L\<lparr>m_Server := Some ?s\<rparr>) h'" using L i by (simp add: sound_def)
    moreover have "stream_turn port L h = Inr (True, L\<lparr>m_Server := Some ?s\<rparr>, h', map On_Command [Datagram (c_str ip) pt bs])"
      using f d(2) L(2) by (simp add: stream_turn_def)
    ultimately show ?thesis by blast
  qed
qed

lemma sound_server:
  assumes "sound P B pc hs L h" and "server_of port L = Some s"
  shows "m_DataReceivedCallback s" "info_buffer_size (m_ServerInfo s) = 1024"
    "length (m_Threads (m_Pool s)) = (case port of Command_Port \<Rightarrow> 5 | Binary_Port \<Rightarrow> 2)" "busy port hs s"
    "memory_ok B hs h (m_DataQueue (the (m_Server L)))" "heap_ok h"
  using assms memory_okD(1) by (cases port; fastforce simp: sound_def hooked_def)+

text \<open>Turns that only change the storage and who has a buffer.\<close>

lemma sound_memory:
  assumes so: "sound P B pc hs L h" and m: "memory_ok B' hs' h' (m_DataQueue (the (m_Server L)))"
    and b: "\<And>port s. server_of port L = Some s \<Longrightarrow> busy port hs' s"
  shows "sound P B' pc hs' L h'"
  using so
proof (rule soundE)
  fix m s t
  assume L: "m_Device L = Some m" "m_Server L = Some s" "m_TCPBinaryServer L = Some t"
    and i: "scan_inv P (pc, m)" "command_inv (blocks h) (L, h)" "binary_inv L" "hooked 5 s" "hooked 2 t" "m_DataQueue t = []"
  have "command_inv (blocks h') (L, h')" by (rule command_inv_heap [OF i(2) memory_okD(1) [OF m]])
  moreover have "busy Command_Port hs' s" "busy Binary_Port hs' t"
    using b [of Command_Port s] b [of Binary_Port t] L by simp_all
  ultimately show ?thesis using L i m by (simp add: sound_def)
qed

lemma sound_busy: "sound P B pc hs L h \<Longrightarrow> server_of port L = Some s \<Longrightarrow> busy port hs s"
  by (rule sound_server(4))

lemma buffer_zeroed:
  assumes h: "heap_ok h" and b: "recv_buffer h buf"
  shows "\<exists>h1. Zero buf h = Inr h1 \<and> heap_ok h1 \<and> recv_buffer h1 buf \<and> (\<forall>a. a \<noteq> buf_data buf \<longrightarrow> blocks h1 a = blocks h a)"
proof -
  obtain old where old: "blocks h (buf_data buf) = Some old" "length old = buf_size buf"
    using b by (auto simp: recv_buffer_def)
  have ne: "buf_data buf \<noteq> 0" using old heap_ok_null [OF h] by (metis option.simps(3))
  let ?h1 = "if buf_size buf = 0 then h else
      h\<lparr>blocks := (blocks h)(buf_data buf \<mapsto> replicate (buf_size buf) (Some 0))\<rparr>"
  have "Zero buf h = Inr ?h1" using ne old by (simp add: Zero_def store_def)
  moreover have "heap_ok ?h1" using h ne old by (auto simp: heap_ok_def domIff)
  moreover have "recv_buffer ?h1 buf" using old by (auto simp: recv_buffer_def)
  ultimately show ?thesis by (intro exI [of _ ?h1]) simp
qed

lemma bytes_received:
  assumes h: "heap_ok h" and b: "recv_buffer h buf" and n: "length bs \<le> buf_size buf" "bs \<noteq> []"
    and s: "m_DataReceivedCallback s"
  shows "\<exists>h' c h1. HandleConnectionThread_recv buf (Received bs) s h = Inr (True, h', Some c) \<and>
           copied h1 bs = (c, h') \<and> heap_ok h1 \<and> recv_buffer h1 buf \<and>
           (\<forall>a. a \<noteq> buf_data buf \<longrightarrow> blocks h1 a = blocks h a)"
proof -
  obtain old where old: "blocks h (buf_data buf) = Some old" "length old = buf_size buf"
    using b by (auto simp: recv_buffer_def)
  have ne: "buf_data buf \<noteq> 0" using old heap_ok_null [OF h] by (metis option.simps(3))
  let ?h1 = "h\<lparr>blocks := (blocks h)(buf_data buf \<mapsto> map Some bs @ drop (length bs) old)\<rparr>"
  have st: "store (buf_data buf) (map Some bs) h = Inr ?h1" using n old by (simp add: store_def)
  have ok: "heap_ok ?h1" using h ne old by (auto simp: heap_ok_def domIff)
  have ld: "load (buf_data buf) (length bs) h2 = Inr (map Some bs)"
    if "blocks h2 (buf_data buf) = Some (map Some bs @ drop (length bs) old)" for h2
    using that n by (simp add: load_def)
  obtain c h' where c: "copied ?h1 bs = (c, h')" by fastforce
  have "buf_data buf \<noteq> fresh h" using heap_ok_fresh [OF h] old(1) by auto
  then have "Copy (buf_data buf) (length bs) ?h1 = Inr (c, h')"
    using n(2) c Copy_bytes_eq [of bs ?h1]
    by (simp add: Copy_def Copy_bytes_def Allocate_fresh new_block_def ld)
  then have "HandleConnectionThread_recv buf (Received bs) s h = Inr (True, h', Some c)"
    using st s by (simp add: HandleConnectionThread_recv_def)
  moreover have "recv_buffer ?h1 buf" using old n by (simp add: recv_buffer_def)
  ultimately show ?thesis using c ok by (intro exI [of _ h'] exI [of _ c] exI [of _ ?h1]) simp
qed

text \<open>The buffer of a handler is written to.\<close>

lemma written_sound:
  assumes so: "sound P B pc hs L h" and st: "hs (port, i) = Some st"
    and w: "heap_ok h1" "recv_buffer h1 (handler_buffer st)"
      "\<forall>a. a \<noteq> buf_data (handler_buffer st) \<longrightarrow> blocks h1 a = blocks h a"
  shows "sound P B pc hs L h1"
proof (rule sound_memory [OF so _ sound_busy [OF so]])
  obtain s where s: "server_of port L = Some s" using so by (cases port) (auto simp: sound_def)
  show "memory_ok B hs h1 (m_DataQueue (the (m_Server L)))"
    by (rule memory_written [OF sound_server(5) [OF so s] st w])
qed

lemma sound_buffer:
  assumes so: "sound P B pc hs L h" and st: "hs (port, i) = Some st"
  shows "recv_buffer h (handler_buffer st)" and "buf_size (handler_buffer st) = 1024"
proof -
  obtain s where s: "server_of port L = Some s" using so by (cases port) (auto simp: sound_def)
  show "recv_buffer h (handler_buffer st)" "buf_size (handler_buffer st) = 1024"
    using memory_okD(2) [OF sound_server(5) [OF so s]] st unfolding buffers_ok_def by force+
qed

lemma check_sound:
  assumes so: "sound P B pc hs L h" and st: "hs (port, i) = Some (At_Check buf)"
  shows "\<exists>go h1. check_turn port cid buf L h = Inr (go, h1) \<and> sound P B pc hs L h1"
proof -
  obtain s where s: "server_of port L = Some s" using so by (cases port) (auto simp: sound_def)
  obtain h1 where h1: "Zero buf h = Inr h1" "heap_ok h1" "recv_buffer h1 buf"
    "\<forall>a. a \<noteq> buf_data buf \<longrightarrow> blocks h1 a = blocks h a"
    using buffer_zeroed [OF sound_server(6) [OF so s], of buf] sound_buffer(1) [OF so st] by auto
  have "sound P B pc hs L h1" by (rule written_sound [OF so st]) (use h1 in simp_all)
  then show ?thesis using s h1(1) so by (cases "m_ServerIsRunning s") (auto simp: check_turn_def HandleConnectionThread_check_def)
qed

lemma receive_sound:
  assumes P: "enums_ok P" "sizes_ok P" and so: "sound P B pc hs L h" and st: "hs (port, i) = Some (In_Recv buf)"
    and r: "\<And>bs. recv_reply w = Received bs \<Longrightarrow> bs \<noteq> [] \<and> length bs \<le> 1024 \<and>
      (port = Command_Port \<longrightarrow> line_in_range cid (string_of bs) L)"
  shows "\<exists>go L1 h1 ev. receive_turn P R w port cid buf L h = Inr (go, L1, h1, ev) \<and> sound P B pc hs L1 h1"
proof -
  obtain s where s: "server_of port L = Some s" using so by (cases port) (auto simp: sound_def)
  show ?thesis
  proof (cases "\<exists>bs. recv_reply w = Received bs")
    case False
    then have "HandleConnectionThread_recv buf (recv_reply w) s h = Inr (False, h, None)"
      by (cases "recv_reply w") (auto simp: HandleConnectionThread_recv_def)
    then have "receive_turn P R w port cid buf L h = Inr (False, L, h, [])" using s by (simp add: receive_turn_def)
    then show ?thesis using so by blast
  next
    case True
    then obtain bs where bs: "recv_reply w = Received bs" by blast
    note d = r [OF bs]
    obtain h2 c h1 where step: "HandleConnectionThread_recv buf (Received bs) s h = Inr (True, h2, Some c)"
      "copied h1 bs = (c, h2)" "heap_ok h1" "recv_buffer h1 buf" "\<forall>a. a \<noteq> buf_data buf \<longrightarrow> blocks h1 a = blocks h a"
      using bytes_received [OF sound_server(6) [OF so s], of buf bs s] sound_buffer [OF so st] d sound_server(1) [OF so s]
      by auto
    have so1: "sound P B pc hs L h1" by (rule written_sound [OF so st]) (use step in simp_all)
    note c = memory_copied [OF sound_server(5) [OF so1 s] step(2)]
    have "sound P (B(buf_data c \<mapsto> map Some bs)) pc hs L h2"
      by (rule sound_memory [OF so1 c(1) sound_busy [OF so1]]) (use d in simp_all)
    then obtain L1 h3 ev where c3: "on_data P R w port cid c L h2 = Inr (L1, h3, ev)" "sound P B pc hs L1 h3"
      using data_sound [OF P, of B c bs pc hs L h2 port cid R w] c(2,3) d by (auto simp: holds_def)
    then have "receive_turn P R w port cid buf L h = Inr (True, L1, h3, ev)"
      using s step(1) bs by (simp add: receive_turn_def)
    then show ?thesis using c3(2) by blast
  qed
qed

lemma leave_sound:
  assumes so: "sound P B pc hs L h" and st: "hs (port, i) = Some (Leaving buf)"
  shows "\<exists>L1 h1 ev. leave_turn port cid buf L h = Inr (L1, h1, ev) \<and> sound P B pc (hs((port, i) := None)) L1 h1 \<and>
     gone port cid L L1"
proof -
  obtain s where s: "server_of port L = Some s" using so by (cases port) (auto simp: sound_def)
  obtain h1 where h1: "Release buf h = Inr (empty_buffer, h1)"
    "memory_ok B (hs((port, i) := None)) h1 (m_DataQueue (the (m_Server L)))"
    using memory_released [OF sound_server(5) [OF so s] st] by auto
  have "busy p (hs((port, i) := None)) s'" if "server_of p L = Some s'" for p s'
    using sound_busy [OF so that] by (simp add: busy_def)
  then have "sound P B pc (hs((port, i) := None)) L h1" by (rule sound_memory [OF so h1(2)])
  then obtain L1 ev where "kick port cid L = Inr (L1, ev)" "sound P B pc (hs((port, i) := None)) L1 h1" "gone port cid L L1"
    using kick_sound by blast
  then show ?thesis using h1(1) by (simp add: leave_turn_def)
qed

end
