(* ===== verification/EmulatorSafe.thy ===== *)
theory EmulatorSafe
  imports EmulatorFrames
begin

section \<open>The emulator is safe whatever order its threads run in\<close>

text \<open>
  Every turn of every thread keeps the invariant of \<open>EmulatorFrames\<close>, which holds at the start;
  so it holds in every state that the running program reaches, with what follows from it.
\<close>

subsection \<open>The turns of the threads\<close>

definition emulator_inv :: "mps_protocol \<Rightarrow> (nat \<rightharpoonup> u8 option list) \<Rightarrow> ('g, 'd) emulator \<Rightarrow> bool" where
  "emulator_inv P B e \<longleftrightarrow> sound P B (em_scan e) (em_handlers e) (em_layer e) (em_heap e)"

text \<open>What is to show of a turn: if there is one, it is defined and keeps the invariant.\<close>

definition safe_turn :: "mps_protocol \<Rightarrow> (nat \<rightharpoonup> u8 option list) \<Rightarrow> ('g, 'd) turn \<Rightarrow> bool" where
  "safe_turn P B r \<longleftrightarrow> (case r of None \<Rightarrow> True | Some (Inl u) \<Rightarrow> False | Some (Inr (e, ev)) \<Rightarrow> emulator_inv P B e)"

lemma safe_turn_simps [simp]:
  "safe_turn P B None" "safe_turn P B (Some (Inr (e, ev))) = emulator_inv P B e"
  by (simp_all add: safe_turn_def)

lemma sound_with_server:
  assumes so: "sound P B pc hs L h" and s: "server_of port L = Some s" and b: "busy port hs s'"
    and c: "m_Connections s' = m_Connections s" "m_ClientConnectCallback s' = m_ClientConnectCallback s"
      "m_ClientDisconnectCallback s' = m_ClientDisconnectCallback s"
    and v: "m_DataQueue s' = m_DataQueue s" "\<And>n. hooked n s \<Longrightarrow> hooked n s'"
  shows "sound P B pc hs (with_server port s' L) h"
  using so
proof (rule soundE)
  fix m sc t
  assume L: "m_Device L = Some m" "m_Server L = Some sc" "m_TCPBinaryServer L = Some t"
    and i: "scan_inv P (pc, m)" "command_inv (blocks h) (L, h)" "binary_inv L"
      "hooked 5 sc" "hooked 2 t" "busy Command_Port hs sc" "busy Binary_Port hs t"
      "m_DataQueue t = []" "memory_ok B hs h (m_DataQueue sc)"
  show ?thesis
  proof (cases port)
    case Command_Port
    have "command_inv (blocks h) (L\<lparr>m_Server := Some s'\<rparr>, h)"
      by (rule command_inv_server [OF i(2) _ c]) (use s Command_Port in simp)
    then show ?thesis using L i s b v Command_Port by (simp add: sound_def)
  next
    case Binary_Port
    have "binary_inv (L\<lparr>m_TCPBinaryServer := Some s'\<rparr>)"
      by (rule binary_inv_server [OF i(3) _ c]) (use s Binary_Port in simp)
    then show ?thesis using L i s b v Binary_Port by (simp add: sound_def)
  qed
qed

lemma worker_step_threads:
  "worker_step i p = Some (p', ev) \<Longrightarrow> \<exists>w. m_Threads p' = (m_Threads p)[i := w]"
  by (auto simp: worker_step_def set_worker_def split: if_splits worker.splits prod.splits option.splits; blast)

lemma worker_step_task:
  assumes w: "worker_step i p = Some (p', ev)" and t: "t \<in> set (m_Tasks p)"
  shows "t \<in> set (m_Tasks p') \<or> i < length (m_Threads p') \<and> fst (m_Threads p' ! i) = Running t"
proof (cases "fst (m_Threads p ! i) = Waiting \<and> m_Tasks p \<noteq> []")
  case True
  then obtain u q where "m_Tasks p = u # q" by (cases "m_Tasks p") auto
  then show ?thesis using w t True
    by (cases "m_Threads p ! i") (auto simp: worker_step_def set_worker_def split: if_splits)
next
  case False
  then have "m_Tasks p' = m_Tasks p" using w
    by (cases "m_Threads p ! i"; cases "m_Tasks p") (auto simp: worker_step_def set_worker_def split: if_splits worker.splits)
  then show ?thesis using t by simp
qed

text \<open>No client of the server is handled by this worker.\<close>

definition quiet :: "port \<Rightarrow> nat \<Rightarrow> ('g, 'd) ServerLayer \<Rightarrow> bool" where
  "quiet port i L \<longleftrightarrow> (\<forall>cid. serves port i cid L \<longrightarrow>
     cid \<notin> fst ` set (m_Connections (the (server_of port L))))"

lemma attended_step:
  assumes a: "attended s" and p: "worker_step i (m_Pool s) = Some (p, ev)"
    and n: "\<And>cid. i < length (m_Threads (m_Pool s)) \<Longrightarrow> fst (m_Threads (m_Pool s) ! i) = Running (HandleConnectionThread cid) \<Longrightarrow>
      cid \<notin> fst ` set (m_Connections s)"
  shows "attended (s\<lparr>m_Pool := p\<rparr>)"
proof -
  obtain wk where wk: "m_Threads p = (m_Threads (m_Pool s))[i := wk]" using worker_step_threads [OF p] by blast
  have "HandleConnectionThread cid \<in> set (m_Tasks p) \<or>
      (\<exists>j < length (m_Threads p). fst (m_Threads p ! j) = Running (HandleConnectionThread cid))"
    if c: "cid \<in> fst ` set (m_Connections s)" for cid
  proof (cases "HandleConnectionThread cid \<in> set (m_Tasks (m_Pool s))")
    case True
    then show ?thesis using worker_step_task [OF p True] by blast
  next
    case False
    then obtain j where j: "j < length (m_Threads (m_Pool s))"
      "fst (m_Threads (m_Pool s) ! j) = Running (HandleConnectionThread cid)"
      using a c unfolding attended_def by blast
    then have "j \<noteq> i" using n c by blast
    then show ?thesis using j by (auto simp: wk)
  qed
  then show ?thesis by (simp add: attended_def)
qed

lemma pool_sound:
  assumes so: "sound P B pc hs L h" and idle: "hs (port, i) = None" and q: "quiet port i L"
    and t: "pool_turn port i L = Some L1"
  shows "sound P B pc hs L1 h"
proof -
  obtain s p ev where s: "server_of port L = Some s" and p: "worker_step i (m_Pool s) = Some (p, ev)"
    and L1: "L1 = with_server port (s\<lparr>m_Pool := p\<rparr>) L"
    using t by (auto simp: pool_turn_def split: option.splits)
  obtain wk where wk: "m_Threads p = (m_Threads (m_Pool s))[i := wk]" using worker_step_threads [OF p] by blast
  have "busy port hs (s\<lparr>m_Pool := p\<rparr>)"
    using sound_busy [OF so s] idle unfolding busy_def by (auto simp: wk) (metis nth_list_update_neq option.distinct(1))
  moreover have "attended (s\<lparr>m_Pool := p\<rparr>)" if "attended s"
    by (rule attended_step [OF that p]) (use q s in \<open>simp add: quiet_def serves_def\<close>)
  ultimately show ?thesis unfolding L1
    by (intro sound_with_server [OF so s]) (simp_all add: hooked_def wk)
qed

lemma task_over_sound:
  assumes "sound P B pc hs L h" and "hs (port, i) = None" and "quiet port i L"
  shows "sound P B pc hs (task_over port i L) h"
  using pool_sound [OF assms] assms(1) by (simp add: task_over_def split: option.splits)

lemma loop_turn_sound:
  assumes e: "emulator_inv P B e" and idle: "em_handlers e (port, i) = None" and q: "quiet port i (em_layer e)"
    and r: "\<exists>go L h ev. r = Inr (go, L, h, ev) \<and> sound P B (em_scan e) (em_handlers e) L h \<and> (\<not> go \<longrightarrow> L = em_layer e)"
  shows "safe_turn P B (Some (loop_turn port i e r))"
proof -
  obtain go L h ev where r: "r = Inr (go, L, h, ev)" and so: "sound P B (em_scan e) (em_handlers e) L h"
    and L: "\<not> go \<Longrightarrow> L = em_layer e" using r by blast
  have "sound P B (em_scan e) (em_handlers e) (if go then L else task_over port i L) h"
    using so task_over_sound [OF so idle] q L by (cases go) simp_all
  then show ?thesis by (simp add: loop_turn_def r emulator_inv_def)
qed

lemma start_sound:
  assumes so: "sound P B pc hs L h" and st: "hs (port, i) = None" and serves: "serves port i cid L"
  shows "\<exists>b h1. handler_turn P R w port cid None L h = Inr (Some (At_Check b), L, h1, []) \<and>
           sound P B pc (hs((port, i) \<mapsto> At_Check b)) L h1"
proof -
  obtain s where s: "server_of port L = Some s" using so by (cases port) (auto simp: sound_def)
  note v = sound_server [OF so s]
  obtain b h1 where h1: "Allocate 1024 empty_buffer h = Inr (b, h1)"
    "memory_ok B (hs((port, i) \<mapsto> At_Check b)) h1 (m_DataQueue (the (m_Server L)))"
    using memory_allocated [OF v(5) st] by blast
  have "busy p (hs((port, i) \<mapsto> At_Check b)) s'" if "server_of p L = Some s'" for p s'
    using sound_busy [OF so that] serves that by (auto simp: busy_def serves_def)
  then have "sound P B pc (hs((port, i) \<mapsto> At_Check b)) L h1" by (rule sound_memory [OF so h1(2)])
  then show ?thesis using s h1(1) v(2) by (simp add: handler_turn_def HandleConnectionThread_start_def)
qed

lemma relabel_sound:
  assumes so: "sound P B pc hs L h" and st: "hs (port, i) = Some st" "handler_buffer st' = handler_buffer st"
  shows "sound P B pc (hs((port, i) \<mapsto> st')) L h"
proof -
  obtain s where s: "server_of port L = Some s" using so by (cases port) (auto simp: sound_def)
  have b: "busy p (hs((port, i) \<mapsto> st')) s'" if "server_of p L = Some s'" for p s'
    using sound_busy [OF so that] st unfolding busy_def by (metis fun_upd_apply option.distinct(1))
  have "memory_ok B (hs((port, i) \<mapsto> st')) h (m_DataQueue (the (m_Server L)))"
    by (rule memory_relabelled [OF sound_server(5) [OF so s] st])
  then show ?thesis by (rule sound_memory [OF so _ b])
qed

lemma handler_turn_sound:
  assumes P: "enums_ok P" "sizes_ok P" and so: "sound P B pc hs L h" and serves: "serves port i cid L"
    and r: "data_in_range port i (recv_reply w) L"
  shows "\<exists>st L1 h1 ev. handler_turn P R w port cid (hs (port, i)) L h = Inr (st, L1, h1, ev) \<and>
           sound P B pc (hs((port, i) := st)) L1 h1 \<and> (st = None \<longrightarrow> quiet port i L1)"
proof (cases "hs (port, i)")
  case None
  then show ?thesis using start_sound [OF so None serves, of R w] by auto
next
  case (Some st)
  show ?thesis
  proof (cases st)
    case (At_Check buf)
    note st = Some [unfolded At_Check]
    obtain go h1 where t: "check_turn port cid buf L h = Inr (go, h1)" "sound P B pc hs L h1"
      using check_sound [OF so st, of cid] by blast
    have "sound P B pc (hs((port, i) \<mapsto> (if go then In_Recv buf else Leaving buf))) L h1"
      by (rule relabel_sound [OF t(2) st]) simp
    then show ?thesis using t(1) st by (simp add: handler_turn_def)
  next
    case (In_Recv buf)
    note st = Some [unfolded In_Recv]
    have "\<And>bs. recv_reply w = Received bs \<Longrightarrow> bs \<noteq> [] \<and> length bs \<le> 1024 \<and>
      (port = Command_Port \<longrightarrow> line_in_range cid (string_of bs) L)"
      using r serves by (auto simp: data_in_range_def)
    then obtain go L1 h1 ev where t: "receive_turn P R w port cid buf L h = Inr (go, L1, h1, ev)" "sound P B pc hs L1 h1"
      using receive_sound [OF P so st, of w cid R] by blast
    have "sound P B pc (hs((port, i) \<mapsto> (if go then At_Check buf else Leaving buf))) L1 h1"
      by (rule relabel_sound [OF t(2) st]) simp
    then show ?thesis using t(1) st by (simp add: handler_turn_def)
  next
    case (Leaving buf)
    note st = Some [unfolded Leaving]
    obtain L1 h1 ev where l: "leave_turn port cid buf L h = Inr (L1, h1, ev)" "sound P B pc (hs((port, i) := None)) L1 h1"
      "gone port cid L L1"
      using leave_sound [OF so st, of cid] by blast
    have "quiet port i L1" using l(3) serves by (auto simp: quiet_def gone_def serves_def split: option.splits)
    then show ?thesis using st l(1,2) by (simp add: handler_turn_def)
  qed
qed

lemma accept_turn_sound:
  assumes so: "sound P B pc hs L h" and fd: "accept_fd (accept_reply w) \<noteq> 0"
  shows "\<exists>go L1 h1 ev. accept_turn w port L h = Inr (go, L1, h1, ev) \<and> sound P B pc hs L1 h1 \<and> (\<not> go \<longrightarrow> L1 = L)"
proof -
  obtain s where s: "server_of port L = Some s" using so by (cases port) (auto simp: sound_def)
  have ok: "valid_op (Peer (wait_for_connection (ntop w) (accept_reply w)))"
  proof (cases "wait_for_connection (ntop w) (accept_reply w)")
    case (Accepted k ip pt)
    then show ?thesis using fd wait_for_connection_Accepted [of "ntop w" "accept_reply w" k ip pt] by simp
  qed simp
  obtain L1 h1 ev where a: "on_accept port (wait_for_connection (ntop w) (accept_reply w)) L h = Inr (L1, h1, ev)"
    "sound P B pc hs L1 h1" using accept_sound [OF so ok] by blast
  show ?thesis
  proof (cases "m_ServerIsRunning s")
    case True
    then have "accept_turn w port L h = Inr (True, L1, h1, ev)" using s a(1) by (simp add: accept_turn_def)
    then show ?thesis using a(2) by blast
  next
    case False
    then have "accept_turn w port L h = Inr (False, L, h, [])" using s by (simp add: accept_turn_def)
    then show ?thesis using so by blast
  qed
qed

lemma worker_turn_safe:
  assumes P: "enums_ok P" "sizes_ok P" and e: "emulator_inv P B e" and ok: "allowed (Worker port i w) (em_layer e)"
  shows "safe_turn P B (worker_turn P R w port i e)"
proof -
  let ?L = "em_layer e" and ?h = "em_heap e" and ?hs = "em_handlers e"
  have so: "sound P B (em_scan e) ?hs ?L ?h" using e by (simp add: emulator_inv_def)
  obtain s where s: "server_of port ?L = Some s" using so by (cases port) (auto simp: sound_def)
  have fd: "accept_fd (accept_reply w) \<noteq> 0" and r: "data_in_range port i (recv_reply w) ?L" using ok by simp_all
  show ?thesis
  proof (cases "length (m_Threads (m_Pool s)) \<le> i")
    case True
    then show ?thesis using s by (simp add: worker_turn_def)
  next
    case False
    define wk where "wk = fst (m_Threads (m_Pool s) ! i)"
    have idle: "?hs (port, i) = None" if "\<And>cid. wk \<noteq> Running (HandleConnectionThread cid)"
      using sound_busy [OF so s] that unfolding busy_def wk_def by blast
    show ?thesis
    proof (cases "\<exists>task. wk = Running task")
      case False
      then have "worker_turn P R w port i e = map_option (\<lambda>L. Inr (e\<lparr>em_layer := L\<rparr>, [])) (pool_turn port i ?L)"
        using s \<open>\<not> length (m_Threads (m_Pool s)) \<le> i\<close>
        by (auto simp: worker_turn_def simp flip: wk_def split: worker.splits)
      moreover have "?hs (port, i) = None" using False by (intro idle) auto
      moreover have "quiet port i ?L" using False s by (auto simp: quiet_def serves_def wk_def)
      ultimately show ?thesis
        using pool_sound [OF so, of port i] by (cases "pool_turn port i ?L") (auto simp: emulator_inv_def)
    next
      case True
      then obtain task where task: "wk = Running task" by blast
      then have t: "worker_turn P R w port i e = Some (task_turn P R w port i task e)"
        using s False by (simp add: worker_turn_def wk_def)
      show ?thesis
      proof (cases task)
        case AcceptConnectionThread
        then have n: "?hs (port, i) = None" and q: "quiet port i ?L"
          using task s by (auto simp: quiet_def serves_def wk_def intro!: idle)
        show ?thesis unfolding t task_turn_def AcceptConnectionThread
          using loop_turn_sound [OF e n q accept_turn_sound [OF so fd]] by simp
      next
        case DataStreamThread
        then have n: "?hs (port, i) = None" and q: "quiet port i ?L"
          using task s by (auto simp: quiet_def serves_def wk_def intro!: idle)
        show ?thesis unfolding t task_turn_def DataStreamThread
          using loop_turn_sound [OF e n q stream_sound [OF so]] by simp
      next
        case (HandleConnectionThread cid)
        have sv: "serves port i cid ?L" using s False task HandleConnectionThread by (simp add: serves_def wk_def)
        obtain st L1 h1 ev where h: "handler_turn P R w port cid (?hs (port, i)) ?L ?h = Inr (st, L1, h1, ev)"
          "sound P B (em_scan e) (?hs((port, i) := st)) L1 h1" "st = None \<longrightarrow> quiet port i L1"
          using handler_turn_sound [OF P so sv r, of R] by blast
        have "sound P B (em_scan e) (?hs((port, i) := st)) (if st = None then task_over port i L1 else L1) h1"
          using h(2,3) task_over_sound [OF h(2), of port i] by simp
        then show ?thesis unfolding t task_turn_def HandleConnectionThread by (simp add: h(1) emulator_inv_def)
      qed
    qed
  qed
qed

lemma scan_turn_safe:
  assumes P: "enums_ok P" "adc_ok P" "sizes_ok P" and e: "emulator_inv P B e"
  shows "safe_turn P B (scan_turn P R e)"
proof -
  have so: "sound P B (em_scan e) (em_handlers e) (em_layer e) (em_heap e)" using e by (simp add: emulator_inv_def)
  obtain m where m: "m_Device (em_layer e) = Some m" "scan_inv P (em_scan e, m)" using so by (auto simp: sound_def)
  obtain pc m1 es where st: "scan_thread_step P R (em_scan e) m = Inr (pc, m1, es)" "scan_inv P (pc, m1)"
    using scan_thread_step_inv [OF P m(2), of R] by blast
  have w: "list_all whole_words es" by (rule scan_thread_words [OF P(3) st(1)])
  obtain L1 h1 ev where "device_events P es ((em_layer e)\<lparr>m_Device := Some m1\<rparr>) (em_heap e) = Inr (L1, h1, ev)"
    "sound P B pc (em_handlers e) L1 h1"
    using events_sound [OF sound_device [OF so st(2)] w] by blast
  then show ?thesis using m(1) st(1) by (simp add: scan_turn_def emulator_inv_def)
qed

lemma SendStringToAll_eq: "SendStringToAll str s h = SendString 0 str s h"
  by (simp add: SendStringToAll_def SendString_def SendBuffer_def)

lemma console_turn_safe:
  assumes P: "enums_ok P" "sizes_ok P" and e: "emulator_inv P B e" and ok: "allowed (Console_Thread w line) (em_layer e)"
  shows "safe_turn P B (console_turn P R w line e)"
proof -
  let ?L = "em_layer e" and ?h = "em_heap e"
  have so: "sound P B (em_scan e) (em_handlers e) ?L ?h" using e by (simp add: emulator_inv_def)
  obtain s where s: "m_Server ?L = Some s" and i: "command_inv (blocks ?h) (?L, ?h)"
    using so by (auto simp: sound_def)
  note c = command_invE [OF i s]
  obtain c rest where line: "line = c # rest" using ok by (cases line) auto
  have "\<exists>e' L' h' ev. OnConsoleInput P R (system_now w) (steady_now w) line (errno_set w) ?L ?h = Inr (e', L', h', ev) \<and>
      sound P B (em_scan e) (em_handlers e) L' h'"
  proof (cases "c = CHR ''/'' \<and> 1 < length line")
    case True
    then have "line_in_range 0 rest ?L" using ok line by simp
    from OnCommand_sound [OF P so this] show ?thesis using True line by (simp add: OnConsoleInput_def)
  next
    case False
    obtain h1 where h1: "SendStringToAll (line @ prompt) s ?h =
        Inr (h1, map (\<lambda>k. Sent k (bytes_of (line @ prompt))) (recipients 0 s))" "blocks h1 = blocks ?h" "heap_ok h1"
      using SendString_eq [OF c(1,5), of 0 "line @ prompt"] by (auto simp: SendStringToAll_eq)
    have "\<exists>ev. OnConsoleInput P R (system_now w) (steady_now w) line (errno_set w) ?L ?h =
        Inr (errno_set w, ?L, h1, ev)"
      unfolding OnConsoleInput_def line list.case if_not_P [OF False [unfolded line]] s option.case
        h1(1) [unfolded line] bind_ub.simps prod.case by blast
    then show ?thesis using sound_heap [OF so h1(2,3)] by blast
  qed
  then show ?thesis by (auto simp: console_turn_def emulator_inv_def)
qed

lemma Start_server_threads:
  "Start_server env w s = (s1, w1, ev) \<Longrightarrow> m_Threads (m_Pool s1) = m_Threads (m_Pool s)"
  by (auto simp: Start_server_def start_stream_def enqueue_task_def Enqueue_def Let_def split: prod.splits if_splits)

lemma Start_server_tasks:
  "Start_server env w s = (s1, w1, ev) \<Longrightarrow> set (m_Tasks (m_Pool s)) \<subseteq> set (m_Tasks (m_Pool s1))"
  by (auto simp: Start_server_def start_stream_def enqueue_task_def Enqueue_def queue_push_def Let_def
      split: prod.splits if_splits)

lemma Start_server_covers:
  assumes "Start_server env w s = (s1, w1, ev)"
  shows "covers s s1"
  using Start_server_fields [OF assms] Start_server_threads [OF assms] Start_server_tasks [OF assms]
  by (simp add: covers_def view_def)

lemma started_sound:
  assumes so: "sound P B pc hs L h" and s: "server_of port L = Some s"
    and s1: "(if IsRunning s then (s, w, []) else Start_server env w s) = (s1, w1, ev)"
  shows "sound P B pc hs (with_server port s1 L) h"
proof -
  have t: "m_Connections s1 = m_Connections s" "m_ClientConnectCallback s1 = m_ClientConnectCallback s"
    "m_ClientDisconnectCallback s1 = m_ClientDisconnectCallback s" "covers s s1"
    using s1 Start_server_fields [of env w s s1 w1 ev] Start_server_covers [of env w s s1 w1 ev]
    by (auto split: if_splits)
  show ?thesis
    by (rule sound_with_server [OF so s _ t(1-3)]) (use sound_busy [OF so s] covers_fields [OF t(4)] in simp_all)
qed

lemma update_turn_safe:
  assumes e: "emulator_inv P B e"
  shows "safe_turn P B (update_turn env1 env2 e)"
proof -
  let ?L = "em_layer e"
  have so: "sound P B (em_scan e) (em_handlers e) ?L (em_heap e)" using e by (simp add: emulator_inv_def)
  obtain s t where s: "m_Server ?L = Some s" and t: "m_TCPBinaryServer ?L = Some t" using so by (auto simp: sound_def)
  obtain s1 w1 ev1 where s1: "(if IsRunning s then (s, em_wsa e, []) else Start_server env1 (em_wsa e) s) = (s1, w1, ev1)"
    by (metis prod_cases3)
  obtain t1 w2 ev2 where t1: "(if IsRunning t then (t, w1, []) else Start_server env2 w1 t) = (t1, w2, ev2)"
    by (metis prod_cases3)
  have so1: "sound P B (em_scan e) (em_handlers e) (?L\<lparr>m_Server := Some s1\<rparr>) (em_heap e)"
    using started_sound [OF so _ s1, of Command_Port] s by simp
  have so2: "sound P B (em_scan e) (em_handlers e) (?L\<lparr>m_Server := Some s1, m_TCPBinaryServer := Some t1\<rparr>) (em_heap e)"
    using started_sound [OF so1 _ t1, of Binary_Port] t by simp
  have "OnUpdate env1 env2 (em_wsa e) ?L =
      Inr (?L\<lparr>m_Server := Some s1, m_TCPBinaryServer := Some t1\<rparr>, w2, map On_Command ev1 @ map On_Binary ev2)"
    unfolding OnUpdate_def s t deref.simps bind_ub.simps s1 Let_def prod.case t1 ..
  then show ?thesis using so2 by (simp add: update_turn_def emulator_inv_def)
qed

lemma emulator_turn_safe:
  assumes P: "header_ok P" and e: "emulator_inv P B e" and ok: "allowed th (em_layer e)"
  shows "safe_turn P B (emulator_turn P R th e)"
  using P scan_turn_safe [OF _ _ _ e] worker_turn_safe [OF _ _ e] console_turn_safe [OF _ _ e] update_turn_safe [OF e] ok
  by (cases th) (simp_all add: header_ok_def)

subsection \<open>From the start\<close>

lemma OnAttach_servers:
  assumes a: "OnAttach P R env1 env2 w (ServerLayer dev ip port con) = (L, w1, ev)"
  shows "\<exists>s t. m_Server L = Some s \<and> m_TCPBinaryServer L = Some t \<and>
     info_buffer_size (m_ServerInfo s) = 1024 \<and> info_buffer_size (m_ServerInfo t) = 1024 \<and>
     length (m_Threads (m_Pool s)) = 5 \<and> length (m_Threads (m_Pool t)) = 2 \<and> m_DataQueue s = [] \<and> m_DataQueue t = []"
proof -
  let ?L = "ServerLayer dev ip port con :: ('a, 'b) ServerLayer"
  let ?s = "with_callbacks (Server (command_info ?L))" and ?t = "with_callbacks (Server (binary_info ?L))"
  obtain s w2 ev1 where s: "Start_server env1 w ?s = (s, w2, ev1)" by (metis prod_cases3)
  obtain t w3 ev2 where t: "Start_server env2 w2 ?t = (t, w3, ev2)" by (metis prod_cases3)
  have "m_Server L = Some s" "m_TCPBinaryServer L = Some t"
    using a by (auto simp: OnAttach_def s t Let_def)
  moreover have "m_ServerInfo ?s = command_info ?L" "m_ServerInfo ?t = binary_info ?L" "m_DataQueue ?s = []" "m_DataQueue ?t = []"
    "m_Threads (m_Pool ?s) = replicate 5 (At_Loop, False)" "m_Threads (m_Pool ?t) = replicate 2 (At_Loop, False)"
    by (simp_all add: Server_def ThreadPool_def command_info_def binary_info_def)
  moreover have "info_buffer_size (command_info ?L) = 1024" "info_buffer_size (binary_info ?L) = 1024"
    by (simp_all add: command_info_def binary_info_def)
  ultimately show ?thesis
    using Start_server_fields [OF s] Start_server_fields [OF t] Start_server_threads [OF s] Start_server_threads [OF t]
    by simp
qed

lemma init_inv:
  assumes P: "header_ok P" and h: "heap_ok h" and i: "emulator_init P R h e"
  shows "emulator_inv P (blocks h) e"
proof -
  obtain dev ip port con env1 env2 w L w1 ev where dev: "supported P (uint dev)"
    and a: "OnAttach P R env1 env2 w (ServerLayer dev ip port con) = (L, w1, ev)"
    and e: "e = \<lparr>em_layer = L, em_heap = h, em_wsa = w1, em_scan = Loop_Top, em_handlers = Map.empty\<rparr>"
    using i by (auto simp: emulator_init_def)
  obtain s t where L: "m_Server L = Some s" "m_TCPBinaryServer L = Some t"
    "m_Device L = Some (Start (Mps P R (attach_config P (inet_pton env1)
         (ServerLayer dev ip port con :: ('a, 'b) ServerLayer)) True True True))"
    "m_Connections s = []" "m_ClientConnectCallback s" "m_ClientDisconnectCallback s" "m_DataReceivedCallback s"
    "m_Connections t = []" "m_ClientConnectCallback t" "m_ClientDisconnectCallback t" "m_DataReceivedCallback t"
    "\<not> m_TCPCommandClientConnected L" "\<not> m_TCPBinaryCleintConnected L"
    "m_ActiveTCPCommandClientId L = 0" "m_ActiveTCPBinaryClientId L = 0" "m_Cmds L = []"
    using OnAttach_parts [OF a] by blast
  have sv: "info_buffer_size (m_ServerInfo s) = 1024" "info_buffer_size (m_ServerInfo t) = 1024"
    "length (m_Threads (m_Pool s)) = 5" "length (m_Threads (m_Pool t)) = 2" "m_DataQueue s = []" "m_DataQueue t = []"
    using OnAttach_servers [OF a] L(1,2) by auto
  let ?cfg = "attach_config P (inet_pton env1) (ServerLayer dev ip port con :: ('a, 'b) ServerLayer)"
  have "cfg_ok P ?cfg" using dev by (auto simp: cfg_ok_def attach_config_def ServerLayer_def simp: slowest_rate_def)
  then have "scan_init P R (Loop_Top, the (m_Device L))" using L(3) by (auto simp: scan_init_def)
  then have "scan_inv P (Loop_Top, the (m_Device L))" using P scan_init_inv by (auto simp: header_ok_def)
  moreover have "memory_ok (blocks h) (Map.empty :: handlers) h []"
    using h by (simp add: memory_ok_def in_use_def buffers_ok_def handler_blocks_def queue_holds_def)
  moreover have "command_inv (blocks h) (L, h)"
    using L h by (simp add: command_inv_def command_slot_def map_ok_def)
  moreover have "binary_inv L" using L by (simp add: binary_inv_def binary_slot_def)
  ultimately show ?thesis
    using L sv by (simp add: emulator_inv_def sound_def e hooked_def busy_def attended_def)
qed

interpretation emulator: invariant_system
  "\<lambda>e. header_ok P \<and> heap_ok h \<and> emulator_init P R h e" "emulator_step P R"
  "\<lambda>e. header_ok P \<and> emulator_inv P (blocks h) e" for P R h
proof
  show "header_ok P \<and> emulator_inv P (blocks h) e" if "header_ok P \<and> heap_ok h \<and> emulator_init P R h e" for e
    using that init_inv by blast
  fix e e'
  assume inv: "header_ok P \<and> emulator_inv P (blocks h) e" and step: "emulator_step P R e e'"
  from step obtain th ev where "allowed th (em_layer e)" "emulator_turn P R th e = Some (Inr (e', ev))"
    by (rule emulator_stepE)
  then show "header_ok P \<and> emulator_inv P (blocks h) e'"
    using emulator_turn_safe [of P "blocks h" e th R] inv by simp
qed

text \<open>The slots are what the servers' connections say.\<close>

lemma slot_keys: "slot_conns c m \<Longrightarrow> map_keys m = (case c of None \<Rightarrow> [] | Some k \<Rightarrow> [k])"
  by (cases c) (auto simp: map_keys_def)

lemma handler_blocks_card:
  assumes "sound P B pc hs L h"
  shows "finite (handler_blocks hs)" and "card (handler_blocks hs) \<le> 7"
proof -
  let ?K = "Pair Command_Port ` {..<5 :: nat} \<union> Pair Binary_Port ` {..<2 :: nat}"
  let ?f = "\<lambda>k. buf_data (handler_buffer (the (hs k)))"
  have at: "(port, i) \<in> ?K" if i: "hs (port, i) \<noteq> None" for port i
  proof -
    obtain s where s: "server_of port L = Some s" using assms by (cases port) (auto simp: sound_def)
    then have "i < length (m_Threads (m_Pool s))" using sound_busy [OF assms s] i by (simp add: busy_def)
    then show ?thesis using sound_server(3) [OF assms s] by (cases port) auto
  qed
  have sub: "handler_blocks hs \<subseteq> ?f ` ?K"
  proof
    fix a
    assume "a \<in> handler_blocks hs"
    then obtain k st where k: "hs k = Some st" "a = buf_data (handler_buffer st)" by (auto simp: handler_blocks_iff)
    then have "k \<in> ?K" using at [of "fst k" "snd k"] by simp
    moreover have "a = ?f k" using k by simp
    ultimately show "a \<in> ?f ` ?K" by (rule rev_image_eqI)
  qed
  have "finite (?f ` ?K)" by simp
  then show "finite (handler_blocks hs)" by (rule finite_subset [OF sub])
  have "card (handler_blocks hs) \<le> card (?f ` ?K)" by (rule card_mono [OF _ sub]) simp
  also have "\<dots> \<le> card ?K" by (rule card_image_le) simp
  also have "\<dots> \<le> card (Pair Command_Port ` {..<5 :: nat}) + card (Pair Binary_Port ` {..<2 :: nat})" by (rule card_Un_le)
  also have "\<dots> = 7" by (simp add: card_image inj_on_def)
  finally show "card (handler_blocks hs) \<le> 7" .
qed

lemma length_owned: "length (owned q) \<le> length q"
  unfolding owned_def using length_filter_le [of _ "map (buf_data \<circ> packet_data) q"] by simp

lemma storage_bound:
  assumes so: "sound P B pc hs L h" and q: "q = m_DataQueue (the (m_Server L))"
  shows "card (dom (blocks h) - dom B) \<le> 7 + length q"
proof -
  have m: "memory_ok B hs h q" using so q by (auto simp: sound_def)
  have "dom (blocks h) - dom B \<subseteq> handler_blocks hs \<union> set (owned q)" using memory_dom(1) [OF m] by (auto simp: in_use_def)
  then have "card (dom (blocks h) - dom B) \<le> card (handler_blocks hs \<union> set (owned q))"
    by (rule card_mono [rotated]) (simp add: handler_blocks_card(1) [OF so])
  also have "\<dots> \<le> card (handler_blocks hs) + card (set (owned q))" by (rule card_Un_le)
  also have "\<dots> \<le> 7 + length q"
    using handler_blocks_card(2) [OF so] card_length [of "owned q"] length_owned [of q] by linarith
  finally show ?thesis .
qed

lemma reach_emulator_inv:
  assumes P: "enums_ok P" "adc_ok P" "sizes_ok P" and h: "heap_ok h"
    and r: "reach (emulator_init P R h) (emulator_step P R) e"
  shows "emulator_inv P (blocks h) e"
proof -
  have "header_ok P" using P by (simp add: header_ok_def)
  then have "(\<lambda>e. header_ok P \<and> heap_ok h \<and> emulator_init P R h e) = emulator_init P R h"
    using h by (simp add: fun_eq_iff)
  then show ?thesis using emulator.reach_inv [of P h R e] r by simp
qed

text \<open>
  Detaching in a state of the running emulator. The buffers of datagrams that are still queued
  stay allocated then, with nobody to release them.
\<close>

lemma slot_conns_Nil: "slot_conns c m \<Longrightarrow> m = [] \<longleftrightarrow> c = None"
  by (cases c) auto

lemma sound_detach:
  assumes so: "sound P B pc hs L h"
  shows "is_defined (OnDetach P w L h) = (command_slot (L, h) = None \<and> binary_slot L = None)"
    and "command_slot (L, h) = None \<Longrightarrow> binary_slot L = None \<Longrightarrow>
      \<exists>L' w' h' ev. OnDetach P w L h = Inr (L', w', h', ev) \<and> m_Server L' = None \<and>
        set (owned (m_DataQueue (the (m_Server L)))) \<subseteq> dom (blocks h')"
proof -
  obtain s t where L: "m_Server L = Some s" "m_TCPBinaryServer L = Some t"
    and i: "command_inv (blocks h) (L, h)" "binary_inv L" and m: "memory_ok B hs h (m_DataQueue s)"
    using so by (rule soundE)
  note c = command_invE [OF i(1) L(1)]
  have "slot_conns (command_slot (L, h)) (m_Connections s)" "slot_conns (binary_slot L) (m_Connections t)"
    using i L by (auto simp: command_inv_def binary_inv_def)
  note e = slot_conns_Nil [OF this(1)] slot_conns_Nil [OF this(2)]
  show "is_defined (OnDetach P w L h) = (command_slot (L, h) = None \<and> binary_slot L = None)"
  proof (cases "m_Connections s = [] \<and> m_Connections t = []")
    case True
    then obtain r where "OnDetach P w L h = Inr r"
      using detach_without_clients [OF c(1) L(1) c(5) L(2), of P w] by blast
    then show ?thesis using True e by simp
  next
    case False
    then have "OnDetach P w L h = Inl Invalid_Iterator" by (intro detach_with_clients [OF c(1) L(1) c(5) L(2)]) blast
    then show ?thesis using False e by auto
  qed
  assume "command_slot (L, h) = None" "binary_slot L = None"
  then obtain w' h' ev ev2 ev3 where "OnDetach P w L h = Inr (L\<lparr>m_Device := None, m_Server := None, m_TCPBinaryServer := None\<rparr>,
      w', h', ev @ map On_Command ev2 @ map On_Binary ev3)" "blocks h' = blocks h"
    using detach_without_clients [OF c(1) L(1) c(5) L(2), of P w] e by blast
  moreover have "set (owned (m_DataQueue s)) \<subseteq> dom (blocks h)"
    using memory_dom(1) [OF m] by (auto simp: in_use_def)
  ultimately show "\<exists>L' w' h' ev. OnDetach P w L h = Inr (L', w', h', ev) \<and> m_Server L' = None \<and>
      set (owned (m_DataQueue (the (m_Server L)))) \<subseteq> dom (blocks h')"
    using L(1) by auto
qed

text \<open>
  Property C1: the running emulator. From its start on, for a supported device and in any order
  of the turns of its threads - the scan thread, the workers of both servers in their tasks,
  the console's and the main thread - with whatever the operating system, the clocks, the
  clients and the console make of them, every turn of every thread is defined, as long as who
  commands the scanner keeps the numbers in range. In every state between turns each server has
  at most one client, the one that the layer records; the status of the scanner is SCAN only
  while it scans and READY when it neither scans nor calibrates; each receive buffer belongs to
  a worker that runs a connection's handler; and the storage in use is what was in use at the
  start, as it was, the receive buffers and the queued datagrams: at most seven blocks more
  than there are datagrams waiting. To detach the layer then, as the destructor of the
  application does, is defined exactly if no server has a client.
\<close>

theorem emulator_is_safe:
  assumes "enums_ok P" and "adc_ok P" and "sizes_ok P" and "heap_ok h"
    and "reach (emulator_init P R h) (emulator_step P R) e"
  defines "L \<equiv> em_layer e" and "hs \<equiv> em_handlers e"
  shows "(\<forall>th. allowed th L \<longrightarrow> (case emulator_turn P R th e of None \<Rightarrow> True | Some r \<Rightarrow> is_defined r)) \<and>
     (\<exists>m s t. m_Device L = Some m \<and> m_Server L = Some s \<and> m_TCPBinaryServer L = Some t \<and>
        map_keys (m_Connections s) = (case command_slot (L, em_heap e) of None \<Rightarrow> [] | Some k \<Rightarrow> [k]) \<and>
        map_keys (m_Connections t) = (case binary_slot L of None \<Rightarrow> [] | Some k \<Rightarrow> [k]) \<and>
        (m_Status m = MPS_STATUS_SCAN P \<longrightarrow> m_Scanning m) \<and>
        (\<not> m_Scanning m \<and> \<not> m_Calibrating m \<longrightarrow> m_Status m = MPS_STATUS_READY P) \<and>
        dom (blocks (em_heap e)) = dom (blocks h) \<union> handler_blocks hs \<union> set (owned (m_DataQueue s)) \<and>
        (\<forall>a \<in> dom (blocks h). blocks (em_heap e) a = blocks h a) \<and>
        card (dom (blocks (em_heap e)) - dom (blocks h)) \<le> 7 + length (m_DataQueue s)) \<and>
     (\<forall>port i. hs (port, i) \<noteq> None \<longrightarrow> (\<exists>cid. serves port i cid L)) \<and>
     is_defined (OnDetach P (em_wsa e) L (em_heap e)) = (command_slot (L, em_heap e) = None \<and> binary_slot L = None)"
proof -
  have inv: "emulator_inv P (blocks h) e" by (rule reach_emulator_inv [OF assms(1-5)])
  then have so: "sound P (blocks h) (em_scan e) hs L (em_heap e)" by (simp add: emulator_inv_def L_def hs_def)
  have "header_ok P" using assms(1-3) by (simp add: header_ok_def)
  then have "case emulator_turn P R th e of None \<Rightarrow> True | Some r \<Rightarrow> is_defined r" if "allowed th L" for th
    using emulator_turn_safe [OF _ inv, of th R] that
    by (auto simp: L_def safe_turn_def is_defined_def split: option.splits sum.splits)
  moreover have "\<exists>cid. serves port i cid L" if i: "hs (port, i) \<noteq> None" for port i
  proof -
    obtain s where s: "server_of port L = Some s" using so by (cases port) (auto simp: sound_def)
    then show ?thesis using sound_busy [OF so s] i by (simp add: busy_def serves_def)
  qed
  moreover obtain m s t where "m_Device L = Some m" "m_Server L = Some s" "m_TCPBinaryServer L = Some t"
    "scan_inv P (em_scan e, m)" "command_inv (blocks (em_heap e)) (L, em_heap e)" "binary_inv L"
    "memory_ok (blocks h) hs (em_heap e) (m_DataQueue s)"
    using so by (rule soundE)
  note parts = this
  have "slot_conns (command_slot (L, em_heap e)) (m_Connections s)" "slot_conns (binary_slot L) (m_Connections t)"
    using parts(2,3,5,6) by (auto simp: command_inv_def binary_inv_def)
  then have "map_keys (m_Connections s) = (case command_slot (L, em_heap e) of None \<Rightarrow> [] | Some k \<Rightarrow> [k])"
    "map_keys (m_Connections t) = (case binary_slot L of None \<Rightarrow> [] | Some k \<Rightarrow> [k])"
    by (simp_all only: slot_keys)
  moreover have "\<forall>a \<in> dom (blocks h). blocks (em_heap e) a = blocks h a"
    using memory_dom(2) [OF parts(7)] memory_okD(6) [OF parts(7)] by blast
  moreover have "card (dom (blocks (em_heap e)) - dom (blocks h)) \<le> 7 + length (m_DataQueue s)"
    using storage_bound [OF so refl] parts(2) by simp
  moreover have "is_defined (OnDetach P (em_wsa e) L (em_heap e)) = (command_slot (L, em_heap e) = None \<and> binary_slot L = None)"
    using sound_detach [OF so] by simp
  ultimately show ?thesis
    using parts memory_dom(1) [OF parts(7)] by (auto simp: scan_inv_def in_use_def)
qed

theorem emulator_is_safe_witness:
  "\<exists>e. reach (emulator_init sample_protocol sample_random sample_heap) (emulator_step sample_protocol sample_random) e \<and>
     em_scan e = Next_Frame 0 1 \<and> emulator_turn sample_protocol sample_random Scan_Thread e \<noteq> None \<and>
     (case emulator_turn sample_protocol sample_random Scan_Thread e of None \<Rightarrow> True | Some r \<Rightarrow> is_defined r) \<and>
     blocks (em_heap e) 1 = blocks sample_heap 1"
proof -
  let ?P = "sample_protocol" and ?R = "sample_random :: (nat, bool) random_lib" and ?h = "sample_heap"
  obtain L w1 ev where a: "OnAttach ?P ?R sample_os sample_os no_wsa (ServerLayer 4264 ''10.0.0.12'' 23 False) = (L, w1, ev)"
    by (metis prod_cases3)
  obtain m where m: "m_Device L = Some m" "m_Running m" "\<not> m_Calibrating m" "m_ScanStartTime m = 0"
    using OnAttach_parts [OF a] by (auto simp: Start_def Mps_def)
  let ?e = "\<lparr>em_layer = L, em_heap = ?h, em_wsa = w1, em_scan = Loop_Top, em_handlers = Map.empty\<rparr>"
  let ?e1 = "?e\<lparr>em_scan := Next_Frame 0 1\<rparr>"
  have "supported ?P (uint (4264 :: u32))"
    by (simp add: supported_def device_types_def sample_protocol_def)
  then have "emulator_init ?P ?R ?h ?e" using a unfolding emulator_init_def by blast
  then have r0: "reach (emulator_init ?P ?R ?h) (emulator_step ?P ?R) ?e" by (rule reach_init)
  have same: "L\<lparr>m_Device := Some m\<rparr> = L" by (simp flip: m(1))
  have "scan_turn ?P ?R ?e = Some (Inr (?e1, []))"
    using m by (simp add: scan_turn_def scan_thread_step_def same)
  then have "emulator_step ?P ?R ?e ?e1" by (intro emulator_step.turn [of Scan_Thread _ _ _ _ "[]"]) simp_all
  then have r1: "reach (emulator_init ?P ?R ?h) (emulator_step ?P ?R) ?e1" by (rule reach_step [OF r0])
  note safe = emulator_is_safe [OF sample_enums_ok sample_adc_ok sample_sizes_ok sample_heap_ok(1) r1]
  have "1 \<in> dom (blocks ?h)" by (simp add: sample_heap_def)
  with safe have "blocks (em_heap ?e1) 1 = blocks ?h 1" by blast
  moreover have "case emulator_turn ?P ?R Scan_Thread ?e1 of None \<Rightarrow> True | Some r \<Rightarrow> is_defined r"
    using safe by (metis allowed.simps(3))
  moreover have "emulator_turn ?P ?R Scan_Thread ?e1 \<noteq> None" using m(1) by (simp add: scan_turn_def)
  ultimately show ?thesis using r1 by (intro exI [of _ ?e1]) simp
qed

text \<open>
  Property C4: no client is forgotten. In every state that the running emulator reaches, each
  client that one of its servers has is served: its handler is in the queue of the server's
  pool, or a worker runs it, and then that worker's turn, whatever \<open>recv\<close> and the clocks
  answer, is there and is defined.
\<close>

theorem clients_are_served:
  assumes "enums_ok P" and "adc_ok P" and "sizes_ok P" and "heap_ok h"
    and "reach (emulator_init P R h) (emulator_step P R) e"
    and "server_of port (em_layer e) = Some s" and "IsClientConnected cid s"
  shows "HandleConnectionThread cid \<in> set (m_Tasks (m_Pool s)) \<or>
     (\<exists>i. serves port i cid (em_layer e) \<and>
        (\<forall>w. allowed (Worker port i w) (em_layer e) \<longrightarrow>
           (\<exists>r. emulator_turn P R (Worker port i w) e = Some r \<and> is_defined r)))"
proof -
  have inv: "emulator_inv P (blocks h) e" by (rule reach_emulator_inv [OF assms(1-5)])
  then have so: "sound P (blocks h) (em_scan e) (em_handlers e) (em_layer e) (em_heap e)" by (simp add: emulator_inv_def)
  have P: "header_ok P" using assms(1-3) by (simp add: header_ok_def)
  have "attended s" using so assms(6) by (cases port) (auto simp: sound_def hooked_def)
  moreover have "cid \<in> fst ` set (m_Connections s)"
    using assms(7) map_of_eq_None_iff [of "m_Connections s" cid] by (auto simp: IsClientConnected_def)
  ultimately consider "HandleConnectionThread cid \<in> set (m_Tasks (m_Pool s))"
    | i where "serves port i cid (em_layer e)"
    using assms(6) by (auto simp: attended_def serves_def)
  then show ?thesis
  proof cases
    case (2 i)
    have "\<exists>r. emulator_turn P R (Worker port i w) e = Some r \<and> is_defined r"
      if "allowed (Worker port i w) (em_layer e)" for w
      using emulator_turn_safe [OF P inv that, of R] 2 assms(6)
      by (auto simp: worker_turn_def serves_def safe_turn_def is_defined_def split: sum.splits)
    then show ?thesis using 2 by blast
  qed simp
qed

text \<open>A client that connects to the command server just after the start.\<close>

definition sample_world :: world where
  "sample_world = \<lparr>accept_reply = \<lparr>listen_rc = 0, accept_fd = 9, peer_port = 80, peer_addr = 1\<rparr>,
     recv_reply = Recv_Closed, ntop = (\<lambda>_. ''10.0.0.9''), system_now = 0, steady_now = 0, errno_set = False\<rparr>"

abbreviation sample_reach :: "(nat, bool) emulator \<Rightarrow> bool" where
  "sample_reach \<equiv> reach (emulator_init sample_protocol sample_random sample_heap) (emulator_step sample_protocol sample_random)"

definition sample_granting :: net_env where
  "sample_granting = sample_net\<lparr>new_socket := (\<lambda>_. 100)\<rparr>"

lemma sample_started:
  "\<exists>e s. sample_reach e \<and> m_Server (em_layer e) = Some s \<and> m_ServerIsRunning s \<and>
     m_Tasks (m_Pool s) = [AcceptConnectionThread, DataStreamThread] \<and> m_Threads (m_Pool s) = replicate 5 (At_Loop, False) \<and>
     em_handlers e = Map.empty"
proof -
  let ?P = "sample_protocol" and ?R = "sample_random :: (nat, bool) random_lib"
  let ?L = "ServerLayer 4264 ''0.0.0.0'' 23 False :: (nat, bool) ServerLayer"
  let ?s = "with_callbacks (Server (command_info ?L))"
  obtain s w2 ev1 where s: "Start_server sample_granting no_wsa ?s = (s, w2, ev1)" by (metis prod_cases3)
  obtain L w1 ev where a: "OnAttach ?P ?R sample_granting sample_granting no_wsa ?L = (L, w1, ev)"
    by (metis prod_cases3)
  have run: "m_ServerIsRunning s" "m_Tasks (m_Pool s) = [AcceptConnectionThread, DataStreamThread]"
    using s by (auto simp: Start_server_def start_stream_def InitializeNetworking_def CreateSocket_def BindSocket_def sample_granting_def
        sample_net_def no_wsa_def command_info_def ServerLayer_def Server_def with_callbacks_def callback_defs ThreadPool_def
        enqueue_task_def Enqueue_def queue_push_def Let_def INVALID_SOCKET_def split: prod.splits if_splits)
  have thr: "m_Threads (m_Pool s) = replicate 5 (At_Loop, False)"
    using Start_server_threads [OF s] by (simp add: Server_def ThreadPool_def command_info_def)
  have srv: "m_Server L = Some s" using a by (auto simp: OnAttach_def s Let_def split: prod.splits)
  let ?e = "\<lparr>em_layer = L, em_heap = sample_heap, em_wsa = w1, em_scan = Loop_Top, em_handlers = Map.empty\<rparr>"
  have "supported ?P (uint (4264 :: u32))" by (simp add: supported_def device_types_def sample_protocol_def)
  then have "emulator_init ?P ?R sample_heap ?e" using a unfolding emulator_init_def by blast
  then have "sample_reach ?e" by (rule reach_init)
  then show ?thesis using run thr srv by (intro exI [of _ ?e] exI [of _ s]) simp
qed

text \<open>A turn of a worker that is in no task.\<close>

lemma sample_pool_step:
  assumes e: "sample_reach e" "m_Server (em_layer e) = Some s"
    and p: "worker_step i (m_Pool s) = Some (p, ev)" "\<And>task. fst (m_Threads (m_Pool s) ! i) \<noteq> Running task"
  shows "sample_reach (e\<lparr>em_layer := (em_layer e)\<lparr>m_Server := Some (s\<lparr>m_Pool := p\<rparr>)\<rparr>\<rparr>)" (is "sample_reach ?e1")
proof -
  have i: "\<not> length (m_Threads (m_Pool s)) \<le> i" using p(1) by (auto simp: worker_step_def)
  have "worker_turn sample_protocol sample_random sample_world Command_Port i e = Some (Inr (?e1, []))"
    using e(2) i p by (auto simp: worker_turn_def pool_turn_def split: worker.splits)
  moreover have "allowed (Worker Command_Port i sample_world) (em_layer e)"
    by (simp add: sample_world_def data_in_range_def)
  ultimately have "emulator_step sample_protocol sample_random e ?e1"
    by (intro emulator_step.turn [of "Worker Command_Port i sample_world" _ _ _ _ "[]"]) simp_all
  with e(1) show ?thesis by (rule reach_step)
qed

lemma sample_connected_reach:
  "\<exists>e s. sample_reach e \<and> server_of Command_Port (em_layer e) = Some s \<and> IsClientConnected 9 s"
proof -
  let ?P = "sample_protocol" and ?R = "sample_random :: (nat, bool) random_lib"
  obtain e0 s0 where e0: "sample_reach e0" "m_Server (em_layer e0) = Some s0" "m_ServerIsRunning s0"
    "m_Tasks (m_Pool s0) = [AcceptConnectionThread, DataStreamThread]" "m_Threads (m_Pool s0) = replicate 5 (At_Loop, False)"
    using sample_started by blast
  define p1 where "p1 = set_worker 0 Waiting (m_Pool s0)"
  define e1 where "e1 = e0\<lparr>em_layer := (em_layer e0)\<lparr>m_Server := Some (s0\<lparr>m_Pool := p1\<rparr>)\<rparr>\<rparr>"
  have r1: "sample_reach e1" unfolding e1_def
    by (rule sample_pool_step [OF e0(1,2), of 0 _ "[]"]) (simp_all add: worker_step_def e0(5) p1_def)
  define p2 where "p2 = set_worker 0 (Running AcceptConnectionThread) (p1\<lparr>m_Tasks := [DataStreamThread]\<rparr>)"
  define e2 where "e2 = e1\<lparr>em_layer := (em_layer e1)\<lparr>m_Server := Some (s0\<lparr>m_Pool := p2\<rparr>)\<rparr>\<rparr>"
  have r2: "sample_reach e2" unfolding e2_def
    using sample_pool_step [OF r1, of "s0\<lparr>m_Pool := p1\<rparr>" 0 p2 "[Started AcceptConnectionThread]"]
    by (simp add: worker_step_def e0(4,5) p1_def p2_def e1_def set_worker_def)
  have s2: "m_Server (em_layer e2) = Some (s0\<lparr>m_Pool := p2\<rparr>)" "m_ServerIsRunning (s0\<lparr>m_Pool := p2\<rparr>)"
    "fst (m_Threads p2 ! 0) = Running AcceptConnectionThread" "0 < length (m_Threads p2)"
    using e0(3,5) by (simp_all add: e2_def p2_def p1_def set_worker_def)
  have so: "emulator_inv ?P (blocks sample_heap) e2"
    by (rule reach_emulator_inv [OF sample_enums_ok sample_adc_ok sample_sizes_ok sample_heap_ok(1) r2])
  then have inv: "command_inv (blocks (em_heap e2)) (em_layer e2, em_heap e2)" by (auto simp: emulator_inv_def sound_def)
  have w: "wait_for_connection (ntop sample_world) (accept_reply sample_world) = Accepted 9 (c_str ''10.0.0.9'') 80"
    by (simp add: wait_for_connection_Accepted sample_world_def SOCKET_ERROR_def INVALID_SOCKET_def)
  obtain L3 h3 ev3 where a: "command_accept (Accepted 9 (c_str ''10.0.0.9'') 80) (em_layer e2) (em_heap e2) = Inr (L3, h3, ev3)"
    "command_inv (blocks (em_heap e2)) (L3, h3)" "command_slot (L3, h3) = Some 9"
    using command_accept_step [OF inv, of 9 "c_str ''10.0.0.9''" 80] by (auto simp: bind_ub_Inr_iff)
  define e3 where "e3 = e2\<lparr>em_layer := L3, em_heap := h3\<rparr>"
  have "worker_turn ?P ?R sample_world Command_Port 0 e2 = Some (Inr (e3, ev3))"
    using s2 a(1) by (simp add: worker_turn_def task_turn_def loop_turn_def accept_turn_def w e3_def)
  moreover have "allowed (Worker Command_Port 0 sample_world) (em_layer e2)" by (simp add: sample_world_def data_in_range_def)
  ultimately have "emulator_step ?P ?R e2 e3"
    by (intro emulator_step.turn [of "Worker Command_Port 0 sample_world" _ _ _ _ ev3]) simp_all
  with r2 have "sample_reach e3" by (rule reach_step)
  moreover obtain s3 where "m_Server L3 = Some s3" "slot_conns (Some 9) (m_Connections s3)"
    using a(2,3) by (auto simp: command_inv_def)
  ultimately show ?thesis by (intro exI [of _ e3] exI [of _ s3]) (auto simp: e3_def IsClientConnected_def)
qed

theorem clients_are_served_witness:
  "\<exists>e s. sample_reach e \<and> m_Server (em_layer e) = Some s \<and> IsClientConnected 9 s \<and>
     (HandleConnectionThread 9 \<in> set (m_Tasks (m_Pool s)) \<or> (\<exists>i. serves Command_Port i 9 (em_layer e)))"
proof -
  obtain e s where e: "sample_reach e" "server_of Command_Port (em_layer e) = Some s" "IsClientConnected 9 s"
    using sample_connected_reach by blast
  show ?thesis
    using clients_are_served [OF sample_enums_ok sample_adc_ok sample_sizes_ok sample_heap_ok(1) e] e by auto
qed

end
