(* ===== verification/Timer.thy ===== *)
theory Timer
  imports CxxFloat
begin

section \<open>core/timer.h and the frame statistics of the application\<close>

text \<open>
  Classes \<open>Timer\<close> and the frame statistics that \<open>Application::Run\<close> keeps with one. Clock readings
  are whole nanoseconds. The times are \<open>float\<close>s, so that their accuracy is a claim: each
  conversion and each multiplication rounds.
\<close>

record Timer =
  m_Start :: int

definition Timer :: "int \<Rightarrow> Timer" where "Timer now = \<lparr>m_Start = now\<rparr>"

definition Reset :: "int \<Rightarrow> Timer \<Rightarrow> Timer" where "Reset now t = t\<lparr>m_Start := now\<rparr>"

text \<open>The literal \<open>0.001f\<close>.\<close>

definition milli :: ieee where "milli = fl binary32 False (1 / 1000)"

definition Elapsed :: "int \<Rightarrow> Timer \<Rightarrow> ieee" where
  "Elapsed now t =
     fmul binary32 (fmul binary32 (fmul binary32 (of_int_fl binary32 (now - m_Start t)) milli) milli) milli"

definition ElapsedMilliseconds :: "int \<Rightarrow> Timer \<Rightarrow> ieee" where
  "ElapsedMilliseconds now t = fmul binary32 (Elapsed now t) (Num False 1000)"

fun fneg :: "ieee \<Rightarrow> ieee" where
  "fneg (Num s a) = Num (\<not> s) a"
| "fneg (Infinity s) = Infinity (\<not> s)"
| "fneg NaN = NaN"

record frame_stats =
  m_AppTimer :: Timer
  m_FrameTime :: ieee
  m_LastFrameTime :: ieee

definition new_stats :: "int \<Rightarrow> frame_stats" where
  "new_stats now = \<lparr>m_AppTimer = Timer now, m_FrameTime = Num False 0, m_LastFrameTime = Num False 0\<rparr>"

text \<open>The end of a turn of the loop of \<open>Run\<close>, when the clock reads \<open>now\<close>.\<close>

definition frame_tick :: "int \<Rightarrow> frame_stats \<Rightarrow> frame_stats" where
  "frame_tick now a =
     (let time = Elapsed now (m_AppTimer a)
      in a\<lparr>m_FrameTime := fadd binary32 time (fneg (m_LastFrameTime a)), m_LastFrameTime := time\<rparr>)"

definition FrameRate :: "frame_stats \<Rightarrow> ieee" where
  "FrameRate a = fdiv binary32 (Num False 1) (m_FrameTime a)"

subsection \<open>Accuracy of the timer\<close>

text \<open>One rounding to \<open>float\<close> of a value in its normal range.\<close>

definition lo :: rat where "lo = 1 - 1 / 2 ^ 24"
definition hi :: rat where "hi = 1 + 1 / 2 ^ 24"

lemma rnd32_bounds:
  assumes "1 / 2 ^ 126 \<le> m"
  shows "m * lo \<le> rnd_mag binary32 m" and "rnd_mag binary32 m \<le> m * hi"
proof -
  have m: "0 < m" using assms by (rule less_le_trans [rotated]) simp
  have "ilog 2 (2 powi (-126)) = -126" by (rule ilog_unique) simp_all
  moreover have "ilog 2 (2 powi (-126)) \<le> ilog 2 m"
    using assms by (intro ilog_mono) (simp_all add: power_int_minus inverse_eq_divide)
  ultimately have "qmin binary32 + int (prec binary32) - 1 \<le> ilog 2 m" by simp
  from rnd_mag_rel_error [OF m this]
  have "\<bar>rnd_mag binary32 m - m\<bar> \<le> m * (1 / 2 ^ 24)"
    by (simp add: power_int_minus inverse_eq_divide)
  then have "rnd_mag binary32 m - m \<le> m * (1 / 2 ^ 24)" "m - rnd_mag binary32 m \<le> m * (1 / 2 ^ 24)"
    by (simp_all only: abs_le_iff minus_diff_eq)
  then show "m * lo \<le> rnd_mag binary32 m" "rnd_mag binary32 m \<le> m * hi"
    unfolding lo_def hi_def by (simp_all only: right_diff_distrib distrib_left mult_1_right)
qed

lemma rnd32_le_pow:
  assumes "0 \<le> m" and "m \<le> 2 ^ 64"
  shows "rnd_mag binary32 m \<le> 2 ^ 64"
proof -
  have "ilog 2 m \<le> 64" if "0 < m"
  proof -
    have "ilog 2 m \<le> ilog 2 (2 ^ 64)" using that assms(2) by (intro ilog_mono) simp_all
    also have "ilog 2 (2 ^ 64) = 64" by (rule ilog_unique) simp_all
    finally show ?thesis .
  qed
  then have "ulp_exp binary32 m \<le> 64" if "0 < m" using that by (force simp: ulp_exp_def)
  then show ?thesis using rnd_mag_le_pow [of m 64 binary32] assms by (cases "m = 0") auto
qed

lemma fl32_small:
  assumes "0 \<le> m" and "m \<le> 2 ^ 64"
  shows "fl binary32 s m = Num s (rnd_mag binary32 m)"
proof -
  have "rnd_mag binary32 m < 2 powi 128"
    using rnd32_le_pow [OF assms] by (rule le_less_trans) (simp add: power_int_def)
  then show ?thesis by (simp add: fl_def Let_def)
qed

definition milli_mag :: rat where "milli_mag = 8589935 / 2 ^ 33"

lemma milli_eq: "milli = Num False milli_mag"
proof -
  have "ilog 2 (1 / 1000) = - 10"
    by (rule ilog_unique) (simp_all add: power_int_minus)
  then have "ulp_exp binary32 (1 / 1000) = - 33" by (simp add: ulp_exp_def)
  moreover have "\<lfloor>(2 :: rat) ^ 33 / 1000\<rfloor> = 8589934" by (simp add: floor_eq_iff)
  then have "rne (2 ^ 33 / 1000) = 8589935" by (simp add: rne_def Let_def)
  ultimately have "rnd_mag binary32 (1 / 1000) = milli_mag"
    by (simp add: rnd_mag_def milli_mag_def power_int_minus Let_def)
  then show ?thesis by (simp add: milli_def fl32_small)
qed

lemma milli_mag_bounds: "0 < milli_mag" "milli_mag \<le> 1" "1 / 2 ^ 10 \<le> milli_mag"
  by (simp_all add: milli_mag_def)

lemma fmul_milli:
  assumes "0 \<le> a" and "a \<le> 2 ^ 64"
  shows "fmul binary32 (Num False a) milli = Num False (rnd_mag binary32 (a * milli_mag))"
    and "0 \<le> rnd_mag binary32 (a * milli_mag)" and "rnd_mag binary32 (a * milli_mag) \<le> 2 ^ 64"
proof -
  have "a * milli_mag \<le> 2 ^ 64 * 1" using assms milli_mag_bounds by (intro mult_mono) auto
  then have "0 \<le> a * milli_mag" "a * milli_mag \<le> 2 ^ 64" using assms(1) milli_mag_bounds by simp_all
  then show "fmul binary32 (Num False a) milli = Num False (rnd_mag binary32 (a * milli_mag))"
    "0 \<le> rnd_mag binary32 (a * milli_mag)" "rnd_mag binary32 (a * milli_mag) \<le> 2 ^ 64"
    using rnd32_le_pow by (auto simp: milli_eq fl32_small rnd_mag_nonneg)
qed

text \<open>The seconds that the timer shows for a number of nanoseconds.\<close>

definition seconds :: "int \<Rightarrow> rat" where
  "seconds ns = (let r = rnd_mag binary32 in r (r (r (r (of_int ns) * milli_mag) * milli_mag) * milli_mag))"

lemma Elapsed_eq:
  assumes "0 \<le> now - m_Start t" and "now - m_Start t \<le> 2 ^ 63"
  shows "Elapsed now t = Num False (seconds (now - m_Start t))" and "0 \<le> seconds (now - m_Start t)"
    and "seconds (now - m_Start t) \<le> 2 ^ 64"
proof -
  let ?ns = "of_int (now - m_Start t) :: rat"
  have ns: "0 \<le> ?ns" "?ns \<le> 2 ^ 64"
    using assms by (simp_all del: of_int_diff)
  have "of_int_fl binary32 (now - m_Start t) = Num False (rnd_mag binary32 ?ns)"
    using assms fl32_small [OF ns] by (simp add: of_int_fl_def)
  moreover have r: "0 \<le> rnd_mag binary32 ?ns" "rnd_mag binary32 ?ns \<le> 2 ^ 64"
    by (rule rnd_mag_nonneg [OF ns(1)], rule rnd32_le_pow [OF ns])
  note m1 = fmul_milli [OF r]
  note m2 = fmul_milli [OF m1(2,3)]
  note m3 = fmul_milli [OF m2(2,3)]
  ultimately show "Elapsed now t = Num False (seconds (now - m_Start t))" "0 \<le> seconds (now - m_Start t)"
    "seconds (now - m_Start t) \<le> 2 ^ 64"
    using m1(1) m2(1) m3 by (simp_all only: Elapsed_def seconds_def Let_def)
qed

lemma seconds_mono: "0 \<le> a \<Longrightarrow> a \<le> b \<Longrightarrow> seconds a \<le> seconds b"
  unfolding seconds_def Let_def using milli_mag_bounds
  by (intro rnd_mag_mono mult_right_mono mult_nonneg_nonneg rnd_mag_nonneg) auto

lemma seconds_0 [simp]: "seconds 0 = 0"
  by (simp add: seconds_def)

lemma times_milli_bounds:
  assumes "l \<le> a" and "a \<le> u" and "1 / 2 ^ 100 \<le> l"
  shows "l * milli_mag * lo \<le> rnd_mag binary32 (a * milli_mag)" and "rnd_mag binary32 (a * milli_mag) \<le> u * milli_mag * hi"
proof -
  have "1 / 2 ^ 100 * (1 / 2 ^ 10) \<le> a * milli_mag" using assms milli_mag_bounds by (intro mult_mono) auto
  then have n: "1 / 2 ^ 126 \<le> a * milli_mag" by (rule order_trans [rotated]) simp
  have "l * milli_mag * lo \<le> a * milli_mag * lo" using assms(1) milli_mag_bounds by (intro mult_right_mono) (auto simp: lo_def)
  then show "l * milli_mag * lo \<le> rnd_mag binary32 (a * milli_mag)" using rnd32_bounds(1) [OF n] by (rule order_trans)
  have "a * milli_mag * hi \<le> u * milli_mag * hi" using assms(2) milli_mag_bounds by (intro mult_right_mono) (auto simp: hi_def)
  with rnd32_bounds(2) [OF n] show "rnd_mag binary32 (a * milli_mag) \<le> u * milli_mag * hi" by (rule order_trans)
qed

lemma seconds_accurate:
  assumes "1 \<le> ns"
  shows "of_int ns / 10 ^ 9 * (1 - 1 / 2 ^ 21) \<le> seconds ns"
    and "seconds ns \<le> of_int ns / 10 ^ 9 * (1 + 1 / 2 ^ 21)"
proof -
  let ?n = "of_int ns :: rat"
  have n: "1 \<le> ?n" using assms by simp
  have b0: "?n * lo \<le> rnd_mag binary32 ?n" "rnd_mag binary32 ?n \<le> ?n * hi"
    using n by (intro rnd32_bounds order_trans [OF _ n]; simp)+
  have c: "1 / 2 ^ 100 \<le> ?n * c" if "1 / 2 ^ 100 \<le> c" for c
  proof -
    have "1 * (1 / 2 ^ 100) \<le> ?n * c" using n that by (intro mult_mono) auto
    then show ?thesis by simp
  qed
  have l1: "1 / 2 ^ 100 \<le> ?n * lo" by (rule c) (simp add: lo_def)
  have l2: "1 / 2 ^ 100 \<le> ?n * lo * milli_mag * lo" unfolding mult.assoc by (rule c) (simp add: lo_def milli_mag_def)
  have l3: "1 / 2 ^ 100 \<le> ?n * lo * milli_mag * lo * milli_mag * lo"
    unfolding mult.assoc by (rule c) (simp add: lo_def milli_mag_def)
  note b1 = times_milli_bounds [OF b0 l1]
  note b2 = times_milli_bounds [OF b1 l2]
  note b3 = times_milli_bounds [OF b2 l3]
  have "?n * ((1 - 1 / 2 ^ 21) / 10 ^ 9) \<le> ?n * (lo * milli_mag * lo * milli_mag * lo * milli_mag * lo)"
    using n by (intro mult_left_mono) (simp_all add: lo_def milli_mag_def)
  also have "\<dots> = ?n * lo * milli_mag * lo * milli_mag * lo * milli_mag * lo" by (simp only: mult.assoc)
  also have "\<dots> \<le> seconds ns" using b3(1) by (simp only: seconds_def Let_def)
  finally show "?n / 10 ^ 9 * (1 - 1 / 2 ^ 21) \<le> seconds ns" by simp
  have "seconds ns \<le> ?n * hi * milli_mag * hi * milli_mag * hi * milli_mag * hi" using b3(2) by (simp only: seconds_def Let_def)
  also have "\<dots> = ?n * (hi * milli_mag * hi * milli_mag * hi * milli_mag * hi)" by (simp only: mult.assoc)
  also have "\<dots> \<le> ?n * ((1 + 1 / 2 ^ 21) / 10 ^ 9)"
    using n by (intro mult_left_mono) (simp_all add: hi_def milli_mag_def)
  finally show "seconds ns \<le> ?n / 10 ^ 9 * (1 + 1 / 2 ^ 21)" by simp
qed

subsection \<open>Frame times\<close>

lemma rnd32_error:
  assumes "0 < m"
  shows "\<bar>rnd_mag binary32 m - m\<bar> \<le> m / 2 ^ 24 + 1 / 2 ^ 100"
proof -
  have "(2::rat) powi ulp_exp binary32 m \<le> 2 powi (ilog 2 m - 23) + 2 powi (- 149)"
    by (simp add: ulp_exp_def max_def)
  also have "2 powi (ilog 2 m - 23) = 2 powi ilog 2 m / (2::rat) ^ 23" by (simp add: power_int_diff)
  also have "2 powi ilog 2 m \<le> m" using ilog_bounds(1) [of 2 m] assms by simp
  finally have "(2::rat) powi ulp_exp binary32 m / 2 \<le> m / 2 ^ 24 + 1 / 2 ^ 100"
    by (simp add: power_int_minus field_simps)
  then show ?thesis using rnd_mag_error [of binary32 m] by linarith
qed

lemma near_difference:
  fixes x y a b c :: rat
  assumes "b * (1 - c) \<le> y" and "y \<le> b * (1 + c)" and "a * (1 - c) \<le> x" and "x \<le> a * (1 + c)"
  shows "\<bar>y - x - (b - a)\<bar> \<le> (b + a) * c"
  using assms by (auto simp: abs_le_iff algebra_simps)

lemma rounded_near:
  fixes r v x y :: rat
  assumes "\<bar>r - v\<bar> \<le> v / 2 ^ 24 + 1 / 2 ^ 100" and "\<bar>v - (y - x)\<bar> \<le> (y + x) / 2 ^ 21"
    and "v \<le> 2 * y" and "x \<le> y" and "1 / 10 ^ 9 \<le> y"
  shows "\<bar>r - (y - x)\<bar> \<le> y / 2 ^ 19"
proof -
  have "\<bar>r - (y - x)\<bar> \<le> \<bar>r - v\<bar> + \<bar>v - (y - x)\<bar>" by linarith
  also have "\<dots> \<le> v / 2 ^ 24 + 1 / 2 ^ 100 + (y + x) / 2 ^ 21" using assms(1,2) by linarith
  also have "\<dots> \<le> y / 2 ^ 19" using assms(3-5) by (simp add: field_simps)
  finally show ?thesis .
qed

lemma timer_difference:
  assumes "0 \<le> a" and "a \<le> b" and "1 \<le> b" and "b \<le> 2 ^ 63"
  shows "\<exists>d. fadd binary32 (Num False (seconds b)) (fneg (Num False (seconds a))) = Num False d \<and> 0 \<le> d \<and>
           \<bar>d - of_int (b - a) / 10 ^ 9\<bar> \<le> of_int b / 10 ^ 9 / 2 ^ 19"
proof -
  let ?v = "seconds b - seconds a" and ?A = "of_int a / 10 ^ 9 :: rat" and ?B = "of_int b / 10 ^ 9 :: rat"
  have v: "0 \<le> ?v" using seconds_mono [OF assms(1,2)] by simp
  have B: "1 / 10 ^ 9 \<le> ?B" using assms(3) by (intro divide_right_mono) simp_all
  have AB: "0 \<le> ?A" "?A \<le> ?B" using assms(1,2) by (auto intro: divide_right_mono)
  have "?B * (1 - 1 / 2 ^ 21) \<le> seconds b" "seconds b \<le> ?B * (1 + 1 / 2 ^ 21)"
    by (rule seconds_accurate [OF assms(3)])+
  moreover have "?A * (1 - 1 / 2 ^ 21) \<le> seconds a \<and> seconds a \<le> ?A * (1 + 1 / 2 ^ 21)"
    using seconds_accurate [of a] assms(1) by (cases "a = 0") auto
  ultimately have "\<bar>?v - (?B - ?A)\<bar> \<le> (?B + ?A) * (1 / 2 ^ 21)"
    by (intro near_difference) simp_all
  then have e: "\<bar>?v - (?B - ?A)\<bar> \<le> (?B + ?A) / 2 ^ 21" by simp
  moreover have "y - x + (y + x) / 2 ^ 21 \<le> 2 * y" if "0 \<le> x" "x \<le> y" for x y :: rat
    using that by (simp add: field_simps)
  note this [OF AB]
  ultimately have v2: "?v \<le> 2 * ?B" unfolding abs_le_iff by (elim conjE) linarith
  have d: "of_int (b - a) / 10 ^ 9 = ?B - ?A" by (simp add: diff_divide_distrib)
  show ?thesis
  proof (cases "?v = 0")
    case True
    then show ?thesis using e AB B d by (intro exI [of _ 0]) (simp add: abs_le_iff)
  next
    case False
    have "seconds b \<le> 2 ^ 64"
      using Elapsed_eq(3) [of b "\<lparr>m_Start = 0\<rparr>"] assms by simp
    moreover have "0 \<le> seconds a" using seconds_mono [of 0 a] assms(1) by simp
    ultimately have "fadd binary32 (Num False (seconds b)) (fneg (Num False (seconds a))) =
        Num False (rnd_mag binary32 ?v)"
      using False v fl32_small [of ?v] by simp
    moreover have "\<bar>rnd_mag binary32 ?v - ?v\<bar> \<le> ?v / 2 ^ 24 + 1 / 2 ^ 100"
      using False v by (intro rnd32_error) simp
    then have "\<bar>rnd_mag binary32 ?v - (?B - ?A)\<bar> \<le> ?B / 2 ^ 19"
      by (rule rounded_near [OF _ e v2 AB(2) B])
    ultimately show ?thesis using rnd_mag_nonneg [OF v] unfolding d by blast
  qed
qed

lemma fold_frame_tick:
  "m_AppTimer (fold frame_tick nows a) = m_AppTimer a"
  "nows \<noteq> [] \<Longrightarrow> m_LastFrameTime (fold frame_tick nows a) = Elapsed (last nows) (m_AppTimer a)"
  by (induction nows arbitrary: a) (auto simp: frame_tick_def Let_def)

text \<open>
  Property C39: the frame times of the main loop. Whatever the clock reads at the ends of the
  turns, as long as it does not run backwards, each frame time is a number, never negative,
  and differs from the true time of the frame by at most the running time over \<open>2 ^ 19\<close>. (A
  frame of 100 ms is below that error after 15 hours; the frame rate is infinite when
  the difference is rounded to 0.)
\<close>

theorem frame_times_accurate:
  assumes "sorted (start # nows @ [now])" and "start < now" and "now - start \<le> 2 ^ 63"
  shows "\<exists>d. m_FrameTime (fold frame_tick (nows @ [now]) (new_stats start)) = Num False d \<and> 0 \<le> d \<and>
     \<bar>d - of_int (now - last (start # nows)) / 10 ^ 9\<bar> \<le> of_int (now - start) / 10 ^ 9 / 2 ^ 19 \<and>
     (d = 0 \<longrightarrow> FrameRate (fold frame_tick (nows @ [now]) (new_stats start)) = Infinity False)"
proof -
  let ?t = "Timer start" and ?a = "fold frame_tick nows (new_stats start)" and ?p = "last (start # nows)"
  have p: "start \<le> ?p" "?p \<le> now" using assms(1) by (auto simp: sorted_append)
  have t: "m_AppTimer ?a = ?t" by (simp add: fold_frame_tick new_stats_def)
  have "Elapsed start ?t = Num False 0" using Elapsed_eq(1) [of start ?t] by (simp add: Timer_def)
  then have l: "m_LastFrameTime ?a = Elapsed ?p ?t"
    by (cases "nows = []") (simp_all add: fold_frame_tick new_stats_def)
  have e: "Elapsed ?p ?t = Num False (seconds (?p - start))" "Elapsed now ?t = Num False (seconds (now - start))"
    using Elapsed_eq(1) [of ?p ?t] Elapsed_eq(1) [of now ?t] p assms(3) by (simp_all add: Timer_def)
  obtain d where d: "fadd binary32 (Num False (seconds (now - start))) (fneg (Num False (seconds (?p - start)))) = Num False d"
    "0 \<le> d" "\<bar>d - of_int (now - start - (?p - start)) / 10 ^ 9\<bar> \<le> of_int (now - start) / 10 ^ 9 / 2 ^ 19"
    using timer_difference [of "?p - start" "now - start"] p assms(2,3) by auto
  have "now - start - (?p - start) = now - ?p" by simp
  moreover have "m_FrameTime (fold frame_tick (nows @ [now]) (new_stats start)) = Num False d"
    using d(1) by (simp only: fold_append o_apply fold_simps frame_tick_def t l e Let_def) simp
  ultimately show ?thesis using d(2,3) by (auto simp: FrameRate_def)
qed

theorem frame_times_accurate_witness:
  "\<exists>d. m_FrameTime (fold frame_tick ([100000000] @ [200000000]) (new_stats 0)) = Num False d \<and>
     \<bar>d - 1 / 10\<bar> \<le> 1 / 5 / 2 ^ 19"
  using frame_times_accurate [of 0 "[100000000]" 200000000] by auto

end
