(* ===== verification/Log.thy ===== *)
theory Log
  imports CxxText
begin

section \<open>core/log.h: log lines\<close>

text \<open>
  \<open>aero::Log::PrintMsg\<close>, through which every log macro goes, and \<open>std::vformat\<close> for the formats
  that the log calls use, whose replacement fields have no format specification. The arguments
  are the texts that the default formatting makes of them; the time stamp is an argument. What
  is printed is one text, which \<open>osyncstream\<close> puts out as a whole.
\<close>

subsection \<open>Replacement fields\<close>

text \<open>
  \<open>Format_Error\<close> is the exception \<open>std::format_error\<close>; \<open>With_Spec\<close> is a field with a format
  specification, which is outside this model.
\<close>

datatype formatted = Text string | Format_Error | With_Spec

text \<open>Fields without a number count up; they must not be mixed with numbered ones.\<close>

datatype indexing = Unset | Automatic nat | Manual

fun prepend :: "string \<Rightarrow> formatted \<Rightarrow> formatted" where
  "prepend s (Text t) = Text (s @ t)"
| "prepend s r = r"

text \<open>The field after an opening brace: the argument it names, how the fields count on, the rest.\<close>

datatype parsed_field = Bad_Field | Spec_Field | Field nat indexing string

definition parse_field :: "indexing \<Rightarrow> string \<Rightarrow> parsed_field" where
  "parse_field ix s =
     (let ds = takeWhile (is_digit 10) s; more = dropWhile (is_digit 10) s
      in if more = [] \<or> (1 < length ds \<and> hd ds = CHR ''0'') then Bad_Field
         else if hd more = CHR '':'' then Spec_Field
         else if hd more \<noteq> CHR ''}'' then Bad_Field
         else if ds = [] then
           (case ix of Unset \<Rightarrow> Field 0 (Automatic 1) (tl more)
            | Automatic n \<Rightarrow> Field n (Automatic (Suc n)) (tl more)
            | Manual \<Rightarrow> Bad_Field)
         else (case ix of Automatic n \<Rightarrow> Bad_Field | _ \<Rightarrow> Field (base_val 10 ds) Manual (tl more)))"

lemma parse_field_shorter: "parse_field ix s = Field i ix' after \<Longrightarrow> length after < length s"
proof -
  assume f: "parse_field ix s = Field i ix' after"
  have "length (dropWhile (is_digit 10) s) \<le> length s" by (rule length_dropWhile_le)
  moreover have "dropWhile (is_digit 10) s \<noteq> []" "after = tl (dropWhile (is_digit 10) s)"
    using f by (auto simp: parse_field_def Let_def split: if_splits indexing.splits)
  ultimately show ?thesis by (cases "dropWhile (is_digit 10) s") auto
qed

function vformat_from :: "indexing \<Rightarrow> string list \<Rightarrow> string \<Rightarrow> formatted" where
  "vformat_from ix args [] = Text []"
| "vformat_from ix args (c # rest) =
     (if c = CHR ''{'' then
        if rest \<noteq> [] \<and> hd rest = CHR ''{'' then prepend ''{'' (vformat_from ix args (tl rest))
        else (case parse_field ix rest of
            Bad_Field \<Rightarrow> Format_Error
          | Spec_Field \<Rightarrow> With_Spec
          | Field i ix' after \<Rightarrow>
              if i < length args then prepend (args ! i) (vformat_from ix' args after) else Format_Error)
      else if c = CHR ''}'' then
        if rest \<noteq> [] \<and> hd rest = CHR ''}'' then prepend ''}'' (vformat_from ix args (tl rest)) else Format_Error
      else prepend [c] (vformat_from ix args rest))"
  by pat_completeness auto

termination
proof (relation "measure (\<lambda>(ix, args, s). length s)")
  fix ix args c rest i ix' after
  assume "parse_field ix rest = Field i ix' after"
  then show "((ix', args, after), ix, args, c # rest) \<in> measure (\<lambda>(ix, args, s). length s)"
    using parse_field_shorter [of ix rest] by fastforce
qed auto

definition vformat :: "string \<Rightarrow> string list \<Rightarrow> formatted" where
  "vformat fmt args = vformat_from Unset args fmt"

subsection \<open>Log lines\<close>

datatype Level = Debug | Info | Warn | Error

fun LevelNames :: "Level \<Rightarrow> string" where
  "LevelNames Debug = ''DEGUB''"
| "LevelNames Info = ''INFO''"
| "LevelNames Warn = ''WARN''"
| "LevelNames Error = ''ERROR''"

fun LevelColor :: "Level \<Rightarrow> string" where
  "LevelColor Debug = ''92m''"
| "LevelColor Info = ''94m''"
| "LevelColor Warn = ''93m''"
| "LevelColor Error = ''91m''"

text \<open>The field \<open>{:5}\<close>: at least five characters, filled on the right.\<close>

definition width5 :: "string \<Rightarrow> string" where
  "width5 s = s @ replicate (5 - length s) (CHR '' '')"

definition escape :: "string \<Rightarrow> string" where "escape s = ESC # CHR ''['' # s"

definition tag_string :: "Level \<Rightarrow> string \<Rightarrow> string" where
  "tag_string level tag =
     (let name = LevelNames level; color = LevelColor level
      in if tag = [] then '' [ '' @ escape (color @ width5 name) @ escape ''0m'' @ '' ] ''
         else '' [ '' @ escape (color @ width5 name) @ escape ''0m'' @ '' ] :: '' @
              escape (color @ tag) @ escape ''0m'' @ '' :: '')"

definition PrintMsg :: "string \<Rightarrow> Level \<Rightarrow> string \<Rightarrow> string \<Rightarrow> string list \<Rightarrow> formatted" where
  "PrintMsg time level fmt tag args =
     (case vformat fmt args of Text msg \<Rightarrow> Text (time @ tag_string level tag @ msg @ [LF]) | e \<Rightarrow> e)"

definition PrintAssertMsg :: "string \<Rightarrow> string \<Rightarrow> string \<Rightarrow> string list \<Rightarrow> formatted" where
  "PrintAssertMsg time tag fmt args = PrintMsg time Error fmt tag args"

subsection \<open>A message is its text with the arguments as they are\<close>

text \<open>A format from its pieces of text, with a field between any two; and the text it stands for.\<close>

fun fields :: "string list \<Rightarrow> string" where
  "fields [] = []"
| "fields [p] = p"
| "fields (p # ps) = p @ ''{}'' @ fields ps"

fun weave :: "string list \<Rightarrow> string list \<Rightarrow> string" where
  "weave (p # q # ps) (a # args) = p @ a @ weave (q # ps) args"
| "weave ps args = concat ps"

definition no_braces :: "string \<Rightarrow> bool" where
  "no_braces s \<longleftrightarrow> CHR ''{'' \<notin> set s \<and> CHR ''}'' \<notin> set s"

lemma prepend_prepend [simp]: "prepend s (prepend t r) = prepend (s @ t) r"
  by (cases r) simp_all

lemma prepend_Nil [simp]: "prepend [] r = r"
  by (cases r) simp_all

lemma vformat_plain:
  "no_braces p \<Longrightarrow> vformat_from ix args (p @ s) = prepend p (vformat_from ix args s)"
  by (induction p) (auto simp: no_braces_def)

lemma vformat_field:
  "ix = Automatic n \<or> ix = Unset \<and> n = 0 \<Longrightarrow>
     vformat_from ix args (''{}'' @ s) =
       (if n < length args then prepend (args ! n) (vformat_from (Automatic (Suc n)) args s) else Format_Error)"
  by (auto simp: parse_field_def is_digit_def digit_val_def ord_of_def Let_def)

lemma vformat_fields:
  "ix = Automatic n \<or> ix = Unset \<and> n = 0 \<Longrightarrow> n \<le> length args \<Longrightarrow> list_all no_braces ps \<Longrightarrow> ps \<noteq> [] \<Longrightarrow>
     vformat_from ix args (fields ps) =
       (if length ps - 1 + n \<le> length args then Text (weave ps (take (length ps - 1) (drop n args))) else Format_Error)"
proof (induction ps arbitrary: ix n rule: fields.induct)
  case (2 p)
  then show ?case using vformat_plain [of p ix args "[]"] by auto
next
  case (3 p q ps)
  have "vformat_from ix args (fields (p # q # ps)) = prepend p (vformat_from ix args (''{}'' @ fields (q # ps)))"
    using "3.prems"(3) vformat_plain [of p] by simp
  also have "\<dots> = (if n < length args
      then prepend (p @ args ! n) (vformat_from (Automatic (Suc n)) args (fields (q # ps))) else Format_Error)"
    unfolding vformat_field [OF "3.prems"(1)] by simp
  finally show ?case
    using "3.IH" [of "Automatic (Suc n)" "Suc n"] "3.prems"(2,3) by (auto simp: Cons_nth_drop_Suc [symmetric] take_Suc_conv_app_nth)
qed auto

text \<open>
  Property C40: log messages carry their arguments as they are. A log call whose format has
  plain pieces of text with a field between any two prints, after the time and the level and
  tag, the pieces with the arguments between them, whatever braces or other characters the
  arguments contain (they come from clients); it throws exactly if it has fewer arguments
  than fields.
\<close>

theorem log_arguments_verbatim:
  assumes "list_all no_braces ps" and "ps \<noteq> []"
  shows "PrintMsg time level (fields ps) tag args =
     (if length ps - 1 \<le> length args
      then Text (time @ tag_string level tag @ weave ps (take (length ps - 1) args) @ [LF]) else Format_Error)"
  using vformat_fields [of Unset 0 args ps] assms by (simp add: PrintMsg_def vformat_def)

theorem log_arguments_verbatim_witness:
  "PrintMsg ''T'' Error ''Invalid Command: `{}`'' ''MPS'' [''{1}{''] =
     Text (''T'' @ tag_string Error ''MPS'' @ ''Invalid Command: `{1}{`'' @ [LF])"
  using log_arguments_verbatim [of "[''Invalid Command: `'', ''`'']" "''T''" Error "''MPS''" "[''{1}{'']"]
  by (simp add: no_braces_def)

end
