(* ===== verification/Spec2Isabelle.thy ===== *)
theory Spec2Isabelle
  imports EmulatorSafe Timer Log
begin

text \<open>
  A verification library of the MPS emulator, a program that stands in for a Scanivalve
  MPS4200 pressure scanner on the network. This theory only gathers the others and says what
  they hold.

  \<^bold>\<open>The program.\<close> \<open>main\<close> (\<open>aero/core/entrypoint.h\<close>) makes an \<open>Application\<close> from the command
  line, runs its loop and deletes it, and again after a restart. The application has one layer,
  \<open>ServerLayer\<close> (\<open>server-layer.cpp\<close>). It owns a virtual scanner \<open>mps::Mps\<close>
  (\<open>scanivalve/mps.cpp\<close>), a command server for telnet clients that also streams datagrams, and
  a binary server on port 503 (both \<open>aero::networking::Server\<close>). The scanner has a thread that
  makes the frames of a scan and reports them, and its status, through callbacks of the layer;
  the servers have threads that accept connections, receive and stream, and call the layer back
  on connections and data. The command server's client controls the scanner with text commands,
  the binary server's client starts and stops scans with single bytes and gets the frames.
  With \<open>--enable-console\<close> the layer also has a \<open>Console\<close> (\<open>console.cpp\<close>), whose thread hands the
  lines of the terminal on: to all clients, or after a slash to the command interpreter. The
  own commands \<open>shutdown\<close> and \<open>restart\<close> reach the application through a static pointer.
  Buffers are raw pointers that the receiver of a call frees.

  \<^bold>\<open>The theories,\<close> in the order of what they import:
  \<^item> \<open>Prelude\<close>: undefined behaviour as a value (\<open>ub\<close> and its bind), reachable states, and the
    interfaces (locales) for invariants, simulations, queues, and printers with their parsers.
  \<^item> \<open>CxxFloat\<close>, \<open>CxxText\<close>: what the program uses of the language's floating-point numbers
    and of the standard library's conversions between text and numbers.
  \<^item> \<open>StdMap\<close>: \<open>std::map\<close> as an ordered association list, with its interface.
  \<^item> \<open>StringUtils\<close>: \<open>utils::SplitString\<close> (\<open>utils/string-utils.cpp\<close>), equal to a reference
    splitter.
  \<^item> \<open>Protocol\<close>: the protocol header, a parameter of the model (see below).
  \<^item> \<open>MpsDevice\<close>: the state of \<open>mps::Mps\<close> (record \<open>mps\<close>, the class's fields) and its control
    operations. \<open>MpsCommands\<close>: \<open>Mps::ParseCommands\<close>, one definition per command. \<open>MpsScan\<close>: one
    frame of \<open>Mps::ScanThreadFn\<close>, every branch of it, and its repetition. \<open>MpsRun\<close>: whole scans.
    \<open>ScanRepeat\<close>: in what a scan repeats another. \<open>ScanThread\<close>: the loops as steps that end where
    the thread sleeps, so after each subframe too, and that the operations of other threads
    interrupt; the steps of a frame that is left alone are proved to be the frame of \<open>MpsScan\<close>.
  \<^item> \<open>ThreadPool\<close>: \<open>aero::ThreadPool\<close> (\<open>core/threads.cpp\<close>) as a step relation of workers,
    callers and \<open>StopAll\<close>, with the queue it implements.
  \<^item> \<open>Buffers\<close>: \<open>aero::Buffer\<close> (\<open>core/buffer.h\<close>) over an explicit heap of blocks, and the byte
    order functions and \<open>HexDump\<close> of \<open>networking/utils.h\<close>.
  \<^item> \<open>Sockets\<close>: \<open>networking/socket.h\<close>, each function over the operating system's answers.
    \<open>Server\<close>: \<open>networking/server.cpp\<close>: start, stop, connections, sending, the datagram queue and
    a turn of each thread function.
  \<^item> \<open>ServerLayer\<close>, \<open>LayerFrames\<close>: the layer's callbacks, composed with the servers' threads and
    the scanner. \<open>Sessions\<close>: whole sessions of the controlling client and of the console, and
    the life of connections under the handler threads.
  \<^item> \<open>Args\<close>: \<open>utils/args.h\<close>. \<open>Lifecycle\<close>: creation from the command line, detaching and the main
    loop. \<open>Console\<close>: \<open>console.cpp\<close>, its thread and its owner as steps that interleave.
    \<open>Requests\<close>: the application's instance and destructor, and the commands that need it.
  \<^item> \<open>SafeCommands\<close>: which texts the scanner and the layer answer without leaving defined
    behaviour. \<open>Emulator\<close>: the running program, all its threads as turns on one state;
    \<open>EmulatorMemory\<close>: the storage they use; \<open>EmulatorFrames\<close>, \<open>EmulatorSafe\<close>: its invariant.
  \<^item> \<open>Timer\<close>: \<open>core/timer.h\<close> and the frame times of the application. \<open>Log\<close>: what a line of
    \<open>core/log.h\<close> says.

  \<^bold>\<open>How the model corresponds to the code.\<close> A class is a record with its fields under their
  names, an operation is a function from the state to the new state, with the callbacks made,
  the data sent and the sockets closed as a list of events in their order. What would leave the
  behaviour that C++ defines (a read of an uninitialised variable, a conversion out of range, an
  erased iterator, a freed block, a null pointer) is \<open>Inl\<close> of the sum \<open>ub + 'a\<close>, so that
  \<open>is_defined\<close> or a result \<open>Inr\<close> in a theorem is a proof that it does not happen. Fixed-width
  integers are words. Data shared through pointers lives in a heap (record \<open>heap\<close>) that is
  passed along, so that leaks and double frees can be stated: a theorem about what a call leaves
  says which \<open>blocks\<close> are in use. Clocks, the operating system's answers and the random number
  library are arguments.

  \<^bold>\<open>What the lemmas show.\<close> The properties are numbered in order of importance.
  \<^item> The running program (\<open>EmulatorSafe\<close>): in whatever order its threads take their turns, and
    whatever the operating system and the clients answer, no turn leaves defined behaviour as
    long as the numbers in commands are in range, which is exact for the scanner and its scans
    (\<open>SafeCommands\<close>; a rate is in range above \<open>10 ^ 9 / 2 ^ 31\<close> Hz, where the frame period fits
    the code's \<open>int\<close>); one client for each server, none without a handler, and no storage but the
    receive buffers and the queued datagrams.
  \<^item> A scan: exactly the frames asked for, numbered, timed, never outside defined behaviour,
    and delivered to the client and the stream they are for (\<open>MpsRun\<close>, \<open>MpsScan\<close>,
    \<open>LayerFrames\<close>); repeatable up to the time stamps of legacy packets, as far as the library's
    distribution keeps nothing between scans (\<open>ScanRepeat\<close>); the scan thread under interference
    (\<open>ScanThread\<close>).
  \<^item> Clients: one at a time on each server, the last one wins, only it has control, and typing is
    sending (\<open>ServerLayer\<close>, through the locale \<open>client_slot\<close> interpreted for both servers). A
    session is a dialogue of commands with the scanner, and the console takes part in it as the
    client does; a connection lives until its own handler ends, as long as the operating system
    does not reuse its socket earlier (\<open>Sessions\<close>).
  \<^item> Commands: settings read back, what each group may change, all inputs that are undefined.
  \<^item> The servers: delivery in both directions, order of the stream, no leak, which clients there
    are, and what starting and stopping leave (\<open>Server\<close>); the thread pool's order and end.
  \<^item> The program: from the command line to a scanner that works, the main loop, servers that an
    update brings up again, and what a shutdown does (\<open>Args\<close>, \<open>Lifecycle\<close>); requests to an
    application that may be gone (\<open>Requests\<close>); lines of the console in order, and when its
    destructor returns (\<open>Console\<close>); the accuracy of the frame times (\<open>Timer\<close>) and the text of
    log lines (\<open>Log\<close>).
  Several of these state defects as they are: the inputs that are undefined, a \<open>Stop\<close> with
  clients, the double clean-up, a restart that comes too early, requests that come too late, a
  frame averaged over a number of subframes that it did not have, a handler that
  disconnects a stranger, a console that is never joined.

  \<^bold>\<open>Interfaces.\<close> \<open>fifo\<close> is interpreted by the queue of \<open>ThreadPool\<close>; \<open>invariant_system\<close> by the
  pool's workers, its stopping, the scan thread, the console and the running program;
  \<open>forward_simulation\<close> by the pool and its queue; \<open>ordered_map\<close> by \<open>StdMap\<close>; \<open>text_codec\<close> by the numbers of the command line;
  \<open>client_slot\<close> by both servers.

  \<^bold>\<open>Bounds and fuel.\<close> \<open>scan_run\<close> takes the number of frames to run at most and says whether the
  scan ended; for a scan of \<open>n\<close> frames \<open>n\<close> is proved to be enough. The floating-point model is
  exact (rationals with one rounding per operation). Loops over given text and lists are
  structural or have a measure. The main loop and the threads run on schedules of what happens,
  not on fuel; \<open>None\<close> in \<open>run_turns\<close> is a loop that is still running.

  \<^bold>\<open>Parameters.\<close> \<open>scanivalve/mps-protocol.h\<close> comes from another repository: its enumerators,
  sizes, conversions and struct layouts are the record \<open>mps_protocol\<close>, and what the code relies
  on are the predicates \<open>enums_ok\<close>, \<open>adc_ok\<close> and \<open>sizes_ok\<close>, which \<open>sample_protocol\<close> satisfies.
  The hash and the generator of the C++ library are the record \<open>random_lib\<close>.

  \<^bold>\<open>Not modelled.\<close> The places where operations log (\<open>PrintMsg\<close> itself is modelled, for formats
  whose fields have no format specification), the time stamp of a line, the macros of
  \<open>assert.h\<close>, which the modelled code does not use, the interface \<open>layer.h\<close> of empty virtual
  functions, and \<open>ScopedTimer\<close>, which prints a time and has no user. Functions that a header
  declares and no source defines. What a thread does with members of an object that is already
  destroyed: \<open>Console\<close> reads the callback as null then, and \<open>Requests\<close> ends with the detached
  layers, before their members are destroyed. The code is modelled for Windows, the only
  platform it compiles for. Operations of different threads interleave at the granularity of
  the definitions: the part of a frame between two sleeps of the scan thread, a turn of a thread
  function (which ends where \<open>recv\<close> blocks), a callback; data races inside these, on the
  fields that the code shares without a lock, are not modelled. The running program of
  \<open>Emulator\<close> is followed until the main loop ends: what comes after is \<open>Requests\<close> and
  \<open>Lifecycle\<close>. A thread that starts a scan after \<open>Shutdown\<close> is outside the
  claim that the scan thread ends.
\<close>

end
